(* ===== verification/Prelude.thy ===== *)
theory Prelude
  imports Main "HOL-Library.Word" "HOL-Library.AList"
begin

text \<open>
  Shared ground of the development: the machine integers of the Rust sources as words, the
  checked and saturating integer operations of the Rust standard library, byte encodings of
  integers, the fallible left fold that stands for a \<^verbatim>\<open>for\<close> loop with \<^verbatim>\<open>?\<close> in its body,
  and the lemmas about finite maps and sums that the component theories share.

  Integer operators written \<^verbatim>\<open>+\<close>, \<^verbatim>\<open>-\<close>, \<^verbatim>\<open>*\<close> in the sources wrap around in a release
  build (the workspace's Cargo profile does not turn overflow checks on), so they are the
  operations of \<^typ>\<open>'a word\<close>.
\<close>

type_synonym u8 = "8 word"
type_synonym u16 = "16 word"
type_synonym u32 = "32 word"
type_synonym u64 = "64 word"
type_synonym u128 = "128 word"

type_synonym ('e, 'a) result = "'e + 'a"

named_theorems rust_arith \<open>characterisations of the checked and saturating operations\<close>
named_theorems supply_simps \<open>how an operation changes the sum of a balance map\<close>

section \<open>Checked and saturating integer operations\<close>

definition checked_add :: "'a::len word \<Rightarrow> 'a word \<Rightarrow> 'a word option" where
  "checked_add x y = (if unat x + unat y < 2 ^ LENGTH('a) then Some (x + y) else None)"

definition checked_sub :: "'a::len word \<Rightarrow> 'a word \<Rightarrow> 'a word option" where
  "checked_sub x y = (if y \<le> x then Some (x - y) else None)"

definition checked_mul :: "'a::len word \<Rightarrow> 'a word \<Rightarrow> 'a word option" where
  "checked_mul x y = (if unat x * unat y < 2 ^ LENGTH('a) then Some (x * y) else None)"

definition checked_div :: "'a::len word \<Rightarrow> 'a word \<Rightarrow> 'a word option" where
  "checked_div x y = (if y = 0 then None else Some (x div y))"

definition saturating_add :: "'a::len word \<Rightarrow> 'a word \<Rightarrow> 'a word" where
  "saturating_add x y = (if unat x + unat y < 2 ^ LENGTH('a) then x + y else - 1)"

definition saturating_sub :: "'a::len word \<Rightarrow> 'a word \<Rightarrow> 'a word" where
  "saturating_sub x y = (if y \<le> x then x - y else 0)"

definition saturating_mul :: "'a::len word \<Rightarrow> 'a word \<Rightarrow> 'a word" where
  "saturating_mul x y = (if unat x * unat y < 2 ^ LENGTH('a) then x * y else - 1)"

lemma checked_add_Some_iff [rust_arith]:
  "checked_add x y = Some z \<longleftrightarrow> unat z = unat x + unat y" for x y z :: "'a::len word"
proof
  assume "checked_add x y = Some z"
  then show "unat z = unat x + unat y"
    by (auto simp: checked_add_def unat_word_ariths split: if_splits)
next
  assume z: "unat z = unat x + unat y"
  then have lt: "unat x + unat y < 2 ^ LENGTH('a)"
    by (metis unsigned_less)
  with z have "unat (x + y) = unat z" by (simp add: unat_word_ariths)
  with lt show "checked_add x y = Some z" by (simp add: checked_add_def word_unat_eq_iff)
qed

lemma checked_add_None_iff [rust_arith]:
  "checked_add x y = None \<longleftrightarrow> 2 ^ LENGTH('a) \<le> unat x + unat y" for x y :: "'a::len word"
  by (simp add: checked_add_def not_less)

lemma checked_sub_Some_iff [rust_arith]:
  "checked_sub x y = Some z \<longleftrightarrow> unat z + unat y = unat x" for x y z :: "'a::len word"
proof
  assume "checked_sub x y = Some z"
  then show "unat z + unat y = unat x"
    by (auto simp: checked_sub_def unat_sub word_le_nat_alt split: if_splits)
next
  assume z: "unat z + unat y = unat x"
  then have le: "y \<le> x" by (simp add: word_le_nat_alt)
  with z have "unat (x - y) = unat z" by (simp add: unat_sub)
  with le show "checked_sub x y = Some z" by (simp add: checked_sub_def word_unat_eq_iff)
qed

lemma checked_sub_None_iff [rust_arith]:
  "checked_sub x y = None \<longleftrightarrow> unat x < unat y" for x y :: "'a::len word"
  by (simp add: checked_sub_def word_le_nat_alt not_le)

lemma checked_mul_Some_iff [rust_arith]:
  "checked_mul x y = Some z \<longleftrightarrow> unat z = unat x * unat y" for x y z :: "'a::len word"
proof
  assume "checked_mul x y = Some z"
  then show "unat z = unat x * unat y"
    by (auto simp: checked_mul_def unat_word_ariths split: if_splits)
next
  assume z: "unat z = unat x * unat y"
  then have lt: "unat x * unat y < 2 ^ LENGTH('a)"
    by (metis unsigned_less)
  with z have "unat (x * y) = unat z" by (simp add: unat_word_ariths)
  with lt show "checked_mul x y = Some z" by (simp add: checked_mul_def word_unat_eq_iff)
qed

lemma checked_mul_None_iff [rust_arith]:
  "checked_mul x y = None \<longleftrightarrow> 2 ^ LENGTH('a) \<le> unat x * unat y" for x y :: "'a::len word"
  by (simp add: checked_mul_def not_less)

lemma checked_div_Some_iff [rust_arith]:
  "checked_div x y = Some z \<longleftrightarrow> y \<noteq> 0 \<and> z = x div y" for x y z :: "'a::len word"
  by (auto simp: checked_div_def)

lemma unat_saturating_add [rust_arith]:
  "unat (saturating_add x y) = min (unat x + unat y) (2 ^ LENGTH('a) - 1)"
  for x y :: "'a::len word"
proof (cases "unat x + unat y < 2 ^ LENGTH('a)")
  case True
  then show ?thesis by (simp add: saturating_add_def unat_word_ariths)
next
  case False
  then show ?thesis by (simp add: saturating_add_def unsigned_minus_1_eq_mask mask_eq_exp_minus_1)
qed

lemma unat_saturating_mul [rust_arith]:
  "unat (saturating_mul x y) = min (unat x * unat y) (2 ^ LENGTH('a) - 1)"
  for x y :: "'a::len word"
proof (cases "unat x * unat y < 2 ^ LENGTH('a)")
  case True
  then show ?thesis by (simp add: saturating_mul_def unat_word_ariths)
next
  case False
  then show ?thesis by (simp add: saturating_mul_def unsigned_minus_1_eq_mask mask_eq_exp_minus_1)
qed

lemma unat_saturating_sub [rust_arith]:
  "unat (saturating_sub x y) = unat x - unat y" for x y :: "'a::len word"
  by (simp add: saturating_sub_def unat_sub word_le_nat_alt)

section \<open>Fallible folds\<close>

text \<open>
  \<^verbatim>\<open>for x in xs { state = step(state, x)?; }\<close>: the first error ends the loop.
\<close>

fun try_fold :: "('s \<Rightarrow> 'x \<Rightarrow> ('e, 's) result) \<Rightarrow> 's \<Rightarrow> 'x list \<Rightarrow> ('e, 's) result" where
  "try_fold step s [] = Inr s"
| "try_fold step s (x # xs) =
     (case step s x of Inl e \<Rightarrow> Inl e | Inr s' \<Rightarrow> try_fold step s' xs)"

lemma try_fold_append:
  "try_fold step s (xs @ ys) =
     (case try_fold step s xs of Inl e \<Rightarrow> Inl e | Inr s' \<Rightarrow> try_fold step s' ys)"
  by (induction xs arbitrary: s) (auto split: sum.splits)

lemma try_fold_Cons_Inr:
  "try_fold step s (x # xs) = Inr t \<longleftrightarrow> (\<exists>s'. step s x = Inr s' \<and> try_fold step s' xs = Inr t)"
  by (auto split: sum.splits)

lemma try_fold_split:
  assumes "try_fold step s xs = Inr t" and "x \<in> set xs"
  obtains ys zs s1 s2 where "xs = ys @ x # zs" "try_fold step s ys = Inr s1"
    "step s1 x = Inr s2" "try_fold step s2 zs = Inr t"
proof -
  from assms(2) obtain ys zs where xs: "xs = ys @ x # zs" by (auto simp: in_set_conv_decomp)
  with assms(1) show thesis
    by (auto simp: try_fold_append split: sum.splits intro: that)
qed

text \<open>
  The contract of a loop whose every step keeps an invariant: it holds after the loop.
\<close>

locale invariant_loop =
  fixes step :: "'s \<Rightarrow> 'x \<Rightarrow> ('e, 's) result"
    and inv :: "'s \<Rightarrow> bool"
    and ok :: "'x \<Rightarrow> bool"
  assumes step_inv: "inv s \<Longrightarrow> ok x \<Longrightarrow> step s x = Inr s' \<Longrightarrow> inv s'"
begin

lemma loop_inv: "inv s \<Longrightarrow> (\<And>x. x \<in> set xs \<Longrightarrow> ok x) \<Longrightarrow> try_fold step s xs = Inr t \<Longrightarrow> inv t"
proof (induction xs arbitrary: s)
  case Nil
  then show ?case by simp
next
  case (Cons x xs)
  from Cons.prems(3) obtain s' where s': "step s x = Inr s'" "try_fold step s' xs = Inr t"
    by (auto split: sum.splits)
  from Cons.prems(1,2) s'(1) have "inv s'" by (auto intro: step_inv)
  then show ?case using Cons.prems(2) s'(2) by (auto intro: Cons.IH)
qed

end

text \<open>
  The contract of a loop over a state with a measurable total (a supply of money, a number
  of buffered items): every successful step adds what its element issues and removes what
  it destroys, so the loop adds and removes the sums.
\<close>

locale metered_loop =
  fixes step :: "'s \<Rightarrow> 'x \<Rightarrow> ('e, 's) result"
    and total :: "'s \<Rightarrow> nat"
    and gain loss :: "'x \<Rightarrow> nat"
  assumes step_total: "step s x = Inr s' \<Longrightarrow> total s' + loss x = total s + gain x"
begin

lemma loop_total:
  "try_fold step s xs = Inr t \<Longrightarrow>
     total t + sum_list (map loss xs) = total s + sum_list (map gain xs)"
proof (induction xs arbitrary: s)
  case Nil
  then show ?case by simp
next
  case (Cons x xs)
  from Cons.prems obtain s' where s': "step s x = Inr s'" "try_fold step s' xs = Inr t"
    by (auto split: sum.splits)
  from step_total [OF s'(1)] Cons.IH [OF s'(2)] show ?case by simp
qed

lemma loop_total_le:
  "try_fold step s xs = Inr t \<Longrightarrow> total t \<le> total s + sum_list (map gain xs)"
  using loop_total [of s xs t] by linarith

end

section \<open>Maps with a default\<close>

text \<open>\<^verbatim>\<open>map.get(k).copied().unwrap_or(d)\<close>\<close>

definition get_or :: "'v \<Rightarrow> ('k \<rightharpoonup> 'v) \<Rightarrow> 'k \<Rightarrow> 'v" where
  "get_or d m k = (case m k of None \<Rightarrow> d | Some v \<Rightarrow> v)"

lemma get_or_simps [simp]:
  "get_or d Map.empty k = d"
  "get_or d (m(k \<mapsto> v)) k' = (if k' = k then v else get_or d m k')"
  "get_or d (m(k := None)) k' = (if k' = k then d else get_or d m k')"
  by (simp_all add: get_or_def)

text \<open>The sum of a map of unsigned values over all keys of a finite key type.\<close>

definition map_total :: "('k::finite \<rightharpoonup> 'a::len word) \<Rightarrow> nat" where
  "map_total m = (\<Sum>k\<in>UNIV. unat (get_or 0 m k))"

lemma map_total_empty [simp]: "map_total Map.empty = 0"
  by (simp add: map_total_def)

lemma map_total_upd [supply_simps]:
  "map_total (m(k \<mapsto> v)) + unat (get_or 0 m k) = map_total m + unat v"
proof -
  let ?f = "\<lambda>j. unat (get_or 0 m j)"
  have "map_total (m(k \<mapsto> v)) = unat v + (\<Sum>j\<in>UNIV - {k}. ?f j)"
    unfolding map_total_def by (subst sum.remove [of UNIV k]) (auto intro!: sum.cong)
  moreover have "map_total m = ?f k + (\<Sum>j\<in>UNIV - {k}. ?f j)"
    unfolding map_total_def by (rule sum.remove) auto
  ultimately show ?thesis by simp
qed

lemma get_or_le_map_total: "unat (get_or 0 m k) \<le> map_total m"
  unfolding map_total_def by (rule member_le_sum) auto

section \<open>Bytes of integers\<close>

text \<open>\<^verbatim>\<open>to_le_bytes\<close>, \<^verbatim>\<open>to_be_bytes\<close> and \<^verbatim>\<open>from_be_bytes\<close>.\<close>

definition le_bytes :: "nat \<Rightarrow> 'a::len word \<Rightarrow> u8 list" where
  "le_bytes n w = map (\<lambda>i. ucast (drop_bit (8 * i) w)) [0..<n]"

definition be_bytes :: "nat \<Rightarrow> 'a::len word \<Rightarrow> u8 list" where
  "be_bytes n w = rev (le_bytes n w)"

definition be_nat :: "u8 list \<Rightarrow> nat" where
  "be_nat bs = foldl (\<lambda>acc b. acc * 256 + unat b) 0 bs"

definition from_be_bytes :: "u8 list \<Rightarrow> 'a::len word" where
  "from_be_bytes bs = of_nat (be_nat bs)"

abbreviation u64_le :: "u64 \<Rightarrow> u8 list" where
  "u64_le \<equiv> le_bytes 8"

lemma length_le_bytes [simp]: "length (le_bytes n w) = n"
  by (simp add: le_bytes_def)

lemma length_be_bytes [simp]: "length (be_bytes n w) = n"
  by (simp add: be_bytes_def)

lemma le_bytes_nth: "i < n \<Longrightarrow> le_bytes n w ! i = ucast (drop_bit (8 * i) w)"
  by (simp add: le_bytes_def)

lemma bit_le_bytes: "i < n \<Longrightarrow> j < 8 \<Longrightarrow> bit (le_bytes n w ! i) j = bit w (8 * i + j)"
  by (simp add: le_bytes_nth bit_simps)

lemma le_bytes_inj: "le_bytes n v = le_bytes n w \<Longrightarrow> LENGTH('a) \<le> 8 * n \<Longrightarrow> v = w"
  for v w :: "'a::len word"
proof (rule bit_word_eqI)
  fix m assume eq: "le_bytes n v = le_bytes n w" and len: "LENGTH('a) \<le> 8 * n"
    and m: "m < LENGTH('a)"
  have i: "m div 8 < n" using m len by (simp add: less_mult_imp_div_less)
  have "bit v (8 * (m div 8) + m mod 8) = bit w (8 * (m div 8) + m mod 8)"
    using bit_le_bytes [OF i, of "m mod 8" v] bit_le_bytes [OF i, of "m mod 8" w] eq by simp
  then show "bit v m = bit w m" by simp
qed

lemma u64_le_inject [simp]: "u64_le v = u64_le w \<longleftrightarrow> v = w"
  by (auto dest: le_bytes_inj)

lemma be_nat_Nil [simp]: "be_nat [] = 0"
  by (simp add: be_nat_def)

lemma be_nat_snoc [simp]: "be_nat (bs @ [b]) = be_nat bs * 256 + unat b"
  by (simp add: be_nat_def)

lemma be_nat_append: "be_nat (as @ bs) = be_nat as * 256 ^ length bs + be_nat bs"
proof (induction bs rule: rev_induct)
  case Nil
  then show ?case by simp
next
  case (snoc b bs)
  have "be_nat (as @ bs @ [b]) = be_nat (as @ bs) * 256 + unat b"
    by (metis append_assoc be_nat_snoc)
  with snoc.IH show ?case by (simp add: algebra_simps)
qed

lemma be_nat_Cons: "be_nat (b # bs) = unat b * 256 ^ length bs + be_nat bs"
  using be_nat_append [of "[b]" bs] be_nat_snoc [of "[]" b] by simp

lemma be_nat_less: "be_nat bs < 256 ^ length bs"
proof (induction bs rule: rev_induct)
  case Nil
  then show ?case by simp
next
  case (snoc b bs)
  have "unat b < 256" using unsigned_less [of b] by simp
  with snoc.IH have "be_nat bs * 256 + unat b < (be_nat bs + 1) * 256" by simp
  also have "\<dots> \<le> 256 ^ length bs * 256" using snoc.IH by (intro mult_right_mono) auto
  finally show ?case by (simp add: mult.commute)
qed

text \<open>The value of the last \<open>n\<close> bytes of a word's big-endian form.\<close>

lemma be_bytes_Suc: "be_bytes (Suc n) w = ucast (drop_bit (8 * n) w) # be_bytes n w"
  by (simp add: be_bytes_def le_bytes_def)

lemma be_nat_be_bytes: "be_nat (be_bytes n w) = unat w mod 256 ^ n"
proof (induction n)
  case 0
  then show ?case by (simp add: be_bytes_def le_bytes_def)
next
  case (Suc n)
  have "unat (ucast (drop_bit (8 * n) w) :: u8) = (unat w div 256 ^ n) mod 256"
    by (simp add: unat_drop_bit_eq unsigned_ucast_eq drop_bit_eq_div [where ?'a = nat]
        take_bit_eq_mod power_mult)
  moreover have "unat w mod 256 ^ Suc n =
      256 ^ n * (unat w div 256 ^ n mod 256) + unat w mod 256 ^ n"
    by (simp only: power_Suc2 mod_mult2_eq)
  ultimately show ?case using Suc.IH by (simp add: be_bytes_Suc be_nat_Cons)
qed

lemma from_be_bytes_be_bytes [simp]:
  "LENGTH('a) = 8 * n \<Longrightarrow> from_be_bytes (be_bytes n w) = w" for w :: "'a::len word"
proof -
  assume len: "LENGTH('a) = 8 * n"
  then have "(256::nat) ^ n = 2 ^ LENGTH('a)" by (simp add: power_mult)
  then have "be_nat (be_bytes n w) = unat w"
    using unsigned_less [of w] by (simp add: be_nat_be_bytes)
  then show ?thesis by (simp add: from_be_bytes_def)
qed

lemma unat_from_be_bytes:
  "8 * length bs \<le> LENGTH('a) \<Longrightarrow> unat (from_be_bytes bs :: 'a::len word) = be_nat bs"
proof -
  assume len: "8 * length bs \<le> LENGTH('a)"
  have "(256::nat) ^ length bs = 2 ^ (8 * length bs)" by (simp add: power_mult)
  also have "\<dots> \<le> 2 ^ LENGTH('a)" using len by simp
  finally have "be_nat bs < 2 ^ LENGTH('a)" using be_nat_less [of bs] by linarith
  then show ?thesis by (simp add: from_be_bytes_def unat_of_nat)
qed

section \<open>Lists\<close>

lemma concat_map_eq_imp:
  assumes "concat (map f xs) = concat (map f ys)" "length xs = length ys"
    "\<And>x y. length (f x) = length (f y)" "\<And>x y. f x = f y \<Longrightarrow> x = y"
  shows "xs = ys"
  using assms(2,1)
proof (induction xs ys rule: list_induct2)
  case Nil
  then show ?case by simp
next
  case (Cons x xs y ys)
  from Cons.prems have "f x @ concat (map f xs) = f y @ concat (map f ys)" by simp
  then have "f x = f y \<and> concat (map f xs) = concat (map f ys)"
    using assms(3) [of x y] by simp
  with Cons.IH assms(4) show ?case by auto
qed

lemma length_concat_map_const:
  "(\<And>x. length (f x) = n) \<Longrightarrow> length (concat (map f xs)) = n * length xs"
  by (induction xs) auto

end
