(* ===== verification/Bytes32.thy ===== *)
theory Bytes32
  imports Prelude "HOL-Library.List_Lexorder"
begin

text \<open>
  The type \<^verbatim>\<open>[u8; 32]\<close> of hashes, addresses and difficulty targets, with the derived
  lexicographic order of Rust arrays.  The type is finite, which is what bounds every graph
  traversal and every sum over addresses in the development.  The order is the numeric
  order of the big-endian reading, which is what makes a proof-of-work comparison of hash
  bytes a comparison of numbers.
\<close>

typedef bytes32 = "{bs :: u8 list. length bs = 32}"
  morphisms bytes_of Bytes32
  by (rule exI [of _ "replicate 32 0"]) simp

lemma Bytes32_bytes_of [code abstype]: "Bytes32 (bytes_of a) = a"
  by (rule bytes_of_inverse)

type_synonym block_hash = bytes32
type_synonym address = bytes32

text \<open>\<^verbatim>\<open>[b; 32]\<close>\<close>

definition fill :: "u8 \<Rightarrow> bytes32" where
  "fill b = Bytes32 (replicate 32 b)"

text \<open>A 16-byte big-endian prefix followed by sixteen \<^verbatim>\<open>0xff\<close> bytes.\<close>

definition with_high16 :: "u128 \<Rightarrow> bytes32" where
  "with_high16 v = Bytes32 (be_bytes 16 v @ replicate 16 255)"

definition high16 :: "bytes32 \<Rightarrow> u128" where
  "high16 t = from_be_bytes (take 16 (bytes_of t))"

instantiation bytes32 :: equal
begin

definition equal_bytes32 :: "bytes32 \<Rightarrow> bytes32 \<Rightarrow> bool" where
  "equal_bytes32 a b \<longleftrightarrow> bytes_of a = bytes_of b"

instance
  by standard (simp add: equal_bytes32_def bytes_of_inject)

end

instantiation bytes32 :: linorder
begin

definition less_eq_bytes32 :: "bytes32 \<Rightarrow> bytes32 \<Rightarrow> bool" where
  "a \<le> b \<longleftrightarrow> bytes_of a \<le> bytes_of b"

definition less_bytes32 :: "bytes32 \<Rightarrow> bytes32 \<Rightarrow> bool" where
  "a < b \<longleftrightarrow> bytes_of a < bytes_of b"

instance
  by standard (auto simp: less_eq_bytes32_def less_bytes32_def less_le bytes_of_inject)

end

instance bytes32 :: finite
proof
  have "finite {bs :: u8 list. set bs \<subseteq> UNIV \<and> length bs = 32}"
    by (rule finite_lists_length_eq) simp
  then have "finite (range bytes_of)"
    by (rule finite_subset [rotated]) (use bytes_of in auto)
  moreover have "inj bytes_of"
    by (simp add: inj_on_def bytes_of_inject)
  ultimately show "finite (UNIV :: bytes32 set)"
    by (rule finite_imageD)
qed

lemma length_bytes_of [simp]: "length (bytes_of a) = 32"
  using bytes_of [of a] by simp

lemma bytes_of_eq_iff [simp]: "bytes_of a = bytes_of b \<longleftrightarrow> a = b"
  by (rule bytes_of_inject)

lemma bytes_of_fill [simp, code abstract]: "bytes_of (fill b) = replicate 32 b"
  by (simp add: fill_def Bytes32_inverse)

lemma bytes_of_with_high16 [simp, code abstract]:
  "bytes_of (with_high16 v) = be_bytes 16 v @ replicate 16 255"
  by (simp add: with_high16_def Bytes32_inverse)

lemma fill_eq_iff [simp]: "fill a = fill b \<longleftrightarrow> a = b"
proof
  assume "fill a = fill b"
  then have "replicate 32 a = replicate 32 b" by (metis bytes_of_fill)
  then show "a = b" by (simp add: replicate_eq_replicate)
qed simp

lemma replicate_less_iff: "replicate n a < replicate n b \<longleftrightarrow> 0 < n \<and> a < b"
  for a b :: "'a::linorder"
  by (induction n) auto

lemma replicate_le_iff: "replicate n a \<le> replicate n b \<longleftrightarrow> n = 0 \<or> a \<le> b"
  for a b :: "'a::linorder"
  by (induction n) auto

lemma fill_less_iff [simp]: "fill a < fill b \<longleftrightarrow> a < b"
  by (simp add: less_bytes32_def replicate_less_iff)

lemma fill_le_iff [simp]: "fill a \<le> fill b \<longleftrightarrow> a \<le> b"
  by (simp add: less_eq_bytes32_def replicate_le_iff)

section \<open>The order is the order of big-endian numbers\<close>

lemma be_nat_less_iff:
  "length as = length bs \<Longrightarrow> be_nat as < be_nat bs \<longleftrightarrow> as < bs"
proof (induction as bs rule: list_induct2)
  case Nil
  then show ?case by simp
next
  case (Cons a as b bs)
  let ?B = "256 ^ length bs :: nat"
  have lt: "be_nat as < ?B" "be_nat bs < ?B"
    using be_nat_less [of as] be_nat_less [of bs] Cons.hyps by simp_all
  consider "a < b" | "a = b" | "b < a" by fastforce
  then show ?case
  proof cases
    case 1
    then have "Suc (unat a) \<le> unat b" by (simp add: word_less_nat_alt)
    then have "(unat a + 1) * ?B \<le> unat b * ?B" by (intro mult_right_mono) auto
    with lt 1 Cons.hyps show ?thesis by (simp add: be_nat_Cons)
  next
    case 2
    with Cons show ?thesis by (simp add: be_nat_Cons)
  next
    case 3
    then have "Suc (unat b) \<le> unat a" by (simp add: word_less_nat_alt)
    then have "(unat b + 1) * ?B \<le> unat a * ?B" by (intro mult_right_mono) auto
    with lt 3 Cons.hyps show ?thesis by (auto simp: be_nat_Cons)
  qed
qed

lemma bytes32_less_be_nat: "a < b \<longleftrightarrow> be_nat (bytes_of a) < be_nat (bytes_of b)"
  by (simp add: less_bytes32_def be_nat_less_iff)

lemma bytes32_le_be_nat: "a \<le> b \<longleftrightarrow> be_nat (bytes_of a) \<le> be_nat (bytes_of b)"
  by (simp add: bytes32_less_be_nat flip: not_less)

lemma unat_high16: "unat (high16 t) = be_nat (take 16 (bytes_of t))"
  by (simp add: high16_def unat_from_be_bytes)

lemma high16_with_high16 [simp]: "high16 (with_high16 v) = v"
  by (simp add: high16_def)

lemma be_nat_replicate_max: "be_nat (replicate n 255) + 1 = 256 ^ n"
  by (induction n) (simp_all add: be_nat_Cons)

lemma bytes32_le_fill_max: "t \<le> fill 255"
proof -
  have "be_nat (bytes_of t) < 256 ^ 32"
    using be_nat_less [of "bytes_of t"] by simp
  then show ?thesis
    using be_nat_replicate_max [of 32] by (simp add: bytes32_le_be_nat)
qed

end
