(* ===== verification/Emission.thy ===== *)
theory Emission
  imports Bytes32
begin

text \<open>
  The emission schedule of \<^verbatim>\<open>vdag-consensus/src/lib.rs\<close>: the protocol constants, the block
  subsidy with its halvings and its 95/5 split, and the split of the flat transaction fee.
  The schedule is compared with the abstract one, \<open>emission_at\<close>, and summed over any set
  of heights, which gives the supply cap.
\<close>

definition INITIAL_BLOCK_REWARD :: u64 where
  "INITIAL_BLOCK_REWARD = 83238"

definition DEV_TAX_PERCENTAGE :: u64 where
  "DEV_TAX_PERCENTAGE = 5"

definition BLOCKS_PER_ERA :: u64 where
  "BLOCKS_PER_ERA = 126144000"

definition DEV_TREASURY_ADDRESS :: address where
  "DEV_TREASURY_ADDRESS = fill 0xdd"

definition TRANSACTION_FEE :: u64 where
  "TRANSACTION_FEE = 100"

definition apply_dev_tax_split :: "u64 \<Rightarrow> u64 \<times> u64" where
  "apply_dev_tax_split a =
     (let dev_share = (a * DEV_TAX_PERCENTAGE) div 100;
          miner_share = a - dev_share
      in (miner_share, dev_share))"

definition calculate_subsidy_split :: "u64 \<Rightarrow> u64 \<times> u64" where
  "calculate_subsidy_split h =
     (let era = h div BLOCKS_PER_ERA
      in if era \<ge> 64 then (0, 0)
         else let total_subsidy = drop_bit (unat era) INITIAL_BLOCK_REWARD
              in if total_subsidy = 0 then (0, 0)
                 else apply_dev_tax_split total_subsidy)"

definition fee_distribution :: "u64 \<times> u64 \<times> u64" where
  "fee_distribution =
     (let burn_share = TRANSACTION_FEE div 2;
          distributed_share = TRANSACTION_FEE - burn_share;
          (miner_share, dev_share) = apply_dev_tax_split distributed_share
      in (miner_share, dev_share, burn_share))"

lemmas emission_consts = INITIAL_BLOCK_REWARD_def DEV_TAX_PERCENTAGE_def BLOCKS_PER_ERA_def
  TRANSACTION_FEE_def

section \<open>The abstract schedule\<close>

text \<open>What a block of height \<open>h\<close> issues, as a natural number.\<close>

definition emission_at :: "nat \<Rightarrow> nat" where
  "emission_at h = 83238 div 2 ^ (h div 126144000)"

text \<open>What the split of a height adds to the ledger, miner and treasury together.\<close>

definition subsidy_total :: "u64 \<Rightarrow> nat" where
  "subsidy_total h = (case calculate_subsidy_split h of (m, d) \<Rightarrow> unat m + unat d)"

lemma apply_dev_tax_split_exact:
  assumes "unat a * 5 < 2 ^ 64"
  shows "unat (snd (apply_dev_tax_split a)) = unat a * 5 div 100"
    and "unat (fst (apply_dev_tax_split a)) + unat (snd (apply_dev_tax_split a)) = unat a"
proof -
  let ?d = "(a * 5) div 100 :: u64"
  have d: "unat ?d = unat a * 5 div 100"
    using assms by (simp add: unat_div unat_word_ariths)
  then have "?d \<le> a" by (simp add: word_le_nat_alt)
  then have "unat (a - ?d) = unat a - unat ?d" by (simp add: unat_sub)
  with d show "unat (snd (apply_dev_tax_split a)) = unat a * 5 div 100"
    and "unat (fst (apply_dev_tax_split a)) + unat (snd (apply_dev_tax_split a)) = unat a"
    by (simp_all add: apply_dev_tax_split_def Let_def DEV_TAX_PERCENTAGE_def)
qed

lemma unat_era: "unat (h div BLOCKS_PER_ERA) = unat h div 126144000"
  by (simp add: BLOCKS_PER_ERA_def unat_div)

lemma div_pow2_eq_0: "n < 2 ^ k \<Longrightarrow> n div 2 ^ k = (0::nat)"
  by simp

lemma small_reward_zero: "17 \<le> k \<Longrightarrow> 83238 div 2 ^ k = (0::nat)"
proof (rule div_pow2_eq_0)
  assume "17 \<le> k"
  then have "(2::nat) ^ 17 \<le> 2 ^ k" by (rule power_increasing) simp
  then show "83238 < (2::nat) ^ k" by simp
qed

lemma emission_at_zero: "17 * 126144000 \<le> h \<Longrightarrow> emission_at h = 0"
  unfolding emission_at_def by (rule small_reward_zero) linarith

lemma emission_at_le: "emission_at h \<le> 83238"
  by (simp add: emission_at_def)

lemma emission_at_antimono: "h \<le> h' \<Longrightarrow> emission_at h' \<le> emission_at h"
  unfolding emission_at_def
  by (intro div_le_mono2 power_increasing div_le_mono) simp_all

text \<open>
  The code's split, on every branch: below era 64 the shift is the division by the power of
  two; the guard on the era and the guard on a zero reward agree with it.
\<close>

lemma calculate_subsidy_split_parts:
  "unat (snd (calculate_subsidy_split h)) = emission_at (unat h) * 5 div 100 \<and>
   unat (fst (calculate_subsidy_split h)) + unat (snd (calculate_subsidy_split h)) =
     emission_at (unat h)"
proof -
  let ?era = "h div BLOCKS_PER_ERA"
  have era: "unat ?era = unat h div 126144000" by (rule unat_era)
  show ?thesis
  proof (cases "?era \<ge> 64")
    case True
    then have "64 \<le> unat h div 126144000" by (simp add: word_le_nat_alt flip: era)
    then have "emission_at (unat h) = 0"
      unfolding emission_at_def by (intro small_reward_zero) linarith
    with True show ?thesis by (simp add: calculate_subsidy_split_def Let_def)
  next
    case False
    let ?t = "drop_bit (unat ?era) INITIAL_BLOCK_REWARD"
    have t: "unat ?t = emission_at (unat h)"
      by (simp add: unat_drop_bit_eq era emission_at_def drop_bit_eq_div [where ?'a = nat]
          INITIAL_BLOCK_REWARD_def)
    show ?thesis
    proof (cases "?t = 0")
      case True
      with False t show ?thesis by (simp add: calculate_subsidy_split_def Let_def)
    next
      case nz: False
      have "unat ?t * 5 < 2 ^ 64" using emission_at_le [of "unat h"] by (simp add: t)
      note split = apply_dev_tax_split_exact [OF this]
      have eq: "calculate_subsidy_split h = apply_dev_tax_split ?t"
        using False nz by (simp add: calculate_subsidy_split_def Let_def)
      show ?thesis using split by (simp only: eq t)
    qed
  qed
qed

lemma subsidy_total_eq: "subsidy_total h = emission_at (unat h)"
  using calculate_subsidy_split_parts [of h] by (simp add: subsidy_total_def split_beta)

lemma subsidy_total_le: "subsidy_total h \<le> 83238"
  by (simp add: subsidy_total_eq emission_at_le)

lemma fee_distribution_eq: "fee_distribution = (48, 2, 50)"
  by (simp add: fee_distribution_def Let_def apply_dev_tax_split_def emission_consts)

section \<open>Sums over heights\<close>

lemma emission_at_block: "j < 126144000 \<Longrightarrow> emission_at (e * 126144000 + j) = 83238 div 2 ^ e"
  by (simp add: emission_at_def)

lemma sum_era: "(\<Sum>h\<in>{e * 126144000..<e * 126144000 + 126144000}. emission_at h)
    = 126144000 * (83238 div 2 ^ e)"
proof -
  have "emission_at h = 83238 div 2 ^ e"
    if "h \<in> {e * 126144000..<e * 126144000 + 126144000}" for h
    using emission_at_block [of "h - e * 126144000" e] that by auto
  then show ?thesis by simp
qed

lemma sum_eras: "(\<Sum>h\<in>{..<n * 126144000}. emission_at h) =
    126144000 * (\<Sum>e\<in>{..<n}. 83238 div 2 ^ e)"
proof -
  have "(\<Sum>h\<in>{..<n * 126144000}. emission_at h) =
      (\<Sum>e\<in>{..<n}. \<Sum>h\<in>{e * 126144000..<e * 126144000 + 126144000}. emission_at h)"
    by (rule sum.nat_group [symmetric])
  then show ?thesis by (simp add: sum_era sum_distrib_left)
qed

lemma sum_rewards_17: "(\<Sum>e\<in>{..<17}. 83238 div 2 ^ e) = (166469::nat)"
  by (simp add: lessThan_nat_numeral)

text \<open>Whole emission: 20999065536000 base units, below the cap of 21 million tokens.\<close>

definition TOTAL_EMISSION :: nat where
  "TOTAL_EMISSION = 20999065536000"

lemma sum_emission_all: "(\<Sum>h\<in>{..<17 * 126144000}. emission_at h) = TOTAL_EMISSION"
  unfolding sum_eras sum_rewards_17 TOTAL_EMISSION_def by simp

lemma sum_emission_le: "finite H \<Longrightarrow> (\<Sum>h\<in>H. emission_at h) \<le> TOTAL_EMISSION"
proof -
  assume fin: "finite H"
  let ?N = "{..<17 * 126144000} :: nat set"
  have "emission_at h = 0" if "h \<in> H - H \<inter> ?N" for h
    using that by (intro emission_at_zero) auto
  then have "(\<Sum>h\<in>H. emission_at h) = (\<Sum>h\<in>H \<inter> ?N. emission_at h)"
    using fin by (intro sum.mono_neutral_right) auto
  also have "\<dots> \<le> (\<Sum>h\<in>?N. emission_at h)"
    by (rule sum_mono2) auto
  finally show ?thesis by (simp only: sum_emission_all)
qed

lemma sum_list_subsidy_le:
  "distinct hs \<Longrightarrow> (\<Sum>h\<leftarrow>hs. subsidy_total h) \<le> TOTAL_EMISSION"
proof -
  assume d: "distinct hs"
  have "(\<Sum>h\<leftarrow>hs. subsidy_total h) = (\<Sum>h\<in>set hs. emission_at (unat h))"
    using d by (simp add: sum_list_distinct_conv_sum_set subsidy_total_eq)
  also have "\<dots> = (\<Sum>n\<in>unat ` set hs. emission_at n)"
    by (subst sum.reindex) (auto simp: inj_on_def word_unat_eq_iff)
  also have "\<dots> \<le> TOTAL_EMISSION" by (rule sum_emission_le) simp
  finally show ?thesis .
qed

end
