(* ===== verification/Block.thy ===== *)
theory Block
  imports Emission
begin

text \<open>
  Blocks and transactions of \<^verbatim>\<open>vdag-consensus/src/lib.rs\<close>: the record types, the bytes that
  are hashed, transaction and block identities, the Merkle commitment, the coinbase check and
  the fixed genesis blocks.

  SHA3-256 is a third-party crate: it is the argument \<open>sha\<close> of every definition that hashes.
  A chain of \<^verbatim>\<open>hasher.update\<close> calls hashes the concatenation of the pieces.
\<close>

record block_header =
  timestamp :: u64
  parents :: "block_hash list"
  tx_merkle_root :: bytes32
  nonce :: u64
  height :: u64
  difficulty_target :: bytes32

record transaction =
  sender :: address
  recipient :: address
  amount :: u64
  tx_nonce :: u64
  public_key :: "u8 list"
  signature :: "u8 list"

record velo_block =
  header :: block_header
  transactions :: "transaction list"
  coinbase_miner_address :: address
  coinbase_miner_output :: u64
  coinbase_dev_address :: address
  coinbase_dev_output :: u64

type_synonym digest = "u8 list \<Rightarrow> bytes32"

abbreviation block_height :: "velo_block \<Rightarrow> u64" where
  "block_height b \<equiv> height (header b)"

abbreviation block_parents :: "velo_block \<Rightarrow> block_hash list" where
  "block_parents b \<equiv> parents (header b)"

section \<open>Identities\<close>

definition transaction_payload :: "transaction \<Rightarrow> u8 list" where
  "transaction_payload tx =
     bytes_of (sender tx) @ bytes_of (recipient tx) @ u64_le (amount tx) @ u64_le (tx_nonce tx)"

definition tx_preimage :: "transaction \<Rightarrow> u8 list" where
  "tx_preimage tx = transaction_payload tx @ public_key tx @ signature tx"

definition transaction_id :: "digest \<Rightarrow> transaction \<Rightarrow> bytes32" where
  "transaction_id sha tx = sha (tx_preimage tx)"

definition block_preimage :: "velo_block \<Rightarrow> u8 list" where
  "block_preimage b =
     u64_le (timestamp (header b)) @ u64_le (height (header b)) @
     concat (map bytes_of (parents (header b))) @
     bytes_of (tx_merkle_root (header b)) @ u64_le (nonce (header b)) @
     bytes_of (difficulty_target (header b)) @
     bytes_of (coinbase_miner_address b) @ bytes_of (coinbase_dev_address b)"

definition calculate_hash :: "digest \<Rightarrow> velo_block \<Rightarrow> block_hash" where
  "calculate_hash sha b = sha (block_preimage b)"

section \<open>The Merkle commitment\<close>

text \<open>
  One round of the \<^verbatim>\<open>while\<close> loop: \<^verbatim>\<open>chunks(2)\<close>, a lone last element paired with itself.
\<close>

fun merkle_next :: "digest \<Rightarrow> bytes32 list \<Rightarrow> bytes32 list" where
  "merkle_next sha [] = []"
| "merkle_next sha [x] = [sha (bytes_of x @ bytes_of x)]"
| "merkle_next sha (x # y # rest) = sha (bytes_of x @ bytes_of y) # merkle_next sha rest"

lemma length_merkle_next: "length (merkle_next sha layer) = (length layer + 1) div 2"
  by (induction sha layer rule: merkle_next.induct) auto

function merkle_reduce :: "digest \<Rightarrow> bytes32 list \<Rightarrow> bytes32 list" where
  "merkle_reduce sha layer =
     (if length layer > 1 then merkle_reduce sha (merkle_next sha layer) else layer)"
  by pat_completeness auto
termination
  by (relation "measure (\<lambda>(sha, layer). length layer)") (auto simp: length_merkle_next)

declare merkle_reduce.simps [simp del]

definition transaction_merkle_root :: "digest \<Rightarrow> transaction list \<Rightarrow> bytes32" where
  "transaction_merkle_root sha txs =
     (if txs = [] then fill 0 else hd (merkle_reduce sha (map (transaction_id sha) txs)))"

definition verify_transaction_merkle_root :: "digest \<Rightarrow> velo_block \<Rightarrow> bool" where
  "verify_transaction_merkle_root sha b \<longleftrightarrow>
     tx_merkle_root (header b) = transaction_merkle_root sha (transactions b)"

section \<open>Coinbase and genesis\<close>

definition verify_coinbase_rewards :: "velo_block \<Rightarrow> bool" where
  "verify_coinbase_rewards b =
     (case calculate_subsidy_split (height (header b)) of (expected_miner, expected_dev) \<Rightarrow>
        coinbase_miner_output b = expected_miner \<and> coinbase_dev_output b = expected_dev)"

definition DEVNET_NETWORK_ID :: u64 where
  "DEVNET_NETWORK_ID = 1"

definition TESTNET_NETWORK_ID :: u64 where
  "TESTNET_NETWORK_ID = 2"

definition MAINNET_NETWORK_ID :: u64 where
  "MAINNET_NETWORK_ID = 3"

definition ACTIVE_NETWORK_ID :: u64 where
  "ACTIVE_NETWORK_ID = DEVNET_NETWORK_ID"

definition DEVNET_GENESIS_TIMESTAMP :: u64 where
  "DEVNET_GENESIS_TIMESTAMP = 1700000000"

definition TESTNET_GENESIS_TIMESTAMP :: u64 where
  "TESTNET_GENESIS_TIMESTAMP = 1700000001"

definition MAINNET_GENESIS_TIMESTAMP :: u64 where
  "MAINNET_GENESIS_TIMESTAMP = 1700000002"

lemmas network_consts = DEVNET_NETWORK_ID_def TESTNET_NETWORK_ID_def MAINNET_NETWORK_ID_def
  DEVNET_GENESIS_TIMESTAMP_def TESTNET_GENESIS_TIMESTAMP_def MAINNET_GENESIS_TIMESTAMP_def

definition genesis_timestamp_for_network :: "u64 \<Rightarrow> u64 option" where
  "genesis_timestamp_for_network network_id =
     (if network_id = DEVNET_NETWORK_ID then Some DEVNET_GENESIS_TIMESTAMP
      else if network_id = TESTNET_NETWORK_ID then Some TESTNET_GENESIS_TIMESTAMP
      else if network_id = MAINNET_NETWORK_ID then Some MAINNET_GENESIS_TIMESTAMP
      else None)"

definition fixed_genesis_block_for_network :: "u64 \<Rightarrow> velo_block" where
  "fixed_genesis_block_for_network network_id =
     \<lparr>header =
        \<lparr>timestamp = (case genesis_timestamp_for_network network_id of
             None \<Rightarrow> DEVNET_GENESIS_TIMESTAMP | Some t \<Rightarrow> t),
         parents = [], tx_merkle_root = fill 0, nonce = 0, height = 0,
         difficulty_target = fill 0x0f\<rparr>,
      transactions = [],
      coinbase_miner_address = fill 0, coinbase_miner_output = 0,
      coinbase_dev_address = DEV_TREASURY_ADDRESS, coinbase_dev_output = 0\<rparr>"

definition fixed_genesis_hash_for_network :: "digest \<Rightarrow> u64 \<Rightarrow> block_hash" where
  "fixed_genesis_hash_for_network sha network_id =
     calculate_hash sha (fixed_genesis_block_for_network network_id)"

definition fixed_genesis_block :: velo_block where
  "fixed_genesis_block = fixed_genesis_block_for_network ACTIVE_NETWORK_ID"

definition fixed_genesis_hash :: "digest \<Rightarrow> block_hash" where
  "fixed_genesis_hash sha = calculate_hash sha fixed_genesis_block"

section \<open>The encodings are injective\<close>

lemma transaction_payload_length [simp]: "length (transaction_payload tx) = 80"
  by (simp add: transaction_payload_def)

lemma transaction_payload_inject:
  "transaction_payload t = transaction_payload t' \<longleftrightarrow>
     sender t = sender t' \<and> recipient t = recipient t' \<and> amount t = amount t' \<and>
     tx_nonce t = tx_nonce t'"
  by (auto simp: transaction_payload_def)

lemma tx_preimage_inject:
  assumes "tx_preimage t = tx_preimage t'" and "length (public_key t) = length (public_key t')"
  shows "t = t'"
  using assms
  by (cases t; cases t') (simp add: tx_preimage_def transaction_payload_inject)

lemma block_preimage_length: "length (block_preimage b) = 152 + 32 * length (block_parents b)"
  by (simp add: block_preimage_def length_concat_map_const [where n = 32])

lemma block_preimage_inject:
  assumes eq: "block_preimage b = block_preimage b'"
  shows "header b = header b' \<and> coinbase_miner_address b = coinbase_miner_address b' \<and>
    coinbase_dev_address b = coinbase_dev_address b'"
proof -
  have len: "length (block_parents b) = length (block_parents b')"
    using arg_cong [OF eq, of length] by (simp add: block_preimage_length)
  then have "length (concat (map bytes_of (block_parents b))) =
      length (concat (map bytes_of (block_parents b')))"
    by (simp add: length_concat_map_const [where n = 32])
  then have fields: "timestamp (header b) = timestamp (header b')"
      "height (header b) = height (header b')"
      "concat (map bytes_of (block_parents b)) = concat (map bytes_of (block_parents b'))"
      "tx_merkle_root (header b) = tx_merkle_root (header b')"
      "nonce (header b) = nonce (header b')"
      "difficulty_target (header b) = difficulty_target (header b')"
      "coinbase_miner_address b = coinbase_miner_address b'"
      "coinbase_dev_address b = coinbase_dev_address b'"
    using eq by (simp_all add: block_preimage_def)
  have "block_parents b = block_parents b'"
    by (rule concat_map_eq_imp [OF fields(3) len]) auto
  with fields show ?thesis by (cases "header b"; cases "header b'") simp
qed

section \<open>Merkle binding\<close>

text \<open>The 64-byte strings that a Merkle computation hashes.\<close>

fun pair_inputs :: "bytes32 list \<Rightarrow> u8 list list" where
  "pair_inputs [] = []"
| "pair_inputs [x] = [bytes_of x @ bytes_of x]"
| "pair_inputs (x # y # rest) = (bytes_of x @ bytes_of y) # pair_inputs rest"

lemma merkle_next_eq_map: "merkle_next sha layer = map sha (pair_inputs layer)"
  by (induction sha layer rule: merkle_next.induct) auto

function merkle_inputs :: "digest \<Rightarrow> bytes32 list \<Rightarrow> u8 list list" where
  "merkle_inputs sha layer =
     (if length layer > 1 then pair_inputs layer @ merkle_inputs sha (merkle_next sha layer)
      else [])"
  by pat_completeness auto
termination
  by (relation "measure (\<lambda>(sha, layer). length layer)") (auto simp: length_merkle_next)

declare merkle_inputs.simps [simp del]

lemma pair_inputs_inj:
  "pair_inputs xs = pair_inputs ys \<Longrightarrow> length xs = length ys \<Longrightarrow> xs = ys"
proof (induction xs arbitrary: ys rule: pair_inputs.induct)
  case 1
  then show ?case by simp
next
  case (2 x)
  then obtain y where "ys = [y]" by (cases ys) auto
  with 2 show ?case by simp
next
  case (3 x y rest)
  then obtain x' y' rest' where ys: "ys = x' # y' # rest'"
    by (metis length_Suc_conv)
  with 3 show ?case by auto
qed

lemma length_merkle_reduce: "layer \<noteq> [] \<Longrightarrow> length (merkle_reduce sha layer) = 1"
proof (induction sha layer rule: merkle_reduce.induct)
  case (1 sha layer)
  show ?case
  proof (cases "length layer > 1")
    case True
    then have "merkle_next sha layer \<noteq> []"
      by (simp add: length_merkle_next flip: length_greater_0_conv)
    with 1 True show ?thesis by (simp add: merkle_reduce.simps [of sha layer])
  next
    case False
    with "1.prems" have "length layer = 1" by (cases layer) auto
    then show ?thesis by (simp add: merkle_reduce.simps [of sha layer])
  qed
qed

lemma merkle_reduce_binding:
  "merkle_reduce sha xs = merkle_reduce sha ys \<Longrightarrow> length xs = length ys \<Longrightarrow>
     inj_on sha (set (merkle_inputs sha xs) \<union> set (merkle_inputs sha ys)) \<Longrightarrow> xs = ys"
proof (induction sha xs arbitrary: ys rule: merkle_reduce.induct)
  case (1 sha xs)
  show ?case
  proof (cases "length xs > 1")
    case False
    with 1 show ?thesis by (simp add: merkle_reduce.simps [of sha xs] merkle_reduce.simps [of sha ys])
  next
    case True
    let ?xs = "merkle_next sha xs" and ?ys = "merkle_next sha ys"
    have ylen: "length ys > 1" using True "1.prems"(2) by simp
    note ins = merkle_inputs.simps [of sha xs] merkle_inputs.simps [of sha ys]
    have "?xs = ?ys"
    proof (rule "1.IH" [OF True])
      show "merkle_reduce sha ?xs = merkle_reduce sha ?ys"
        using "1.prems"(1) True ylen
        by (simp add: merkle_reduce.simps [of sha xs] merkle_reduce.simps [of sha ys])
      show "length ?xs = length ?ys" by (simp add: length_merkle_next "1.prems"(2))
      show "inj_on sha (set (merkle_inputs sha ?xs) \<union> set (merkle_inputs sha ?ys))"
        by (rule inj_on_subset [OF "1.prems"(3)]) (use True ylen in \<open>auto simp: ins\<close>)
    qed
    moreover have "inj_on sha (set (pair_inputs xs) \<union> set (pair_inputs ys))"
      by (rule inj_on_subset [OF "1.prems"(3)]) (use True ylen in \<open>auto simp: ins\<close>)
    ultimately have "pair_inputs xs = pair_inputs ys"
      unfolding merkle_next_eq_map by (rule map_inj_on)
    then show ?thesis using "1.prems"(2) by (rule pair_inputs_inj)
  qed
qed

lemma merkle_root_binding:
  assumes root: "transaction_merkle_root sha ts = transaction_merkle_root sha ts'"
    and len: "length ts = length ts'"
    and pk: "\<And>t. t \<in> set ts \<union> set ts' \<Longrightarrow> length (public_key t) = n"
    and inner: "inj_on sha (set (merkle_inputs sha (map (transaction_id sha) ts)) \<union>
      set (merkle_inputs sha (map (transaction_id sha) ts')))"
    and leaves: "inj_on sha (tx_preimage ` (set ts \<union> set ts'))"
  shows "ts = ts'"
proof (cases "ts = []")
  case True
  with len show ?thesis by simp
next
  case False
  let ?ids = "map (transaction_id sha) ts" and ?ids' = "map (transaction_id sha) ts'"
  from False len have ne: "ts' \<noteq> []" by auto
  have one: "length (merkle_reduce sha ?ids) = 1" "length (merkle_reduce sha ?ids') = 1"
    using False ne by (simp_all add: length_merkle_reduce)
  have "hd (merkle_reduce sha ?ids) = hd (merkle_reduce sha ?ids')"
    using root False ne by (simp add: transaction_merkle_root_def)
  with one have "merkle_reduce sha ?ids = merkle_reduce sha ?ids'"
    by (auto simp: length_Suc_conv)
  from merkle_reduce_binding [OF this _ inner] len have "?ids = ?ids'" by simp
  moreover have "inj_on (transaction_id sha) (set ts \<union> set ts')"
  proof (rule inj_onI)
    fix t t' assume t: "t \<in> set ts \<union> set ts'" "t' \<in> set ts \<union> set ts'"
      and "transaction_id sha t = transaction_id sha t'"
    then have "tx_preimage t = tx_preimage t'"
      using leaves by (auto simp: transaction_id_def dest: inj_onD)
    then show "t = t'" using t by (auto intro: tx_preimage_inject simp: pk)
  qed
  ultimately show ?thesis by (rule map_inj_on)
qed

section \<open>A repeated last leaf is invisible\<close>

lemma merkle_next_dup_last:
  "odd (length layer) \<Longrightarrow> merkle_next sha (layer @ [last layer]) = merkle_next sha layer"
  by (induction sha layer rule: merkle_next.induct) auto

lemma merkle_reduce_dup_last:
  assumes "odd (length layer)" and "1 < length layer"
  shows "merkle_reduce sha (layer @ [last layer]) = merkle_reduce sha layer"
proof -
  have "layer \<noteq> []" using assms by auto
  with assms show ?thesis
    by (simp add: merkle_reduce.simps [of sha "layer @ [last layer]"]
        merkle_reduce.simps [of sha layer] merkle_next_dup_last)
qed

lemma merkle_root_dup_last:
  assumes "odd (length ts)" and "1 < length ts"
  shows "transaction_merkle_root sha (ts @ [last ts]) = transaction_merkle_root sha ts"
proof -
  let ?ids = "map (transaction_id sha) ts"
  have "ts \<noteq> []" using assms by auto
  then have "map (transaction_id sha) (ts @ [last ts]) = ?ids @ [last ?ids]"
    by (simp add: last_map)
  then show ?thesis
    using assms \<open>ts \<noteq> []\<close>
    by (simp add: transaction_merkle_root_def merkle_reduce_dup_last)
qed

section \<open>Genesis\<close>

lemma genesis_preimages_distinct:
  assumes "block_preimage (fixed_genesis_block_for_network i) =
      block_preimage (fixed_genesis_block_for_network j)"
    and "i \<in> {DEVNET_NETWORK_ID, TESTNET_NETWORK_ID, MAINNET_NETWORK_ID}"
    and "j \<in> {DEVNET_NETWORK_ID, TESTNET_NETWORK_ID, MAINNET_NETWORK_ID}"
  shows "i = j"
  using block_preimage_inject [OF assms(1)] assms(2,3)
  by (auto simp: fixed_genesis_block_for_network_def genesis_timestamp_for_network_def
      network_consts)

lemma genesis_unknown_is_devnet:
  "genesis_timestamp_for_network i = None \<Longrightarrow>
     fixed_genesis_hash_for_network sha i = fixed_genesis_hash_for_network sha DEVNET_NETWORK_ID"
  by (simp add: fixed_genesis_hash_for_network_def fixed_genesis_block_for_network_def
      genesis_timestamp_for_network_def network_consts split: if_splits)

end
