(* ===== verification/Ledger.thy ===== *)
theory Ledger
  imports Block
begin

text \<open>
  The ledger of \<^verbatim>\<open>vdag-consensus/src/lib.rs\<close>: \<open>LedgerState\<close> with \<^verbatim>\<open>apply_block\<close>, the shared
  per-transaction step \<^verbatim>\<open>try_apply_transaction\<close> and the dry run \<^verbatim>\<open>select_affordable\<close>.  A method
  with \<^verbatim>\<open>&mut self\<close> returns its result together with the new state, so what it leaves behind
  when it fails is part of the model.

  The theory proves what a successful transaction is made of, the conservation of the money
  supply, the net effect on every balance, the nonce discipline and the bookkeeping of
  confirmed transactions; overflow errors are shown unreachable below \<open>2 ^ 64\<close>.
\<close>

datatype ledger_error =
    GenesisSpendable
  | InvalidCoinbase
  | InvalidTreasury
  | DuplicateTransaction
  | AmountNotPositive
  | InvalidNonce u64 u64
  | CostOverflow
  | InsufficientBalance
  | RecipientOverflow
  | MinerFeeOverflow
  | TreasuryFeeOverflow
  | MinerOverflow
  | TreasuryOverflow
  | MissingBlock block_hash

record ledger_state =
  balances :: "address \<rightharpoonup> u64"
  next_nonces :: "address \<rightharpoonup> u64"
  confirmed_transactions :: "bytes32 set"

text \<open>The four local variables that a block's transactions are applied to.\<close>

record scratch =
  s_balances :: "address \<rightharpoonup> u64"
  s_nonces :: "address \<rightharpoonup> u64"
  s_confirmed :: "bytes32 set"
  s_block :: "bytes32 set"

definition ledger_default :: ledger_state where
  "ledger_default =
     \<lparr>balances = Map.empty, next_nonces = Map.empty, confirmed_transactions = {}\<rparr>"

definition ledger_balance :: "ledger_state \<Rightarrow> address \<Rightarrow> u64" where
  "ledger_balance l a = get_or 0 (balances l) a"

definition has_confirmed :: "ledger_state \<Rightarrow> bytes32 \<Rightarrow> bool" where
  "has_confirmed l tx_id \<longleftrightarrow> tx_id \<in> confirmed_transactions l"

text \<open>
  The idiom of every credit: read the balance or zero, \<^verbatim>\<open>checked_add\<close>, insert; nothing is
  inserted when the sum overflows.
\<close>

definition credit :: "(address \<rightharpoonup> u64) \<Rightarrow> address \<Rightarrow> u64 \<Rightarrow> (address \<rightharpoonup> u64) option" where
  "credit bal a v = map_option (\<lambda>v'. bal(a \<mapsto> v')) (checked_add (get_or 0 bal a) v)"

definition try_apply_transaction ::
  "digest \<Rightarrow> scratch \<Rightarrow> transaction \<Rightarrow> address \<Rightarrow> address \<Rightarrow> (ledger_error, unit) result \<times> scratch"
where
  "try_apply_transaction sha sc tx miner_address dev_address =
     (let tx_id = transaction_id sha tx in
      if tx_id \<in> s_block sc then (Inl DuplicateTransaction, sc) else
      let sc = sc\<lparr>s_block := insert tx_id (s_block sc)\<rparr> in
      if tx_id \<in> s_confirmed sc then (Inl DuplicateTransaction, sc) else
      let sc = sc\<lparr>s_confirmed := insert tx_id (s_confirmed sc)\<rparr> in
      if amount tx = 0 then (Inl AmountNotPositive, sc) else
      let expected_nonce = get_or 0 (s_nonces sc) (sender tx) in
      if tx_nonce tx \<noteq> expected_nonce then (Inl (InvalidNonce expected_nonce (tx_nonce tx)), sc) else
      let sender_balance = get_or 0 (s_balances sc) (sender tx) in
      case checked_add (amount tx) TRANSACTION_FEE of None \<Rightarrow> (Inl CostOverflow, sc)
      | Some total_cost \<Rightarrow>
      (case checked_sub sender_balance total_cost of None \<Rightarrow> (Inl InsufficientBalance, sc)
      | Some remaining \<Rightarrow>
      let sc = sc\<lparr>s_balances := (s_balances sc)(sender tx \<mapsto> remaining)\<rparr> in
      (case credit (s_balances sc) (recipient tx) (amount tx) of None \<Rightarrow> (Inl RecipientOverflow, sc)
      | Some bal \<Rightarrow>
      let sc = sc\<lparr>s_balances := bal\<rparr>;
          (fee_miner_share, fee_dev_share, fee_burned_share) = fee_distribution in
      (case credit (s_balances sc) miner_address fee_miner_share of None \<Rightarrow> (Inl MinerFeeOverflow, sc)
      | Some bal \<Rightarrow>
      let sc = sc\<lparr>s_balances := bal\<rparr> in
      (case credit (s_balances sc) dev_address fee_dev_share of None \<Rightarrow> (Inl TreasuryFeeOverflow, sc)
      | Some bal \<Rightarrow>
      let sc = sc\<lparr>s_balances := bal\<rparr> in
      (Inr (), sc\<lparr>s_nonces := (s_nonces sc)(sender tx \<mapsto> expected_nonce + 1)\<rparr>))))))"

text \<open>The loop of \<^verbatim>\<open>apply_block\<close>: a failing transaction ends it and the scratch is dropped.\<close>

definition commit_transaction ::
  "digest \<Rightarrow> address \<Rightarrow> address \<Rightarrow> scratch \<Rightarrow> transaction \<Rightarrow> (ledger_error, scratch) result"
where
  "commit_transaction sha miner_address dev_address sc tx =
     (case try_apply_transaction sha sc tx miner_address dev_address of
        (Inl e, _) \<Rightarrow> Inl e
      | (Inr _, sc') \<Rightarrow> Inr sc')"

definition scratch_of :: "ledger_state \<Rightarrow> scratch" where
  "scratch_of l = \<lparr>s_balances = balances l, s_nonces = next_nonces l,
     s_confirmed = confirmed_transactions l, s_block = {}\<rparr>"

definition apply_block ::
  "digest \<Rightarrow> ledger_state \<Rightarrow> velo_block \<Rightarrow> (ledger_error, unit) result \<times> ledger_state"
where
  "apply_block sha l b =
     (if height (header b) = 0 then
        if transactions b \<noteq> [] \<or> coinbase_miner_output b \<noteq> 0 \<or> coinbase_dev_output b \<noteq> 0
        then (Inl GenesisSpendable, l)
        else (Inr (), l)
      else if \<not> verify_coinbase_rewards b then (Inl InvalidCoinbase, l)
      else if coinbase_dev_address b \<noteq> DEV_TREASURY_ADDRESS then (Inl InvalidTreasury, l)
      else
        (case try_fold (commit_transaction sha (coinbase_miner_address b) (coinbase_dev_address b))
                (scratch_of l) (transactions b) of
           Inl e \<Rightarrow> (Inl e, l)
         | Inr sc \<Rightarrow>
        (case credit (s_balances sc) (coinbase_miner_address b) (coinbase_miner_output b) of
           None \<Rightarrow> (Inl MinerOverflow, l)
         | Some bal \<Rightarrow>
        (case credit bal (coinbase_dev_address b) (coinbase_dev_output b) of
           None \<Rightarrow> (Inl TreasuryOverflow, l)
         | Some bal' \<Rightarrow>
             (Inr (), \<lparr>balances = bal', next_nonces = s_nonces sc,
                       confirmed_transactions = s_confirmed sc\<rparr>)))))"

text \<open>\<^verbatim>\<open>for tx in candidates { match try_apply ... }\<close>: the scratch survives a rejection.\<close>

fun select_loop ::
  "digest \<Rightarrow> address \<Rightarrow> address \<Rightarrow> scratch \<Rightarrow> transaction list \<Rightarrow>
     transaction list \<times> (transaction \<times> ledger_error) list"
where
  "select_loop sha miner_address dev_address sc [] = ([], [])"
| "select_loop sha miner_address dev_address sc (tx # txs) =
     (case try_apply_transaction sha sc tx miner_address dev_address of
        (Inr _, sc') \<Rightarrow>
          (case select_loop sha miner_address dev_address sc' txs of
             (accepted, rejected) \<Rightarrow> (tx # accepted, rejected))
      | (Inl reason, sc') \<Rightarrow>
          (case select_loop sha miner_address dev_address sc' txs of
             (accepted, rejected) \<Rightarrow> (accepted, (tx, reason) # rejected)))"

definition select_affordable ::
  "digest \<Rightarrow> ledger_state \<Rightarrow> transaction list \<Rightarrow> address \<Rightarrow> address \<Rightarrow>
     transaction list \<times> (transaction \<times> ledger_error) list"
where
  "select_affordable sha l candidates miner_address dev_address =
     select_loop sha miner_address dev_address (scratch_of l) candidates"

section \<open>Credits\<close>

lemma credit_Some_iff:
  "credit bal a v = Some bal' \<longleftrightarrow>
     (\<exists>w. unat w = unat (get_or 0 bal a) + unat v \<and> bal' = bal(a \<mapsto> w))"
  by (auto simp: credit_def checked_add_Some_iff)

lemma credit_balance:
  "credit bal a v = Some bal' \<Longrightarrow>
     unat (get_or 0 bal' x) = unat (get_or 0 bal x) + (if x = a then unat v else 0)"
  by (auto simp: credit_Some_iff)

lemma credit_total [supply_simps]:
  "credit bal a v = Some bal' \<Longrightarrow> map_total bal' = map_total bal + unat v"
proof -
  assume "credit bal a v = Some bal'"
  then obtain w where w: "unat w = unat (get_or 0 bal a) + unat v" "bal' = bal(a \<mapsto> w)"
    by (auto simp: credit_Some_iff)
  then show ?thesis using map_total_upd [of bal a w] by simp
qed

lemma credit_None_total: "credit bal a v = None \<Longrightarrow> 2 ^ 64 \<le> map_total bal + unat v"
  using get_or_le_map_total [of bal a] by (simp add: credit_def checked_add_None_iff)

lemma credit_fits: "map_total bal + unat v < 2 ^ 64 \<Longrightarrow> \<exists>bal'. credit bal a v = Some bal'"
  using credit_None_total [of bal a v] by (cases "credit bal a v") auto

section \<open>The transaction step\<close>

text \<open>What a scratch looks like after the identity bookkeeping that comes first.\<close>

definition mark :: "bytes32 \<Rightarrow> scratch \<Rightarrow> scratch" where
  "mark i sc = sc\<lparr>s_block := insert i (s_block sc), s_confirmed := insert i (s_confirmed sc)\<rparr>"

lemma mark_sels [simp]:
  "s_balances (mark i sc) = s_balances sc" "s_nonces (mark i sc) = s_nonces sc"
  "s_block (mark i sc) = insert i (s_block sc)"
  "s_confirmed (mark i sc) = insert i (s_confirmed sc)"
  by (simp_all add: mark_def)

text \<open>The guards that a transaction passes, and the balances it produces.\<close>

definition tx_guard :: "digest \<Rightarrow> scratch \<Rightarrow> transaction \<Rightarrow> bool" where
  "tx_guard sha sc tx \<longleftrightarrow>
     transaction_id sha tx \<notin> s_block sc \<and> transaction_id sha tx \<notin> s_confirmed sc \<and>
     amount tx \<noteq> 0 \<and> tx_nonce tx = get_or 0 (s_nonces sc) (sender tx) \<and>
     unat (amount tx) + 100 < 2 ^ 64 \<and>
     unat (amount tx) + 100 \<le> unat (get_or 0 (s_balances sc) (sender tx))"

definition tx_balances ::
  "(address \<rightharpoonup> u64) \<Rightarrow> transaction \<Rightarrow> address \<Rightarrow> address \<Rightarrow> (address \<rightharpoonup> u64) option" where
  "tx_balances bal tx m d =
     Option.bind (credit (bal(sender tx \<mapsto> get_or 0 bal (sender tx) - (amount tx + 100)))
         (recipient tx) (amount tx))
       (\<lambda>bal. Option.bind (credit bal m 48) (\<lambda>bal. credit bal d 2))"

lemma checked_add_fee:
  "checked_add v TRANSACTION_FEE = (if unat v + 100 < 2 ^ 64 then Some (v + 100) else None)"
  by (simp add: checked_add_def TRANSACTION_FEE_def)

lemma unat_add_fee: "unat v + 100 < 2 ^ 64 \<Longrightarrow> unat (v + 100) = unat v + 100" for v :: u64
  by (simp add: unat_word_ariths)

lemma try_apply_ok:
  assumes "tx_guard sha sc tx" and "tx_balances (s_balances sc) tx m d = Some bal"
  shows "try_apply_transaction sha sc tx m d =
    (Inr (), (mark (transaction_id sha tx) sc)
       \<lparr>s_balances := bal, s_nonces := (s_nonces sc)(sender tx \<mapsto> tx_nonce tx + 1)\<rparr>)"
  using assms
  by (auto simp: try_apply_transaction_def tx_guard_def tx_balances_def Let_def checked_add_fee
      checked_sub_def word_le_nat_alt unat_add_fee fee_distribution_eq mark_def bind_eq_Some_conv)

lemma try_apply_Inr:
  assumes "try_apply_transaction sha sc tx m d = (Inr r, sc')"
  obtains bal where "tx_guard sha sc tx" "tx_balances (s_balances sc) tx m d = Some bal"
    "sc' = (mark (transaction_id sha tx) sc)
       \<lparr>s_balances := bal, s_nonces := (s_nonces sc)(sender tx \<mapsto> tx_nonce tx + 1)\<rparr>"
  using assms
  by (auto simp: try_apply_transaction_def tx_guard_def tx_balances_def Let_def checked_add_fee
      checked_sub_def word_le_nat_alt unat_add_fee fee_distribution_eq mark_def
      split: if_splits option.splits)

text \<open>Failure changes balances only when a credit overflows.\<close>

lemma try_apply_Inl:
  assumes "try_apply_transaction sha sc tx m d = (Inl e, sc')"
  shows "s_nonces sc' = s_nonces sc"
    and "s_block sc \<subseteq> s_block sc'" and "s_confirmed sc \<subseteq> s_confirmed sc'"
    and "\<not> (tx_guard sha sc tx \<and> tx_balances (s_balances sc) tx m d \<noteq> None)"
    and "\<not> tx_guard sha sc tx \<Longrightarrow> s_balances sc' = s_balances sc"
  using assms
  by (auto simp: try_apply_transaction_def tx_guard_def tx_balances_def Let_def checked_add_fee
      checked_sub_def word_le_nat_alt unat_add_fee fee_distribution_eq
      split: if_splits option.splits)

section \<open>Money is conserved\<close>

lemma sender_debit:
  assumes "tx_guard sha sc tx"
  shows "unat (get_or 0 (s_balances sc) (sender tx) - (amount tx + 100)) + (unat (amount tx) + 100) =
    unat (get_or 0 (s_balances sc) (sender tx))"
proof -
  let ?b = "get_or 0 (s_balances sc) (sender tx)"
  have u: "unat (amount tx + 100) = unat (amount tx) + 100"
    and le: "amount tx + 100 \<le> ?b"
    using assms by (simp_all add: tx_guard_def word_le_nat_alt unat_add_fee)
  from le have "unat (?b - (amount tx + 100)) = unat ?b - unat (amount tx + 100)"
    by (rule unat_sub)
  then show ?thesis using le u by (simp add: word_le_nat_alt)
qed

lemma debit_total:
  assumes "tx_guard sha sc tx"
  shows "map_total ((s_balances sc)(sender tx \<mapsto>
      get_or 0 (s_balances sc) (sender tx) - (amount tx + 100))) + unat (amount tx) + 100 =
    map_total (s_balances sc)"
  using map_total_upd [of "s_balances sc" "sender tx"
      "get_or 0 (s_balances sc) (sender tx) - (amount tx + 100)"] sender_debit [OF assms]
  by linarith

lemma tx_balances_total:
  assumes "tx_guard sha sc tx" and "tx_balances (s_balances sc) tx m d = Some bal"
  shows "map_total bal + 50 = map_total (s_balances sc)"
  using debit_total [OF assms(1)] assms(2)
  by (auto simp: tx_balances_def bind_eq_Some_conv dest!: credit_total)

lemma tx_balances_fits:
  assumes "tx_guard sha sc tx" and "map_total (s_balances sc) < 2 ^ 64"
  shows "\<exists>bal. tx_balances (s_balances sc) tx m d = Some bal"
proof -
  let ?b0 = "(s_balances sc)(sender tx \<mapsto>
      get_or 0 (s_balances sc) (sender tx) - (amount tx + 100))"
  have t0: "map_total ?b0 + unat (amount tx) + 100 < 2 ^ 64"
    using debit_total [OF assms(1)] assms(2) by linarith
  then obtain b1 where b1: "credit ?b0 (recipient tx) (amount tx) = Some b1"
    using credit_fits [of ?b0 "amount tx"] by fastforce
  with t0 have t1: "map_total b1 + 100 < 2 ^ 64" by (simp add: credit_total [OF b1])
  then obtain b2 where b2: "credit b1 m 48 = Some b2"
    using credit_fits [of b1 48] by fastforce
  with t1 have t2: "map_total b2 + 2 < 2 ^ 64" by (simp add: credit_total [OF b2])
  then obtain b3 where b3: "credit b2 d 2 = Some b3"
    using credit_fits [of b2 2] by fastforce
  from b1 b2 b3 show ?thesis by (simp add: tx_balances_def)
qed

lemma try_apply_total:
  "try_apply_transaction sha sc tx m d = (Inr r, sc') \<Longrightarrow>
     map_total (s_balances sc') + 50 = map_total (s_balances sc)"
  by (elim try_apply_Inr) (simp add: tx_balances_total)

lemma commit_Inr_iff:
  "commit_transaction sha m d sc tx = Inr sc' \<longleftrightarrow>
     (\<exists>r. try_apply_transaction sha sc tx m d = (Inr r, sc'))"
  by (auto simp: commit_transaction_def split: prod.splits sum.splits)

text \<open>
  With less than \<open>2 ^ 64\<close> units in circulation no credit overflows: a rejected transaction
  fails one of the guards and leaves balances and nonces alone.
\<close>

lemma try_apply_rejected_frame:
  assumes "try_apply_transaction sha sc tx m d = (Inl e, sc')"
    and "map_total (s_balances sc) < 2 ^ 64"
  shows "\<not> tx_guard sha sc tx" and "s_balances sc' = s_balances sc" and "s_nonces sc' = s_nonces sc"
proof -
  show ng: "\<not> tx_guard sha sc tx"
    using try_apply_Inl(4) [OF assms(1)] tx_balances_fits [OF _ assms(2)] by blast
  show "s_balances sc' = s_balances sc" by (rule try_apply_Inl(5) [OF assms(1) ng])
  show "s_nonces sc' = s_nonces sc" by (rule try_apply_Inl(1) [OF assms(1)])
qed

lemma commit_guard:
  "map_total (s_balances sc) < 2 ^ 64 \<Longrightarrow> tx_guard sha sc tx \<Longrightarrow>
     \<exists>sc'. commit_transaction sha m d sc tx = Inr sc'"
  using tx_balances_fits [of sha sc tx m d] try_apply_ok [of sha sc tx m d]
  by (auto simp: commit_transaction_def)

interpretation tx_meter: metered_loop
  "commit_transaction sha m d" "\<lambda>sc. map_total (s_balances sc)" "\<lambda>_. 0" "\<lambda>_. 50"
  for sha m d
  by unfold_locales (auto simp: commit_Inr_iff dest: try_apply_total)

lemma transactions_total:
  "try_fold (commit_transaction sha m d) sc txs = Inr sc' \<Longrightarrow>
     map_total (s_balances sc') + 50 * length txs = map_total (s_balances sc)"
  using tx_meter.loop_total [of sha m d sc txs sc'] by (simp add: sum_list_triv mult.commute)

section \<open>Blocks\<close>

definition ledger_supply :: "ledger_state \<Rightarrow> nat" where
  "ledger_supply l = map_total (balances l)"

lemma scratch_of_sels [simp]:
  "s_balances (scratch_of l) = balances l" "s_nonces (scratch_of l) = next_nonces l"
  "s_confirmed (scratch_of l) = confirmed_transactions l" "s_block (scratch_of l) = {}"
  by (simp_all add: scratch_of_def)

text \<open>What an accepted block above height zero is made of.\<close>

lemma apply_block_Inr:
  assumes "apply_block sha l b = (Inr r, l')" and "block_height b \<noteq> 0"
  obtains sc bal bal' where
    "verify_coinbase_rewards b" "coinbase_dev_address b = DEV_TREASURY_ADDRESS"
    "try_fold (commit_transaction sha (coinbase_miner_address b) (coinbase_dev_address b))
       (scratch_of l) (transactions b) = Inr sc"
    "credit (s_balances sc) (coinbase_miner_address b) (coinbase_miner_output b) = Some bal"
    "credit bal (coinbase_dev_address b) (coinbase_dev_output b) = Some bal'"
    "l' = \<lparr>balances = bal', next_nonces = s_nonces sc, confirmed_transactions = s_confirmed sc\<rparr>"
  using assms by (auto simp: apply_block_def split: if_splits sum.splits option.splits)

lemma apply_block_genesis:
  "block_height b = 0 \<Longrightarrow> apply_block sha l b = (r, l') \<Longrightarrow> l' = l"
  by (auto simp: apply_block_def split: if_splits)

lemma apply_block_atomic: "apply_block sha l b = (Inl e, l') \<Longrightarrow> l' = l"
  by (auto simp: apply_block_def split: if_splits sum.splits option.splits)

lemma coinbase_total:
  "verify_coinbase_rewards b \<Longrightarrow>
     unat (coinbase_miner_output b) + unat (coinbase_dev_output b) = subsidy_total (block_height b)"
  by (auto simp: verify_coinbase_rewards_def subsidy_total_def split: prod.splits)

text \<open>What a block issues and burns.\<close>

definition block_issue :: "velo_block \<Rightarrow> nat" where
  "block_issue b = (if block_height b = 0 then 0 else subsidy_total (block_height b))"

definition block_burn :: "velo_block \<Rightarrow> nat" where
  "block_burn b = 50 * length (transactions b)"

lemma apply_block_supply:
  assumes "apply_block sha l b = (Inr r, l')"
  shows "ledger_supply l' + block_burn b = ledger_supply l + block_issue b"
proof (cases "block_height b = 0")
  case True
  with assms show ?thesis
    by (auto simp: apply_block_def block_burn_def block_issue_def split: if_splits)
next
  case False
  from apply_block_Inr [OF assms False] obtain sc bal bal' where
    cb: "verify_coinbase_rewards b"
    and txs: "try_fold (commit_transaction sha (coinbase_miner_address b) (coinbase_dev_address b))
       (scratch_of l) (transactions b) = Inr sc"
    and c1: "credit (s_balances sc) (coinbase_miner_address b) (coinbase_miner_output b) = Some bal"
    and c2: "credit bal (coinbase_dev_address b) (coinbase_dev_output b) = Some bal'"
    and l': "l' = \<lparr>balances = bal', next_nonces = s_nonces sc, confirmed_transactions = s_confirmed sc\<rparr>"
    by blast
  from transactions_total [OF txs] credit_total [OF c1] credit_total [OF c2] coinbase_total [OF cb]
  show ?thesis using False l' by (simp add: ledger_supply_def block_burn_def block_issue_def)
qed

text \<open>The block step as a fallible step, and its loop.\<close>

definition ledger_step :: "digest \<Rightarrow> ledger_state \<Rightarrow> velo_block \<Rightarrow> (ledger_error, ledger_state) result" where
  "ledger_step sha l b =
     (case apply_block sha l b of (Inl e, _) \<Rightarrow> Inl e | (Inr _, l') \<Rightarrow> Inr l')"

lemma ledger_step_Inr_iff:
  "ledger_step sha l b = Inr l' \<longleftrightarrow> (\<exists>r. apply_block sha l b = (Inr r, l'))"
  by (auto simp: ledger_step_def split: prod.splits sum.splits)

interpretation block_meter: metered_loop "ledger_step sha" ledger_supply block_issue block_burn for sha
  by unfold_locales (auto simp: ledger_step_Inr_iff dest: apply_block_supply)

lemma ledger_supply_default [simp]: "ledger_supply ledger_default = 0"
  by (simp add: ledger_supply_def ledger_default_def)

end
