(* ===== verification/Ledger_Effects.thy ===== *)
theory Ledger_Effects
  imports Ledger "HOL-Library.Multiset"
begin

text \<open>
  What an accepted block does, stated over mathematical integers: its net effect on every
  balance, the nonces it consumes, the transaction ids it confirms; that a confirmed
  transaction can never be applied again; and that the dry run \<^verbatim>\<open>select_affordable\<close> picks
  exactly a batch that \<^verbatim>\<open>apply_block\<close> accepts.
\<close>

section \<open>Net effect on balances\<close>

definition tx_delta :: "address \<Rightarrow> address \<Rightarrow> transaction \<Rightarrow> address \<Rightarrow> int" where
  "tx_delta m d tx a =
     (if a = recipient tx then uint (amount tx) else 0)
     - (if a = sender tx then uint (amount tx) + 100 else 0)
     + (if a = m then 48 else 0) + (if a = d then 2 else 0)"

definition block_delta :: "velo_block \<Rightarrow> address \<Rightarrow> int" where
  "block_delta b a =
     (\<Sum>tx\<leftarrow>transactions b. tx_delta (coinbase_miner_address b) (coinbase_dev_address b) tx a)
     + (if a = coinbase_miner_address b then uint (coinbase_miner_output b) else 0)
     + (if a = coinbase_dev_address b then uint (coinbase_dev_output b) else 0)"

abbreviation balance_in :: "scratch \<Rightarrow> address \<Rightarrow> int" where
  "balance_in sc a \<equiv> uint (get_or 0 (s_balances sc) a)"

lemma credit_uint:
  "credit bal a v = Some bal' \<Longrightarrow>
     uint (get_or 0 bal' x) = uint (get_or 0 bal x) + (if x = a then uint v else 0)"
  using arg_cong [OF credit_balance [of bal a v bal' x], of int] by (simp split: if_splits)

lemma sender_debit_uint:
  "tx_guard sha sc tx \<Longrightarrow>
     uint (get_or 0 (s_balances sc) (sender tx) - (amount tx + 100)) =
     balance_in sc (sender tx) - (uint (amount tx) + 100)"
  using arg_cong [OF sender_debit [of sha sc tx], of int] by simp

lemma tx_balances_delta:
  assumes g: "tx_guard sha sc tx" and b: "tx_balances (s_balances sc) tx m d = Some bal"
  shows "uint (get_or 0 bal a) = balance_in sc a + tx_delta m d tx a"
proof -
  let ?b0 = "(s_balances sc)(sender tx \<mapsto>
      get_or 0 (s_balances sc) (sender tx) - (amount tx + 100))"
  from b obtain b1 b2 where c: "credit ?b0 (recipient tx) (amount tx) = Some b1"
      "credit b1 m 48 = Some b2" "credit b2 d 2 = Some bal"
    by (auto simp: tx_balances_def bind_eq_Some_conv)
  have "uint (get_or 0 ?b0 a) =
      balance_in sc a - (if a = sender tx then uint (amount tx) + 100 else 0)"
    using sender_debit_uint [OF g] by auto
  then show ?thesis
    using credit_uint [OF c(1), of a] credit_uint [OF c(2), of a] credit_uint [OF c(3), of a]
    by (simp add: tx_delta_def)
qed

lemma commit_delta:
  "commit_transaction sha m d sc tx = Inr sc' \<Longrightarrow> balance_in sc' a = balance_in sc a + tx_delta m d tx a"
  by (auto simp: commit_Inr_iff elim!: try_apply_Inr dest: tx_balances_delta)

lemma transactions_delta:
  "try_fold (commit_transaction sha m d) sc txs = Inr sc' \<Longrightarrow>
     balance_in sc' a = balance_in sc a + (\<Sum>tx\<leftarrow>txs. tx_delta m d tx a)"
proof (induction txs arbitrary: sc)
  case Nil
  then show ?case by simp
next
  case (Cons tx txs)
  then obtain s1 where "commit_transaction sha m d sc tx = Inr s1"
      "try_fold (commit_transaction sha m d) s1 txs = Inr sc'"
    by (auto simp only: try_fold_Cons_Inr)
  with Cons.IH [of s1] commit_delta [of sha m d sc tx s1 a] show ?case by simp
qed

lemma apply_block_delta:
  assumes "apply_block sha l b = (Inr r, l')" and "block_height b \<noteq> 0"
  shows "uint (ledger_balance l' a) = uint (ledger_balance l a) + block_delta b a"
proof -
  from apply_block_Inr [OF assms] obtain sc bal bal' where
    txs: "try_fold (commit_transaction sha (coinbase_miner_address b) (coinbase_dev_address b))
       (scratch_of l) (transactions b) = Inr sc"
    and c1: "credit (s_balances sc) (coinbase_miner_address b) (coinbase_miner_output b) = Some bal"
    and c2: "credit bal (coinbase_dev_address b) (coinbase_dev_output b) = Some bal'"
    and l': "l' = \<lparr>balances = bal', next_nonces = s_nonces sc, confirmed_transactions = s_confirmed sc\<rparr>"
    by blast
  show ?thesis
    using transactions_delta [OF txs, of a] credit_uint [OF c1, of a] credit_uint [OF c2, of a]
    by (simp add: l' ledger_balance_def block_delta_def)
qed

section \<open>Nonces\<close>

definition sent_by :: "address \<Rightarrow> transaction list \<Rightarrow> transaction list" where
  "sent_by a txs = filter (\<lambda>tx. sender tx = a) txs"

lemma sent_by_simps [simp]:
  "sent_by a [] = []"
  "sent_by a (tx # txs) = (if sender tx = a then tx # sent_by a txs else sent_by a txs)"
  by (simp_all add: sent_by_def)

lemma commit_nonces:
  assumes "commit_transaction sha m d sc tx = Inr sc'"
  shows "tx_nonce tx = get_or 0 (s_nonces sc) (sender tx)"
    and "s_nonces sc' = (s_nonces sc)(sender tx \<mapsto> tx_nonce tx + 1)"
  using assms by (auto simp: commit_Inr_iff tx_guard_def elim!: try_apply_Inr)

lemma transactions_nonces:
  "try_fold (commit_transaction sha m d) sc txs = Inr sc' \<Longrightarrow>
     map tx_nonce (sent_by a txs) =
       map (\<lambda>i. get_or 0 (s_nonces sc) a + of_nat i) [0..<length (sent_by a txs)] \<and>
     get_or 0 (s_nonces sc') a = get_or 0 (s_nonces sc) a + of_nat (length (sent_by a txs))"
proof (induction txs arbitrary: sc)
  case Nil
  then show ?case by simp
next
  case (Cons tx txs)
  then obtain s1 where s1: "commit_transaction sha m d sc tx = Inr s1"
      "try_fold (commit_transaction sha m d) s1 txs = Inr sc'"
    by (auto simp only: try_fold_Cons_Inr)
  note n = commit_nonces [OF s1(1)] and IH = Cons.IH [OF s1(2)]
  have g: "get_or 0 (s_nonces s1) a =
      (if a = sender tx then tx_nonce tx + 1 else get_or 0 (s_nonces sc) a)"
    by (simp add: n(2))
  show ?case
  proof (cases "sender tx = a")
    case True
    have "[0..<Suc (length (sent_by a txs))] = 0 # map Suc [0..<length (sent_by a txs)]"
      by (simp add: map_Suc_upt upt_conv_Cons del: upt_Suc)
    then show ?thesis using True n(1) g IH by (simp add: algebra_simps del: upt_Suc)
  next
    case False
    then show ?thesis using g IH by simp
  qed
qed

section \<open>Confirmed transactions\<close>

abbreviation tx_ids :: "digest \<Rightarrow> transaction list \<Rightarrow> bytes32 list" where
  "tx_ids sha txs \<equiv> map (transaction_id sha) txs"

lemma commit_ids:
  assumes "commit_transaction sha m d sc tx = Inr sc'"
  shows "transaction_id sha tx \<notin> s_confirmed sc" and "transaction_id sha tx \<notin> s_block sc"
    and "s_confirmed sc' = insert (transaction_id sha tx) (s_confirmed sc)"
    and "s_block sc' = insert (transaction_id sha tx) (s_block sc)"
  using assms by (auto simp: commit_Inr_iff tx_guard_def elim!: try_apply_Inr)

lemma transactions_ids:
  "try_fold (commit_transaction sha m d) sc txs = Inr sc' \<Longrightarrow>
     distinct (tx_ids sha txs) \<and> set (tx_ids sha txs) \<inter> s_confirmed sc = {} \<and>
     s_confirmed sc' = s_confirmed sc \<union> set (tx_ids sha txs)"
proof (induction txs arbitrary: sc)
  case Nil
  then show ?case by simp
next
  case (Cons tx txs)
  then obtain s1 where s1: "commit_transaction sha m d sc tx = Inr s1"
      "try_fold (commit_transaction sha m d) s1 txs = Inr sc'"
    by (auto simp only: try_fold_Cons_Inr)
  from commit_ids [OF s1(1)] Cons.IH [OF s1(2)] show ?case by auto
qed

lemma apply_block_confirmed:
  assumes "apply_block sha l b = (Inr r, l')"
  shows "distinct (tx_ids sha (transactions b))"
    and "set (tx_ids sha (transactions b)) \<inter> confirmed_transactions l = {}"
    and "confirmed_transactions l' = confirmed_transactions l \<union> set (tx_ids sha (transactions b))"
proof -
  have "distinct (tx_ids sha (transactions b)) \<and>
      set (tx_ids sha (transactions b)) \<inter> confirmed_transactions l = {} \<and>
      confirmed_transactions l' = confirmed_transactions l \<union> set (tx_ids sha (transactions b))"
  proof (cases "block_height b = 0")
    case True
    with assms show ?thesis by (auto simp: apply_block_def split: if_splits)
  next
    case False
    from apply_block_Inr [OF assms False] obtain sc bal' where
      "try_fold (commit_transaction sha (coinbase_miner_address b) (coinbase_dev_address b))
         (scratch_of l) (transactions b) = Inr sc"
      "l' = \<lparr>balances = bal', next_nonces = s_nonces sc, confirmed_transactions = s_confirmed sc\<rparr>"
      by blast
    then show ?thesis using transactions_ids [of sha _ _ "scratch_of l"] by fastforce
  qed
  then show "distinct (tx_ids sha (transactions b))"
    and "set (tx_ids sha (transactions b)) \<inter> confirmed_transactions l = {}"
    and "confirmed_transactions l' = confirmed_transactions l \<union> set (tx_ids sha (transactions b))"
    by blast+
qed

interpretation confirmed_loop: invariant_loop
  "ledger_step sha" "\<lambda>l. C \<subseteq> confirmed_transactions l" "\<lambda>_. True" for sha C
  by unfold_locales (auto simp: ledger_step_Inr_iff apply_block_confirmed)

lemma no_replay:
  assumes "apply_block sha l b = (Inr r, l1)" and "tx \<in> set (transactions b)"
    and "try_fold (ledger_step sha) l1 bs = Inr l2" and "tx \<in> set (transactions b')"
  shows "\<exists>e. apply_block sha l2 b' = (Inl e, l2)"
proof -
  let ?i = "transaction_id sha tx"
  have "{?i} \<subseteq> confirmed_transactions l1"
    using apply_block_confirmed(3) [OF assms(1)] assms(2) by auto
  from confirmed_loop.loop_inv [OF this _ assms(3)]
  have c: "?i \<in> confirmed_transactions l2" by auto
  obtain r' l3 where ap: "apply_block sha l2 b' = (r', l3)" by (cases "apply_block sha l2 b'")
  show ?thesis
  proof (cases r')
    case (Inl e)
    with ap apply_block_atomic show ?thesis by blast
  next
    case (Inr u)
    with ap apply_block_confirmed(2) [of sha l2 b' u l3] c assms(4) show ?thesis by auto
  qed
qed

section \<open>Below the word size no overflow error occurs\<close>

definition overflow_errors :: "ledger_error set" where
  "overflow_errors = {CostOverflow, RecipientOverflow, MinerFeeOverflow, TreasuryFeeOverflow,
     MinerOverflow, TreasuryOverflow}"

lemma commit_no_overflow:
  assumes "commit_transaction sha m d sc tx = Inl e" and "map_total (s_balances sc) < 2 ^ 64"
  shows "e \<in> overflow_errors \<Longrightarrow> e = CostOverflow \<and> 2 ^ 64 \<le> unat (amount tx) + 100"
proof -
  assume e: "e \<in> overflow_errors"
  from assms(1) obtain sc' where sc': "try_apply_transaction sha sc tx m d = (Inl e, sc')"
    by (auto simp: commit_transaction_def split: prod.splits sum.splits)
  from try_apply_rejected_frame(1) [OF sc' assms(2)] sc' e show ?thesis
    by (auto simp: try_apply_transaction_def tx_guard_def Let_def checked_add_fee overflow_errors_def
        checked_sub_def word_le_nat_alt unat_add_fee split: if_splits option.splits prod.splits)
qed

lemma coinbase_fits:
  assumes "verify_coinbase_rewards b" and "map_total bal + 83238 < 2 ^ 64"
  shows "\<exists>bal1 bal2. credit bal m (coinbase_miner_output b) = Some bal1 \<and>
    credit bal1 d (coinbase_dev_output b) = Some bal2"
proof -
  have s: "unat (coinbase_miner_output b) + unat (coinbase_dev_output b) \<le> 83238"
    using coinbase_total [OF assms(1)] subsidy_total_le by simp
  with assms(2) obtain bal1 where b1: "credit bal m (coinbase_miner_output b) = Some bal1"
    using credit_fits [of bal "coinbase_miner_output b" m] by fastforce
  with s assms(2) have "map_total bal1 + unat (coinbase_dev_output b) < 2 ^ 64"
    by (simp add: credit_total [OF b1])
  with b1 credit_fits show ?thesis by blast
qed

section \<open>The dry run\<close>

text \<open>
  The selection's scratch and the one \<^verbatim>\<open>apply_block\<close> will start from differ in the
  identities that rejected candidates left behind, never in balances or nonces.
\<close>

definition refines_scratch :: "scratch \<Rightarrow> scratch \<Rightarrow> bool" where
  "refines_scratch sc1 sc2 \<longleftrightarrow>
     s_balances sc1 = s_balances sc2 \<and> s_nonces sc1 = s_nonces sc2 \<and>
     s_confirmed sc2 \<subseteq> s_confirmed sc1 \<and> s_block sc2 \<subseteq> s_block sc1"

lemma refines_commit:
  assumes "refines_scratch sc1 sc2" and "try_apply_transaction sha sc1 tx m d = (Inr r, sc1')"
  shows "\<exists>sc2'. commit_transaction sha m d sc2 tx = Inr sc2' \<and> refines_scratch sc1' sc2'"
proof -
  from assms(2) obtain bal where g: "tx_guard sha sc1 tx"
    and b: "tx_balances (s_balances sc1) tx m d = Some bal"
    and sc1': "sc1' = (mark (transaction_id sha tx) sc1)
       \<lparr>s_balances := bal, s_nonces := (s_nonces sc1)(sender tx \<mapsto> tx_nonce tx + 1)\<rparr>"
    by (rule try_apply_Inr)
  from g assms(1) have "tx_guard sha sc2 tx"
    by (auto simp: tx_guard_def refines_scratch_def)
  moreover from b assms(1) have "tx_balances (s_balances sc2) tx m d = Some bal"
    by (simp add: refines_scratch_def)
  ultimately show ?thesis
    using try_apply_ok [of sha sc2 tx m d bal] assms(1)
    by (auto simp: commit_transaction_def sc1' refines_scratch_def)
qed

lemma refines_rejected:
  assumes "refines_scratch sc1 sc2" and "try_apply_transaction sha sc1 tx m d = (Inl e, sc1')"
    and "map_total (s_balances sc1) < 2 ^ 64"
  shows "refines_scratch sc1' sc2"
  using assms(1) try_apply_rejected_frame [OF assms(2,3)] try_apply_Inl(2,3) [OF assms(2)]
  by (auto simp: refines_scratch_def)

lemma select_loop_sound:
  "select_loop sha m d sc1 cands = (acc, rej) \<Longrightarrow> refines_scratch sc1 sc2 \<Longrightarrow>
     map_total (s_balances sc1) < 2 ^ 64 \<Longrightarrow>
     \<exists>sc2'. try_fold (commit_transaction sha m d) sc2 acc = Inr sc2'"
proof (induction cands arbitrary: sc1 sc2 acc rej)
  case Nil
  then show ?case by simp
next
  case (Cons tx cands)
  obtain r sc1' where ap: "try_apply_transaction sha sc1 tx m d = (r, sc1')"
    by (cases "try_apply_transaction sha sc1 tx m d")
  obtain acc' rej' where rec: "select_loop sha m d sc1' cands = (acc', rej')"
    by (cases "select_loop sha m d sc1' cands")
  show ?case
  proof (cases r)
    case (Inl e)
    with ap rec Cons.prems(1) have "acc = acc'" by simp
    moreover have "refines_scratch sc1' sc2" "map_total (s_balances sc1') < 2 ^ 64"
      using refines_rejected [OF Cons.prems(2)] try_apply_rejected_frame(2) ap Inl Cons.prems(3)
      by auto
    ultimately show ?thesis using Cons.IH [OF rec] by simp
  next
    case (Inr u)
    from refines_commit [OF Cons.prems(2)] ap Inr obtain sc2' where
      sc2': "commit_transaction sha m d sc2 tx = Inr sc2'" "refines_scratch sc1' sc2'" by blast
    have "map_total (s_balances sc1') < 2 ^ 64"
      using try_apply_total [of sha sc1 tx m d u sc1'] ap Inr Cons.prems(3) by simp
    from Cons.IH [OF rec sc2'(2) this] sc2'(1) ap rec Inr Cons.prems(1) show ?thesis by auto
  qed
qed

lemma select_loop_partition:
  "select_loop sha m d sc cands = (acc, rej) \<Longrightarrow> mset acc + mset (map fst rej) = mset cands"
proof (induction cands arbitrary: sc acc rej)
  case Nil
  then show ?case by simp
next
  case (Cons tx cands)
  then show ?case by (fastforce split: prod.splits sum.splits)
qed

lemma select_loop_complete:
  "try_fold (commit_transaction sha m d) sc cands = Inr sc' \<Longrightarrow>
     select_loop sha m d sc cands = (cands, [])"
proof (induction cands arbitrary: sc)
  case Nil
  then show ?case by simp
next
  case (Cons tx cands)
  then show ?case
    by (auto simp: try_fold_Cons_Inr commit_Inr_iff simp del: try_fold.simps)
qed

end
