(* ===== verification/Hash_Map.thy ===== *)
theory Hash_Map
  imports Prelude
begin

text \<open>
  \<^verbatim>\<open>std::collections::HashMap\<close> where the sources iterate over it.  A map that is only looked
  up and updated is a partial function elsewhere in the development; one whose \<^verbatim>\<open>keys()\<close> or
  \<^verbatim>\<open>values()\<close> are enumerated is the list of its entries in the enumeration order.  That order
  is not determined by the contents in Rust, and nothing here assumes one: every theorem
  about an enumerated map holds for every order.

  The interface \<open>map_interface\<close> lists what the clients rely on, and the association list
  provides it.
\<close>

locale map_interface =
  fixes get :: "'m \<Rightarrow> 'k \<Rightarrow> 'v option"
    and put :: "'k \<Rightarrow> 'v \<Rightarrow> 'm \<Rightarrow> 'm"
    and del :: "'k \<Rightarrow> 'm \<Rightarrow> 'm"
    and enum :: "'m \<Rightarrow> 'k list"
    and wf :: "'m \<Rightarrow> bool"
  assumes get_put: "get (put k v m) = (get m)(k \<mapsto> v)"
    and get_del: "get (del k m) = (get m)(k := None)"
    and set_enum: "set (enum m) = dom (get m)"
    and distinct_enum: "wf m \<Longrightarrow> distinct (enum m)"
    and wf_put: "wf m \<Longrightarrow> wf (put k v m)"
    and wf_del: "wf m \<Longrightarrow> wf (del k m)"
begin

lemma keys_put: "set (enum (put k v m)) = insert k (set (enum m))"
  by (simp add: set_enum get_put)

lemma keys_del: "set (enum (del k m)) = set (enum m) - {k}"
  by (simp add: set_enum get_del)

lemma size_put_fresh:
  "wf m \<Longrightarrow> get m k = None \<Longrightarrow> length (enum (put k v m)) = Suc (length (enum m))"
proof -
  assume wf: "wf m" and fresh: "get m k = None"
  have nin: "k \<notin> set (enum m)" using fresh by (simp add: set_enum domIff)
  have "length (enum (put k v m)) = card (insert k (set (enum m)))"
    by (metis distinct_card distinct_enum keys_put wf wf_put)
  then show ?thesis using distinct_enum [OF wf] nin by (simp add: distinct_card)
qed

text \<open>Two maps with the same contents enumerate the same keys, in whatever order.\<close>

lemma enum_mset_eq: "wf m \<Longrightarrow> wf m' \<Longrightarrow> get m = get m' \<Longrightarrow> length (enum m) = length (enum m')"
  by (metis distinct_card distinct_enum set_enum)

end

type_synonym ('k, 'v) entries = "('k \<times> 'v) list"

definition hm_get :: "('k, 'v) entries \<Rightarrow> 'k \<Rightarrow> 'v option" where
  "hm_get m k = map_of m k"

definition hm_insert :: "'k \<Rightarrow> 'v \<Rightarrow> ('k, 'v) entries \<Rightarrow> ('k, 'v) entries" where
  "hm_insert k v m = AList.update k v m"

definition hm_remove :: "'k \<Rightarrow> ('k, 'v) entries \<Rightarrow> ('k, 'v) entries" where
  "hm_remove k m = AList.delete k m"

definition hm_keys :: "('k, 'v) entries \<Rightarrow> 'k list" where
  "hm_keys m = map fst m"

definition hm_wf :: "('k, 'v) entries \<Rightarrow> bool" where
  "hm_wf m \<longleftrightarrow> distinct (map fst m)"

interpretation hm: map_interface hm_get hm_insert hm_remove hm_keys hm_wf
proof
  fix k :: 'a and v :: 'b and m :: "('a, 'b) entries"
  show "hm_get (hm_insert k v m) = (hm_get m)(k \<mapsto> v)"
    by (rule ext) (simp add: hm_get_def hm_insert_def update_conv)
  show "hm_get (hm_remove k m) = (hm_get m)(k := None)"
    by (rule ext) (simp add: hm_get_def hm_remove_def delete_conv)
  show "set (hm_keys m) = dom (hm_get m)"
    by (simp add: hm_keys_def hm_get_def [abs_def] dom_map_of_conv_image_fst)
  show "hm_wf m \<Longrightarrow> distinct (hm_keys m)"
    by (simp add: hm_wf_def hm_keys_def)
  show "hm_wf m \<Longrightarrow> hm_wf (hm_insert k v m)"
    by (simp add: hm_wf_def hm_insert_def distinct_update)
  show "hm_wf m \<Longrightarrow> hm_wf (hm_remove k m)"
    by (simp add: hm_wf_def hm_remove_def distinct_delete)
qed

lemma hm_get_simps [simp]:
  "hm_get [] k = None"
  "hm_get ((k', v) # m) k = (if k' = k then Some v else hm_get m k)"
  by (simp_all add: hm_get_def)

lemma hm_insert_simps [simp]:
  "hm_insert k v [] = [(k, v)]"
  "hm_insert k v ((k', v') # m) = (if k' = k then (k, v) # m else (k', v') # hm_insert k v m)"
  by (simp_all add: hm_insert_def)

lemma hm_keys_simps [simp]: "hm_keys [] = []" "hm_keys ((k, v) # m) = k # hm_keys m"
  by (simp_all add: hm_keys_def)

lemma hm_wf_simps [simp]: "hm_wf []" "hm_wf ((k, v) # m) \<longleftrightarrow> hm_get m k = None \<and> hm_wf m"
  by (auto simp: hm_wf_def hm_get_def map_of_eq_None_iff)

lemma hm_get_insert [simp]: "hm_get (hm_insert k v m) j = (if j = k then Some v else hm_get m j)"
  by (simp add: hm.get_put)

lemma hm_get_mem: "hm_get m k = Some v \<Longrightarrow> (k, v) \<in> set m"
  by (simp add: hm_get_def map_of_SomeD)

lemma hm_mem_get: "hm_wf m \<Longrightarrow> (k, v) \<in> set m \<Longrightarrow> hm_get m k = Some v"
  by (simp add: hm_wf_def hm_get_def)

lemma hm_remove_head: "hm_wf ((k, v) # m) \<Longrightarrow> hm_remove k ((k, v) # m) = m"
  by (simp add: hm_remove_def delete_id hm_wf_def)

lemma hm_insert_fresh: "hm_get m k = None \<Longrightarrow> hm_insert k v m = m @ [(k, v)]"
  by (induction m) (auto split: if_splits)

lemma length_hm_insert:
  "length (hm_insert h b m) = (if hm_get m h = None then Suc (length m) else length m)"
  by (induction m) (auto split: if_splits)

end
