(* ===== verification/Mempool.thy ===== *)
theory Mempool
  imports Ledger_Effects Hash_Map
begin

text \<open>
  The mempool of \<^verbatim>\<open>vdag-consensus/src/lib.rs\<close>: pending transactions keyed by their id, with
  insertion and batch draining.  The batch follows the iteration order of the hash map.
\<close>

record mempool =
  pending_transactions :: "(bytes32, transaction) entries"

definition mempool_new :: mempool where
  "mempool_new = \<lparr>pending_transactions = []\<rparr>"

definition add_transaction :: "digest \<Rightarrow> mempool \<Rightarrow> transaction \<Rightarrow> bool \<times> mempool" where
  "add_transaction sha p tx =
     (let tx_id = transaction_id sha tx in
      if hm_get (pending_transactions p) tx_id \<noteq> None then (False, p)
      else (True, p\<lparr>pending_transactions := hm_insert tx_id tx (pending_transactions p)\<rparr>))"

fun drain_keys ::
  "bytes32 list \<Rightarrow> (bytes32, transaction) entries \<Rightarrow>
     transaction list \<times> (bytes32, transaction) entries"
where
  "drain_keys [] m = ([], m)"
| "drain_keys (key # keys) m =
     (case hm_get m key of
        Some tx \<Rightarrow> (case drain_keys keys (hm_remove key m) of (batch, m') \<Rightarrow> (tx # batch, m'))
      | None \<Rightarrow> drain_keys keys m)"

definition drain_to_batch :: "mempool \<Rightarrow> nat \<Rightarrow> transaction list \<times> mempool" where
  "drain_to_batch p max_batch_size =
     (let keys = take max_batch_size (hm_keys (pending_transactions p)) in
      case drain_keys keys (pending_transactions p) of
        (batch, m) \<Rightarrow> (batch, p\<lparr>pending_transactions := m\<rparr>))"

text \<open>Every entry is stored under its own id, once.\<close>

definition mempool_inv :: "digest \<Rightarrow> mempool \<Rightarrow> bool" where
  "mempool_inv sha p \<longleftrightarrow>
     hm_wf (pending_transactions p) \<and>
     (\<forall>(i, tx) \<in> set (pending_transactions p). i = transaction_id sha tx)"

lemma mempool_inv_new: "mempool_inv sha mempool_new"
  by (simp add: mempool_inv_def mempool_new_def)

lemma mempool_inv_add:
  "mempool_inv sha p \<Longrightarrow> add_transaction sha p tx = (r, p') \<Longrightarrow> mempool_inv sha p'"
  by (auto simp: mempool_inv_def add_transaction_def Let_def hm_insert_fresh hm_wf_def
      hm_get_def map_of_eq_None_iff split: if_splits)

lemma drain_keys_prefix:
  "hm_wf m \<Longrightarrow> drain_keys (take n (hm_keys m)) m = (map snd (take n m), drop n m)"
proof (induction m arbitrary: n)
  case Nil
  then show ?case by simp
next
  case (Cons e m)
  obtain k v where e: "e = (k, v)" by (cases e)
  show ?case
  proof (cases n)
    case 0
    then show ?thesis by simp
  next
    case (Suc n')
    have "hm_remove k ((k, v) # m) = m" using Cons.prems e by (simp add: hm_remove_head)
    with Cons e Suc show ?thesis by simp
  qed
qed

lemma drain_to_batch_eq:
  "mempool_inv sha p \<Longrightarrow> drain_to_batch p n =
     (map snd (take n (pending_transactions p)),
      p\<lparr>pending_transactions := drop n (pending_transactions p)\<rparr>)"
  by (simp add: drain_to_batch_def mempool_inv_def drain_keys_prefix)

lemma mempool_inv_drain:
  assumes "mempool_inv sha p" and "drain_to_batch p n = (batch, p')"
  shows "mempool_inv sha p'"
  using assms drain_to_batch_eq [OF assms(1), of n]
  by (auto simp: mempool_inv_def hm_wf_def drop_map [symmetric] distinct_drop
      dest!: in_set_dropD)

text \<open>A drained batch holds every transaction at most once.\<close>

lemma drain_distinct_ids:
  assumes "mempool_inv sha p" and "drain_to_batch p n = (batch, p')"
  shows "distinct (tx_ids sha batch)"
proof -
  let ?m = "pending_transactions p"
  have "tx_ids sha batch = map (\<lambda>e. transaction_id sha (snd e)) (take n ?m)"
    using assms drain_to_batch_eq [OF assms(1), of n] by auto
  also have "\<dots> = map fst (take n ?m)"
    using assms(1) by (auto simp: mempool_inv_def dest!: in_set_takeD)
  also have "\<dots> = take n (map fst ?m)" by (simp add: take_map)
  finally show ?thesis using assms(1) by (simp add: mempool_inv_def hm_wf_def distinct_take)
qed

end
