(* ===== verification/Examples.thy ===== *)
theory Examples
  imports Ledger_Effects Mempool
begin

text \<open>
  Small concrete blocks and ledgers, on which the witnesses of the ledger theorems evaluate
  the definitions.  The digest is a checksum: enough to tell the example transactions apart.
\<close>

definition checksum :: digest where
  "checksum bs = fill (sum_list bs)"

definition alice :: address where "alice = fill 1"
definition bob :: address where "bob = fill 2"
definition carol :: address where "carol = fill 3"

lemmas example_addresses = alice_def bob_def carol_def DEV_TREASURY_ADDRESS_def

definition pay_bob :: transaction where
  "pay_bob = \<lparr>sender = alice, recipient = bob, amount = 500, tx_nonce = 0,
     public_key = [], signature = []\<rparr>"

definition pay_too_much :: transaction where
  "pay_too_much = \<lparr>sender = alice, recipient = bob, amount = 5000, tx_nonce = 1,
     public_key = [], signature = []\<rparr>"

definition ledger_1000 :: ledger_state where
  "ledger_1000 = \<lparr>balances = [alice \<mapsto> 1000], next_nonces = Map.empty,
     confirmed_transactions = {}\<rparr>"

definition block_of :: "u64 \<Rightarrow> transaction list \<Rightarrow> velo_block" where
  "block_of h txs =
     \<lparr>header = \<lparr>timestamp = 0, parents = [], tx_merkle_root = fill 0, nonce = 0, height = h,
                difficulty_target = fill 255\<rparr>,
      transactions = txs, coinbase_miner_address = carol,
      coinbase_miner_output = fst (calculate_subsidy_split h),
      coinbase_dev_address = DEV_TREASURY_ADDRESS,
      coinbase_dev_output = snd (calculate_subsidy_split h)\<rparr>"

lemma block_of_sels [simp]:
  "header (block_of h txs) = \<lparr>timestamp = 0, parents = [], tx_merkle_root = fill 0, nonce = 0,
     height = h, difficulty_target = fill 255\<rparr>"
  "transactions (block_of h txs) = txs"
  "coinbase_miner_address (block_of h txs) = carol"
  "coinbase_dev_address (block_of h txs) = DEV_TREASURY_ADDRESS"
  "coinbase_miner_output (block_of h txs) = fst (calculate_subsidy_split h)"
  "coinbase_dev_output (block_of h txs) = snd (calculate_subsidy_split h)"
  by (simp_all add: block_of_def)

lemma block_of_coinbase [simp]: "verify_coinbase_rewards (block_of h txs)"
  by (simp add: verify_coinbase_rewards_def split_beta)

text \<open>A block whose transactions go through applies, if the supply stays below \<open>2 ^ 64\<close>.\<close>

lemma apply_block_fits:
  assumes "verify_coinbase_rewards b" and "coinbase_dev_address b = DEV_TREASURY_ADDRESS"
    and "block_height b \<noteq> 0" and "ledger_supply l + 83238 < 2 ^ 64"
    and txs: "try_fold (commit_transaction sha (coinbase_miner_address b) (coinbase_dev_address b))
      (scratch_of l) (transactions b) = Inr sc"
  shows "\<exists>l'. apply_block sha l b = (Inr (), l')"
proof -
  have "map_total (s_balances sc) + 83238 < 2 ^ 64"
    using transactions_total [OF txs] assms(4) by (simp add: ledger_supply_def)
  from coinbase_fits [OF assms(1) this, of "coinbase_miner_address b" "coinbase_dev_address b"]
  show ?thesis using assms(1-3) txs by (auto simp: apply_block_def)
qed

lemma ledger_1000_supply: "ledger_supply ledger_1000 = 1000"
  using map_total_upd [of Map.empty alice "1000 :: u64"]
  by (simp add: ledger_supply_def ledger_1000_def)

lemma pay_bob_guard: "tx_guard checksum (scratch_of ledger_1000) pay_bob"
  by (simp add: tx_guard_def pay_bob_def ledger_1000_def get_or_def)

lemma pay_bob_applies:
  obtains l' where "apply_block checksum ledger_1000 (block_of 1 [pay_bob]) = (Inr (), l')"
proof -
  have "map_total (s_balances (scratch_of ledger_1000)) < 2 ^ 64"
    using ledger_1000_supply by (simp add: ledger_supply_def)
  from commit_guard [OF this pay_bob_guard, of carol DEV_TREASURY_ADDRESS]
  obtain sc where "commit_transaction checksum carol DEV_TREASURY_ADDRESS
      (scratch_of ledger_1000) pay_bob = Inr sc" by blast
  then have "\<exists>l'. apply_block checksum ledger_1000 (block_of 1 [pay_bob]) = (Inr (), l')"
    by (intro apply_block_fits) (simp_all add: ledger_1000_supply)
  then show thesis using that by blast
qed

text \<open>Blocks without transactions always apply.\<close>

lemma empty_block_applies:
  assumes "h \<noteq> 0" and "ledger_supply l + 83238 < 2 ^ 64"
  obtains l' where "apply_block sha l (block_of h []) = (Inr (), l')"
  using apply_block_fits [of "block_of h []" l sha "scratch_of l"] assms by auto

end
