(* ===== verification/Crypto.thy ===== *)
theory Crypto
  imports Block
begin

text \<open>
  Transaction signatures (\<^verbatim>\<open>vdag-crypto/src/lib.rs\<close>).  Dilithium2 is a third-party crate: its
  parsers and its verification are the fields of \<open>dilithium\<close>, over abstract types of public
  keys and signatures; SHA3-256 is the argument \<open>sha\<close>.
\<close>

record ('pk, 'sg) dilithium =
  pk_from_bytes :: "u8 list \<Rightarrow> 'pk option"
  pk_as_bytes :: "'pk \<Rightarrow> u8 list"
  sig_from_bytes :: "u8 list \<Rightarrow> 'sg option"
  verify_detached :: "'sg \<Rightarrow> u8 list \<Rightarrow> 'pk \<Rightarrow> bool"

definition derive_address :: "('pk, 'sg) dilithium \<Rightarrow> digest \<Rightarrow> 'pk \<Rightarrow> address" where
  "derive_address lib sha pk = sha (pk_as_bytes lib pk)"

definition verify_signature ::
  "('pk, 'sg) dilithium \<Rightarrow> u8 list \<Rightarrow> u8 list \<Rightarrow> 'pk \<Rightarrow> bool"
where
  "verify_signature lib message signature_bytes pk =
     (case sig_from_bytes lib signature_bytes of
        Some sg \<Rightarrow> verify_detached lib sg message pk
      | None \<Rightarrow> False)"

definition verify_transaction_signature ::
  "('pk, 'sg) dilithium \<Rightarrow> digest \<Rightarrow> address \<Rightarrow> address \<Rightarrow> u64 \<Rightarrow> u64 \<Rightarrow> u8 list \<Rightarrow> u8 list \<Rightarrow> bool"
where
  "verify_transaction_signature lib sha from to amt nce public_key_bytes signature_bytes =
     (case pk_from_bytes lib public_key_bytes of
        None \<Rightarrow> False
      | Some pk \<Rightarrow>
          if derive_address lib sha pk \<noteq> from then False
          else
            (let payload = bytes_of from @ bytes_of to @ u64_le amt @ u64_le nce
             in verify_signature lib payload signature_bytes pk))"

text \<open>As every caller uses it, on the fields of a transaction.\<close>

definition tx_signed :: "('pk, 'sg) dilithium \<Rightarrow> digest \<Rightarrow> transaction \<Rightarrow> bool" where
  "tx_signed lib sha tx =
     verify_transaction_signature lib sha (sender tx) (recipient tx) (amount tx) (tx_nonce tx)
       (public_key tx) (signature tx)"

lemma tx_signed_iff:
  "tx_signed lib sha tx \<longleftrightarrow>
     (\<exists>pk sg. pk_from_bytes lib (public_key tx) = Some pk \<and>
        sig_from_bytes lib (signature tx) = Some sg \<and>
        sender tx = sha (pk_as_bytes lib pk) \<and>
        verify_detached lib sg (transaction_payload tx) pk)"
  by (auto simp: tx_signed_def verify_transaction_signature_def verify_signature_def
      derive_address_def transaction_payload_def Let_def split: option.splits)

end
