(* ===== verification/Ledger_Properties.thy ===== *)
theory Ledger_Properties
  imports Examples Crypto
begin

text \<open>
  The promises of the consensus library's ledger, subsidy, block encoding and
  mempool, each with a witness where it has hypotheses.
\<close>

section \<open>Money\<close>

text \<open>C2: An accepted block changes the sum of all balances by exactly what the emission
  schedule issues at its height, less fifty base units burnt per transaction; height zero
  issues nothing.\<close>

theorem supply_conserved:
  assumes "apply_block sha l b = (Inr r, l')"
  shows "ledger_supply l' + 50 * length (transactions b) =
    ledger_supply l + (if block_height b = 0 then 0 else emission_at (unat (block_height b)))"
  using apply_block_supply [OF assms]
  by (simp add: block_issue_def block_burn_def subsidy_total_eq split: if_splits)

theorem supply_conserved_witness:
  "\<exists>l'. apply_block checksum ledger_1000 (block_of 1 [pay_bob]) = (Inr (), l') \<and>
     ledger_supply l' + 50 = 1000 + 83238"
proof -
  obtain l' where l': "apply_block checksum ledger_1000 (block_of 1 [pay_bob]) = (Inr (), l')"
    by (rule pay_bob_applies)
  from supply_conserved [OF l'] show ?thesis
    by (intro exI [of _ l']) (simp add: l' ledger_1000_supply emission_at_def)
qed

text \<open>C16: However long the chain, blocks at pairwise different heights never bring the supply,
  or any single balance, above 20999065536000 base units: 20,999,065.536 coins of a million
  units, below the documented cap of 21 million.\<close>

theorem supply_capped:
  assumes "try_fold (ledger_step sha) ledger_default bs = Inr l"
    and "distinct (map block_height bs)"
  shows "ledger_supply l \<le> 20999065536000 \<and> unat (ledger_balance l a) \<le> 20999065536000"
proof -
  have "block_issue b \<le> subsidy_total (block_height b)" for b by (simp add: block_issue_def)
  then have "sum_list (map block_issue bs) \<le> (\<Sum>b\<leftarrow>bs. subsidy_total (block_height b))"
    by (intro sum_list_mono) simp
  also have "\<dots> = (\<Sum>h\<leftarrow>map block_height bs. subsidy_total h)" by (simp add: comp_def)
  also have "\<dots> \<le> 20999065536000"
    using sum_list_subsidy_le [OF assms(2)] by (simp add: TOTAL_EMISSION_def)
  finally have "ledger_supply l \<le> 20999065536000"
    using block_meter.loop_total_le [OF assms(1)] by simp
  moreover have "unat (ledger_balance l a) \<le> ledger_supply l"
    by (simp add: ledger_balance_def ledger_supply_def get_or_le_map_total)
  ultimately show ?thesis by simp
qed

theorem supply_capped_witness:
  "\<exists>l. try_fold (ledger_step checksum) ledger_default [block_of 1 []] = Inr l \<and>
     unat (ledger_balance l carol) \<le> 20999065536000"
proof -
  obtain l where "apply_block checksum ledger_default (block_of 1 []) = (Inr (), l)"
    by (rule empty_block_applies [of 1 ledger_default checksum]) simp_all
  then have "try_fold (ledger_step checksum) ledger_default [block_of 1 []] = Inr l"
    by (simp add: ledger_step_def)
  with supply_capped [OF this] show ?thesis by auto
qed

text \<open>C18: The exact change of every balance in an accepted block, as integers: amounts
  received, less amounts and fees sent, plus the miner's 48 and the treasury's 2 units of each
  fee, plus the two coinbase outputs; no wrap-around is involved.\<close>

theorem balance_changes:
  assumes "apply_block sha l b = (Inr r, l')" and "block_height b \<noteq> 0"
  shows "uint (ledger_balance l' a) = uint (ledger_balance l a) + block_delta b a"
  by (rule apply_block_delta [OF assms])

theorem balance_changes_witness:
  "\<exists>l'. apply_block checksum ledger_1000 (block_of 1 [pay_bob]) = (Inr (), l') \<and>
     uint (ledger_balance l' alice) = 400 \<and> uint (ledger_balance l' bob) = 500"
proof -
  obtain l' where l': "apply_block checksum ledger_1000 (block_of 1 [pay_bob]) = (Inr (), l')"
    by (rule pay_bob_applies)
  have "uint (ledger_balance l' alice) = 400" "uint (ledger_balance l' bob) = 500"
    using balance_changes [OF l', of alice] balance_changes [OF l', of bob]
    by (simp_all add: block_delta_def tx_delta_def pay_bob_def ledger_balance_def ledger_1000_def
        get_or_def example_addresses)
  with l' show ?thesis by blast
qed

text \<open>Block application is atomic: a rejected block, and a block at height zero, leave the
  ledger exactly as it was.\<close>

theorem apply_block_all_or_nothing:
  assumes "fst (apply_block sha l b) = Inl e \<or> block_height b = 0"
  shows "snd (apply_block sha l b) = l"
  using assms apply_block_atomic [of sha l b] apply_block_genesis [of b sha l]
  by (cases "apply_block sha l b") auto

theorem apply_block_all_or_nothing_witness:
  "snd (apply_block checksum ledger_1000 (block_of 0 [pay_bob])) = ledger_1000"
  by (rule apply_block_all_or_nothing [where e = GenesisSpendable]) simp

section \<open>Replay protection\<close>

text \<open>In an accepted block the transactions of every sender carry consecutive nonces that
  start at the ledger's next nonce, which then counts exactly them.\<close>

theorem nonces_consecutive:
  assumes "apply_block sha l b = (Inr r, l')" and "block_height b \<noteq> 0"
  shows "map tx_nonce (sent_by a (transactions b)) =
      map (\<lambda>i. get_or 0 (next_nonces l) a + of_nat i) [0..<length (sent_by a (transactions b))] \<and>
    get_or 0 (next_nonces l') a =
      get_or 0 (next_nonces l) a + of_nat (length (sent_by a (transactions b)))"
proof -
  from apply_block_Inr [OF assms] obtain sc bal where
    "try_fold (commit_transaction sha (coinbase_miner_address b) (coinbase_dev_address b))
       (scratch_of l) (transactions b) = Inr sc"
    "l' = \<lparr>balances = bal, next_nonces = s_nonces sc, confirmed_transactions = s_confirmed sc\<rparr>"
    by metis
  with transactions_nonces [of sha _ _ "scratch_of l" "transactions b" sc a] show ?thesis by auto
qed

theorem nonces_consecutive_witness:
  "\<exists>l'. apply_block checksum ledger_1000 (block_of 1 [pay_bob]) = (Inr (), l') \<and>
     get_or 0 (next_nonces l') alice = 1"
proof -
  obtain l' where l': "apply_block checksum ledger_1000 (block_of 1 [pay_bob]) = (Inr (), l')"
    by (rule pay_bob_applies)
  from nonces_consecutive [OF l', of alice] have "get_or 0 (next_nonces l') alice = 1"
    by (simp add: pay_bob_def ledger_1000_def get_or_def)
  with l' show ?thesis by blast
qed

text \<open>A transaction of an accepted block is never accepted again: any later block that
  contains it is rejected, whatever blocks were applied in between.\<close>

theorem replay_rejected:
  assumes "apply_block sha l b = (Inr r, l1)" and "tx \<in> set (transactions b)"
    and "try_fold (ledger_step sha) l1 bs = Inr l2" and "tx \<in> set (transactions b')"
  shows "\<exists>e. apply_block sha l2 b' = (Inl e, l2)"
  by (rule no_replay [OF assms])

theorem replay_rejected_witness:
  "\<exists>l1 e. apply_block checksum ledger_1000 (block_of 1 [pay_bob]) = (Inr (), l1) \<and>
     apply_block checksum l1 (block_of 2 [pay_bob]) = (Inl e, l1)"
proof -
  obtain l1 where l1: "apply_block checksum ledger_1000 (block_of 1 [pay_bob]) = (Inr (), l1)"
    by (rule pay_bob_applies)
  with replay_rejected [OF l1, of pay_bob "[]" l1 "block_of 2 [pay_bob]"] show ?thesis by auto
qed

text \<open>With a supply that leaves room for one subsidy below \<open>2 ^ 64\<close>, the only overflow
  error a block can run into is a transaction whose amount plus fee does not fit in 64 bits.\<close>

theorem no_overflow_in_circulation:
  assumes "ledger_supply l + 83238 < 2 ^ 64" and "fst (apply_block sha l b) = Inl e"
    and "e \<in> overflow_errors"
  shows "e = CostOverflow \<and> (\<exists>tx \<in> set (transactions b). 2 ^ 64 \<le> unat (amount tx) + 100)"
proof -
  let ?step = "commit_transaction sha (coinbase_miner_address b) (coinbase_dev_address b)"
  have loop: "e = CostOverflow \<and> (\<exists>tx \<in> set txs. 2 ^ 64 \<le> unat (amount tx) + 100)"
    if "try_fold ?step sc txs = Inl e" "map_total (s_balances sc) < 2 ^ 64" for sc txs
    using that
  proof (induction txs arbitrary: sc)
    case Nil
    then show ?case by simp
  next
    case (Cons tx txs)
    show ?case
    proof (cases "?step sc tx")
      case (Inl e')
      then have "?step sc tx = Inl e" using Cons.prems(1) by simp
      from commit_no_overflow [OF this Cons.prems(2) assms(3)] show ?thesis by simp
    next
      case (Inr sc')
      then have "map_total (s_balances sc') < 2 ^ 64"
        using tx_meter.step_total [of sha "coinbase_miner_address b" "coinbase_dev_address b" sc tx sc']
          Cons.prems(2) by simp
      with Cons.IH [of sc'] Cons.prems(1) Inr show ?thesis by simp
    qed
  qed
  have coin: "\<exists>bal1 bal2. credit (s_balances sc) (coinbase_miner_address b) (coinbase_miner_output b) = Some bal1 \<and>
      credit bal1 (coinbase_dev_address b) (coinbase_dev_output b) = Some bal2"
    if "try_fold ?step (scratch_of l) (transactions b) = Inr sc" "verify_coinbase_rewards b" for sc
    using coinbase_fits [OF that(2)] transactions_total [OF that(1)] assms(1)
    by (simp add: ledger_supply_def)
  have "try_fold ?step (scratch_of l) (transactions b) = Inl e"
    using assms(2,3) coin
    by (fastforce simp: apply_block_def overflow_errors_def split: if_splits sum.splits option.splits)
  from loop [OF this] show ?thesis using assms(1) by (simp add: ledger_supply_def)
qed

definition huge_payment :: transaction where
  "huge_payment = pay_bob\<lparr>amount := 18446744073709551600\<rparr>"

lemma huge_payment_fails:
  "fst (apply_block checksum ledger_1000 (block_of 1 [huge_payment])) = Inl CostOverflow"
  by (simp add: apply_block_def commit_transaction_def try_apply_transaction_def Let_def
      huge_payment_def pay_bob_def ledger_1000_def get_or_def checked_add_fee)

theorem no_overflow_in_circulation_witness:
  "\<exists>tx \<in> set (transactions (block_of 1 [huge_payment])). 2 ^ 64 \<le> unat (amount tx) + 100"
  using no_overflow_in_circulation [OF _ huge_payment_fails]
  by (simp add: ledger_1000_supply overflow_errors_def)

section \<open>Assembling a block\<close>

text \<open>C29: The dry run used by the miner splits the candidates into accepted and rejected ones,
  loses none, and a block made of the accepted ones applies to the same ledger.\<close>

theorem selection_applies:
  assumes "select_affordable sha l candidates m DEV_TREASURY_ADDRESS = (accepted, rejected)"
    and "ledger_supply l + 83238 < 2 ^ 64" and "verify_coinbase_rewards b"
    and "block_height b \<noteq> 0" and "transactions b = accepted"
    and "coinbase_miner_address b = m" and "coinbase_dev_address b = DEV_TREASURY_ADDRESS"
  shows "(\<exists>l'. apply_block sha l b = (Inr (), l')) \<and>
    mset accepted + mset (map fst rejected) = mset candidates"
proof
  have sel: "select_loop sha m DEV_TREASURY_ADDRESS (scratch_of l) candidates = (accepted, rejected)"
    using assms(1) by (simp add: select_affordable_def)
  show "mset accepted + mset (map fst rejected) = mset candidates"
    by (rule select_loop_partition [OF sel])
  obtain sc where "try_fold (commit_transaction sha m DEV_TREASURY_ADDRESS) (scratch_of l) accepted = Inr sc"
    using select_loop_sound [OF sel, of "scratch_of l"] assms(2)
    by (auto simp: refines_scratch_def ledger_supply_def)
  then show "\<exists>l'. apply_block sha l b = (Inr (), l')"
    using assms(2-7) by (intro apply_block_fits) simp_all
qed

theorem selection_applies_witness:
  "\<exists>acc rej. select_affordable checksum ledger_1000 [pay_bob, pay_too_much] carol
       DEV_TREASURY_ADDRESS = (acc, rej) \<and>
     (\<exists>l'. apply_block checksum ledger_1000 (block_of 1 acc) = (Inr (), l'))"
proof -
  obtain acc rej where sel: "select_affordable checksum ledger_1000 [pay_bob, pay_too_much] carol
       DEV_TREASURY_ADDRESS = (acc, rej)" by fastforce
  with selection_applies [OF sel, of "block_of 1 acc"] show ?thesis
    by (simp add: ledger_1000_supply)
qed

text \<open>The subsidy of every height: the treasury gets five per cent rounded down, the two
  shares add up to the scheduled emission, and the emission never grows with the height.\<close>

theorem subsidy_schedule:
  "(case calculate_subsidy_split h of (miner_share, dev_share) \<Rightarrow>
      unat dev_share = emission_at (unat h) * 5 div 100 \<and>
      unat miner_share + unat dev_share = emission_at (unat h)) \<and>
   emission_at (max (unat h) h') \<le> emission_at (unat h)"
  using calculate_subsidy_split_parts [of h] emission_at_antimono [of "unat h" "max (unat h) h'"]
  by (simp add: split_beta)

section \<open>Encodings\<close>

text \<open>The bytes hashed for a block determine its header, its miner address and its treasury
  address: for a digest without collisions, blocks with the same hash agree on all of them, so
  no two networks share a genesis hash.\<close>

theorem block_hash_binding:
  assumes "inj_on sha {block_preimage b, block_preimage b'}"
    and "calculate_hash sha b = calculate_hash sha b'"
  shows "header b = header b' \<and> coinbase_miner_address b = coinbase_miner_address b' \<and>
    coinbase_dev_address b = coinbase_dev_address b'"
proof -
  have "sha (block_preimage b) = sha (block_preimage b')"
    using assms(2) by (simp only: calculate_hash_def)
  from inj_onD [OF assms(1) this] have "block_preimage b = block_preimage b'" by blast
  then show ?thesis by (rule block_preimage_inject)
qed

theorem block_hash_binding_witness:
  "header (block_of 1 []) = header (block_of 1 [pay_bob])"
proof -
  have eq: "block_preimage (block_of 1 []) = block_preimage (block_of 1 [pay_bob])"
    unfolding block_preimage_def by (simp only: block_of_sels)
  show ?thesis
    using block_hash_binding [of checksum "block_of 1 []" "block_of 1 [pay_bob]"]
    by (simp only: calculate_hash_def eq insert_absorb2 inj_on_insert inj_on_empty) simp
qed

text \<open>C39: The Merkle root commits to the transaction list: two different lists of the same length,
  all of whose public keys have one length, have different roots, provided the digest has no
  collision on the strings that are hashed for them (the transactions, and the pairs of inner
  nodes).  Identities hash the public key without its length, hence the condition on keys.\<close>

theorem merkle_root_commits:
  assumes "ts \<noteq> ts'" and "length ts = length ts'"
    and "\<forall>t \<in> set ts \<union> set ts'. length (public_key t) = n"
    and "inj_on sha (set (merkle_inputs sha (map (transaction_id sha) ts)) \<union>
      set (merkle_inputs sha (map (transaction_id sha) ts')))"
    and "inj_on sha (tx_preimage ` (set ts \<union> set ts'))"
  shows "transaction_merkle_root sha ts \<noteq> transaction_merkle_root sha ts'"
proof
  assume "transaction_merkle_root sha ts = transaction_merkle_root sha ts'"
  from merkle_root_binding [OF this assms(2) _ assms(4,5)] assms(1,3) show False by blast
qed

text \<open>The witness is in \<open>Consensus_Tests\<close>, on SHA3-256.\<close>

text \<open>The length is needed: repeating the last transaction of an odd list of three or more
  keeps the root, so a block body is not determined by the header's root alone.\<close>

theorem merkle_root_ignores_repeated_last:
  assumes "odd (length ts)" and "1 < length ts"
  shows "transaction_merkle_root sha (ts @ [last ts]) = transaction_merkle_root sha ts"
  by (rule merkle_root_dup_last [OF assms])

theorem merkle_root_ignores_repeated_last_witness:
  "transaction_merkle_root checksum [pay_bob, pay_too_much, pay_bob, pay_bob] =
   transaction_merkle_root checksum [pay_bob, pay_too_much, pay_bob]"
  using merkle_root_ignores_repeated_last [of "[pay_bob, pay_too_much, pay_bob]" checksum] by simp

end
