(* ===== verification/Graph_Search.thy ===== *)
theory Graph_Search
  imports Prelude
begin

text \<open>
  Breadth-first search with a work queue and a visited set, the shape of \<^verbatim>\<open>get_past_set\<close> and
  \<^verbatim>\<open>find_anticone\<close> of \<^verbatim>\<open>ghostdag.rs\<close>, and \<^verbatim>\<open>Iterator::max_by\<close>.

  The interface \<open>worklist\<close> says what one round of such a loop does: it takes the head of the
  queue, lets the client observe it, and enqueues the successors not visited yet.  The client
  gets that the loop observes exactly the nodes reachable from the initial queue.
\<close>

section \<open>One round\<close>

text \<open>\<^verbatim>\<open>for parent in parents { if !visited.contains(parent) { visited.insert(*parent);
  queue.push_back(*parent); } }\<close>\<close>

fun visit :: "'a list \<Rightarrow> 'a set \<times> 'a list \<Rightarrow> 'a set \<times> 'a list" where
  "visit [] st = st"
| "visit (p # ps) (visited, queue) =
     visit ps (if p \<in> visited then (visited, queue) else (insert p visited, queue @ [p]))"

lemma visit_sets:
  "visit ps (V, Q) = (V', Q') \<Longrightarrow>
     V' = V \<union> set ps \<and> set Q \<subseteq> set Q' \<and> set Q' - set Q \<subseteq> set ps \<and> set ps - V \<subseteq> set Q'"
proof (induction ps arbitrary: V Q)
  case Nil
  then show ?case by simp
next
  case (Cons p ps)
  show ?case
  proof (cases "p \<in> V")
    case True
    then show ?thesis using Cons.IH [of V Q] Cons.prems by auto
  next
    case False
    then show ?thesis using Cons.IH [of "insert p V" "Q @ [p]"] Cons.prems by auto
  qed
qed

lemma visit_measure:
  fixes V :: "'a::finite set"
  shows "visit ps (V, Q) = (V', Q') \<Longrightarrow> card (UNIV - V') + length Q' = card (UNIV - V) + length Q"
proof (induction ps arbitrary: V Q)
  case Nil
  then show ?case by simp
next
  case (Cons p ps)
  show ?case
  proof (cases "p \<in> V")
    case True
    then show ?thesis using Cons by simp
  next
    case False
    then have "card (UNIV - V) = Suc (card (UNIV - insert p V))"
      by (metis Compl_eq_Diff_UNIV ComplI Diff_insert card_Suc_Diff1 finite_class.finite_UNIV
          finite_subset subset_UNIV)
    then show ?thesis using False Cons.prems Cons.IH [of "insert p V" "Q @ [p]"] by simp
  qed
qed

lemma visit_measure_case:
  fixes V :: "'a::finite set"
  shows "(case visit ps (V, Q) of (V', Q') \<Rightarrow> card (UNIV - V') + length Q') =
    card (UNIV - V) + length Q"
  using visit_measure [of ps V Q] by (cases "visit ps (V, Q)") simp

section \<open>The loop\<close>

definition edges :: "('a \<Rightarrow> 'a list) \<Rightarrow> ('a \<times> 'a) set" where
  "edges succ = {(x, y). y \<in> set (succ x)}"

lemma edges_iff [simp]: "(x, y) \<in> edges succ \<longleftrightarrow> y \<in> set (succ x)"
  by (simp add: edges_def)

locale worklist =
  fixes succ :: "'a::finite \<Rightarrow> 'a list"
    and observe :: "'s \<Rightarrow> 'a \<Rightarrow> 's"
    and result :: "'s \<Rightarrow> 'a set \<Rightarrow> 'r"
    and loop :: "'s \<Rightarrow> 'a set \<Rightarrow> 'a list \<Rightarrow> 'r"
  assumes loop_Nil: "loop s V [] = result s V"
    and loop_Cons: "visit (succ h) (V, Q) = (V', Q') \<Longrightarrow>
      loop s V (h # Q) = loop (observe s h) V' Q'"
begin

lemma loop_observes:
  assumes "V \<subseteq> D \<union> set Q" and "\<And>d. d \<in> D \<Longrightarrow> set (succ d) \<subseteq> V"
  shows "\<exists>ds. loop s V Q = result (foldl observe s ds) (V \<union> (edges succ)\<^sup>+ `` set Q) \<and>
    set ds \<subseteq> (edges succ)\<^sup>* `` set Q \<and> (edges succ)\<^sup>* `` set Q \<subseteq> D \<union> set ds"
  using assms
proof (induction "card (UNIV - V) + length Q" arbitrary: s V Q D rule: less_induct)
  case less
  let ?E = "edges succ"
  show ?case
  proof (cases Q)
    case Nil
    then show ?thesis by (intro exI [of _ "[]"]) (simp add: loop_Nil)
  next
    case (Cons h Q0)
    obtain V' Q' where v: "visit (succ h) (V, Q0) = (V', Q')" by fastforce
    note sets = visit_sets [OF v]
    have D: "V \<union> set Q0 \<union> set (succ h) \<subseteq> insert h D \<union> set Q'"
      using less.prems(1) Cons sets by auto
    have "\<exists>ds. loop (observe s h) V' Q' = result (foldl observe (observe s h) ds) (V' \<union> ?E\<^sup>+ `` set Q')
        \<and> set ds \<subseteq> ?E\<^sup>* `` set Q' \<and> ?E\<^sup>* `` set Q' \<subseteq> insert h D \<union> set ds"
    proof (rule less.hyps)
      show "card (UNIV - V') + length Q' < card (UNIV - V) + length Q"
        using visit_measure [OF v] Cons by simp
      show "V' \<subseteq> insert h D \<union> set Q'" using D sets by auto
      show "set (succ d) \<subseteq> V'" if "d \<in> insert h D" for d
        using that sets less.prems(2) by auto
    qed
    then obtain ds where ds: "loop (observe s h) V' Q' =
        result (foldl observe (observe s h) ds) (V' \<union> ?E\<^sup>+ `` set Q')"
      "set ds \<subseteq> ?E\<^sup>* `` set Q'" "?E\<^sup>* `` set Q' \<subseteq> insert h D \<union> set ds" by blast
    \<comment> \<open>everything reachable from what is done or queued is visited or reachable from the queue\<close>
    have next_in: "z \<in> V' \<union> ?E\<^sup>+ `` set Q'"
      if z: "z \<in> set (succ y)" and y: "y \<in> insert h D \<union> set Q' \<union> ?E\<^sup>+ `` set Q'" for y z
    proof -
      have "(y, z) \<in> ?E" using z by simp
      then have "z \<in> ?E\<^sup>+ `` set Q'" if "y \<in> set Q' \<union> ?E\<^sup>+ `` set Q'"
        using that \<open>(y, z) \<in> ?E\<close> by (blast intro: r_into_trancl trancl_into_trancl)
      moreover have "z \<in> V'" if "y \<in> insert h D"
        using that z sets less.prems(2) by auto
      ultimately show ?thesis using y by blast
    qed
    have closed: "x \<in> V' \<union> ?E\<^sup>+ `` set Q'"
      if "(y, x) \<in> ?E\<^sup>+" "y \<in> insert h D \<union> set Q'" for x y
      using that
    proof (induction rule: trancl_induct)
      case (base x)
      then show ?case using next_in [of x y] by auto
    next
      case (step x z)
      then have "x \<in> insert h D \<union> set Q' \<union> ?E\<^sup>+ `` set Q'"
        using D sets by blast
      then show ?case using step.hyps next_in [of z x] by simp
    qed
    have Q'_sub: "set Q' \<subseteq> set Q0 \<union> set (succ h)" using sets by auto
    have eqV: "V' \<union> ?E\<^sup>+ `` set Q' = V \<union> ?E\<^sup>+ `` set Q"
    proof
      have "?E\<^sup>+ `` set Q' \<subseteq> ?E\<^sup>+ `` set Q"
      proof
        fix x assume "x \<in> ?E\<^sup>+ `` set Q'"
        then obtain y where y: "y \<in> set Q'" "(y, x) \<in> ?E\<^sup>+" by blast
        then have "(h, y) \<in> ?E \<or> y \<in> set Q0" using Q'_sub by auto
        then show "x \<in> ?E\<^sup>+ `` set Q"
          using y(2) Cons by (auto simp del: edges_iff intro: trancl_into_trancl2)
      qed
      moreover have "set (succ h) \<subseteq> ?E\<^sup>+ `` set Q"
        using Cons by (auto intro!: ImageI [OF r_into_trancl, of h])
      ultimately show "V' \<union> ?E\<^sup>+ `` set Q' \<subseteq> V \<union> ?E\<^sup>+ `` set Q"
        using sets by auto
      have "?E\<^sup>+ `` set Q \<subseteq> V' \<union> ?E\<^sup>+ `` set Q'"
        using closed Cons sets by auto
      then show "V \<union> ?E\<^sup>+ `` set Q \<subseteq> V' \<union> ?E\<^sup>+ `` set Q'" using sets by auto
    qed
    have eqS: "?E\<^sup>* `` set Q' \<subseteq> ?E\<^sup>* `` set Q"
    proof
      fix x assume "x \<in> ?E\<^sup>* `` set Q'"
      then obtain y where y: "y \<in> set Q'" "(y, x) \<in> ?E\<^sup>*" by blast
      then have "(h, y) \<in> ?E \<or> y \<in> set Q0" using Q'_sub by auto
      then show "x \<in> ?E\<^sup>* `` set Q"
        using y(2) Cons by (auto simp del: edges_iff intro: converse_rtrancl_into_rtrancl)
    qed
    define S where "S = ?E\<^sup>* `` set Q'"
    have "set Q' \<subseteq> S" unfolding S_def by blast
    with ds(3) have S: "insert h D \<union> set Q' \<union> S \<subseteq> D \<union> set (h # ds)"
      unfolding S_def [symmetric] by auto
    have "?E\<^sup>* `` set Q \<subseteq> D \<union> set (h # ds)"
    proof
      fix x assume "x \<in> ?E\<^sup>* `` set Q"
      then obtain y where y: "y \<in> set Q" "(y, x) \<in> ?E\<^sup>*" by blast
      show "x \<in> D \<union> set (h # ds)"
      proof (cases "y = x")
        case True
        then have "x = h \<or> x \<in> set Q'" using y(1) Cons sets by auto
        then show ?thesis using S by blast
      next
        case False
        then have "(y, x) \<in> ?E\<^sup>+" using y(2) by (simp add: rtrancl_eq_or_trancl)
        then have "x \<in> V' \<union> ?E\<^sup>+ `` set Q'" using closed [of y x] y(1) Cons sets by auto
        moreover have "?E\<^sup>+ `` set Q' \<subseteq> S" unfolding S_def by (auto intro: trancl_into_rtrancl)
        ultimately have "x \<in> insert h D \<union> set Q' \<union> S" using D sets by blast
        then show ?thesis using S by blast
      qed
    qed
    moreover have "set (h # ds) \<subseteq> ?E\<^sup>* `` set Q"
    proof -
      have "h \<in> ?E\<^sup>* `` set Q" using Cons by auto
      with ds(2) eqS show ?thesis by (simp add: subset_trans [OF ds(2) eqS])
    qed
    moreover have "loop s V Q = result (foldl observe s (h # ds)) (V \<union> ?E\<^sup>+ `` set Q)"
      using ds(1) eqV loop_Cons [OF v] Cons by simp
    ultimately show ?thesis by blast
  qed
qed

lemma loop_reaches:
  assumes "V \<subseteq> set Q"
  obtains ds where "loop s V Q = result (foldl observe s ds) (V \<union> (edges succ)\<^sup>+ `` set Q)"
    and "set ds = (edges succ)\<^sup>* `` set Q"
  using loop_observes [of V "{}" Q s] assms by auto

end

section \<open>Collecting without duplicates\<close>

text \<open>\<^verbatim>\<open>if !order.contains(&x) { order.push(x); }\<close>\<close>

definition push_unique :: "'a list \<Rightarrow> 'a \<Rightarrow> 'a list" where
  "push_unique xs x = (if x \<in> set xs then xs else xs @ [x])"

lemma set_push_unique [simp]: "set (push_unique xs x) = insert x (set xs)"
  by (auto simp: push_unique_def)

lemma distinct_push_unique [simp]: "distinct (push_unique xs x) \<longleftrightarrow> distinct xs"
  by (simp add: push_unique_def)

lemma set_foldl_push_unique [simp]: "set (foldl push_unique xs ys) = set xs \<union> set ys"
  by (induction ys arbitrary: xs) auto

lemma distinct_foldl_push_unique [simp]: "distinct (foldl push_unique xs ys) \<longleftrightarrow> distinct xs"
  by (induction ys arbitrary: xs) auto

lemma foldl_push_unique_prefix: "\<exists>zs. foldl push_unique xs ys = xs @ zs \<and> set zs \<subseteq> set ys"
proof (induction ys arbitrary: xs)
  case Nil
  then show ?case by simp
next
  case (Cons y ys)
  from Cons [of "push_unique xs y"] show ?case by (auto simp: push_unique_def)
qed

lemma foldl_push_unique_id: "set ys \<subseteq> set xs \<Longrightarrow> foldl push_unique xs ys = xs"
  by (induction ys) (auto simp: push_unique_def)

lemma foldl_push_unique_fresh:
  "distinct ys \<Longrightarrow> set xs \<inter> set ys = {} \<Longrightarrow> foldl push_unique xs ys = xs @ ys"
  by (induction ys arbitrary: xs) (auto simp: push_unique_def)

section \<open>The maximum of an iterator\<close>

text \<open>
  \<^verbatim>\<open>Iterator::max_by\<close> and \<^verbatim>\<open>max_by_key\<close> return the last of several maximal elements: the later
  element wins unless the earlier one is strictly greater.
\<close>

fun max_by :: "('a \<Rightarrow> 'a \<Rightarrow> bool) \<Rightarrow> 'a list \<Rightarrow> 'a option" where
  "max_by le [] = None"
| "max_by le (x # xs) = Some (foldl (\<lambda>best y. if le best y then y else best) x xs)"

locale comparator =
  fixes le :: "'a \<Rightarrow> 'a \<Rightarrow> bool"
  assumes total: "le x y \<or> le y x"
    and le_trans: "le x y \<Longrightarrow> le y z \<Longrightarrow> le x z"
begin

lemma le_refl: "le x x"
  using total [of x x] by simp

definition best_of :: "'a \<Rightarrow> 'a list \<Rightarrow> 'a" where
  "best_of x xs = foldl (\<lambda>best y. if le best y then y else best) x xs"

lemma best_of_Cons: "best_of x (z # zs) = best_of (if le x z then z else x) zs"
  by (simp add: best_of_def)

lemma best_of_mem: "best_of x xs \<in> insert x (set xs)"
proof (induction xs arbitrary: x)
  case Nil
  then show ?case by (simp add: best_of_def)
next
  case (Cons z zs)
  from Cons [of x] Cons [of z] show ?case by (auto simp: best_of_Cons)
qed

lemma best_of_ge: "le y x \<or> y \<in> set xs \<Longrightarrow> le y (best_of x xs)"
proof (induction xs arbitrary: x)
  case Nil
  then show ?case by (simp add: best_of_def)
next
  case (Cons z zs)
  have "le y (if le x z then z else x) \<or> y \<in> set zs"
    using Cons.prems total [of x z] le_refl [of y] by (auto intro: le_trans)
  then show ?case unfolding best_of_Cons by (rule Cons.IH)
qed

lemma max_by_Some:
  "max_by le xs = Some m \<Longrightarrow> m \<in> set xs \<and> (\<forall>y \<in> set xs. le y m)"
proof (cases xs)
  case (Cons z zs)
  assume "max_by le xs = Some m"
  then have "m = best_of z zs" using Cons by (simp add: best_of_def)
  then show ?thesis using best_of_mem [of z zs] best_of_ge [of _ z zs] le_refl Cons by auto
qed simp

lemma max_by_None [simp]: "max_by le xs = None \<longleftrightarrow> xs = []"
  by (cases xs) auto

end

text \<open>A comparison that tells distinct elements apart: the maximum depends on the set only.\<close>

locale strict_comparator = comparator +
  assumes le_antisym: "le x y \<Longrightarrow> le y x \<Longrightarrow> x = y"
begin

lemma max_by_set: "set xs = set ys \<Longrightarrow> max_by le xs = max_by le ys"
proof (cases "max_by le xs")
  case None
  then show "set xs = set ys \<Longrightarrow> ?thesis" by (cases ys) auto
next
  case (Some m)
  assume eq: "set xs = set ys"
  with Some have "ys \<noteq> []" by (cases xs) auto
  then obtain n where n: "max_by le ys = Some n" by (cases ys) auto
  have "m = n" using max_by_Some [OF Some] max_by_Some [OF n] eq le_antisym by auto
  with Some n show ?thesis by simp
qed

end

end
