(* ===== verification/Ghostdag.thy ===== *)
theory Ghostdag
  imports Block Hash_Map Graph_Search
begin

text \<open>
  The block DAG and its GHOSTDAG colouring (\<^verbatim>\<open>vdag-consensus/src/ghostdag.rs\<close>): past sets,
  anticones, the blue/red decision and the blue score of a new block.

  \<^verbatim>\<open>block_store\<close> is enumerated by \<^verbatim>\<open>compute_tips\<close>, so it is a list of entries;
  \<^verbatim>\<open>ghostdag_cache\<close> is only looked up, so it is a partial function.  \<^verbatim>\<open>usize\<close> counters are
  natural numbers: they count hashes of a list held in memory.
\<close>

section \<open>Data\<close>

record ghostdag_data =
  blue_score :: u64
  selected_parent :: "bytes32 option"
  blues :: "bytes32 list"
  reds :: "bytes32 list"

record ghostdag_manager =
  gd_k :: nat
  block_store :: "(bytes32, velo_block) entries"
  ghostdag_cache :: "bytes32 \<rightharpoonup> ghostdag_data"

definition ghostdag_new :: "nat \<Rightarrow> ghostdag_manager" where
  "ghostdag_new k = \<lparr>gd_k = k, block_store = [], ghostdag_cache = Map.empty\<rparr>"

text \<open>The parent pointers the two searches follow from a hash.\<close>

definition parents_of :: "ghostdag_manager \<Rightarrow> bytes32 \<Rightarrow> bytes32 list" where
  "parents_of m h =
     (case hm_get (block_store m) h of None \<Rightarrow> [] | Some blk \<Rightarrow> parents (header blk))"

section \<open>Searches\<close>

function past_loop :: "ghostdag_manager \<Rightarrow> bytes32 set \<Rightarrow> bytes32 list \<Rightarrow> bytes32 set" where
  "past_loop m past [] = past"
| "past_loop m past (h # queue) =
     (case hm_get (block_store m) h of
        Some blk \<Rightarrow>
          (case visit (parents (header blk)) (past, queue) of
             (past', queue') \<Rightarrow> past_loop m past' queue')
      | None \<Rightarrow> past_loop m past queue)"
  by pat_completeness auto

termination
  by (relation "measure (\<lambda>(m, past, queue). card (UNIV - past) + length queue)")
    (auto simp: visit_measure_case)

definition get_past_set :: "ghostdag_manager \<Rightarrow> bytes32 \<Rightarrow> bytes32 set" where
  "get_past_set m block_hash = past_loop m {} [block_hash]"

function anticone_loop ::
  "ghostdag_manager \<Rightarrow> bytes32 set \<Rightarrow> bytes32 \<Rightarrow> bytes32 list \<Rightarrow> bytes32 set \<Rightarrow>
     bytes32 list \<Rightarrow> bytes32 list"
where
  "anticone_loop m sp_past sp anticone visited [] = anticone"
| "anticone_loop m sp_past sp anticone visited (h # queue) =
     (if h \<notin> sp_past \<and> h \<noteq> sp then
        (let anticone' = push_unique anticone h in
         case hm_get (block_store m) h of
           Some blk \<Rightarrow>
             (case visit (parents (header blk)) (visited, queue) of
                (visited', queue') \<Rightarrow> anticone_loop m sp_past sp anticone' visited' queue')
         | None \<Rightarrow> anticone_loop m sp_past sp anticone' visited queue)
      else anticone_loop m sp_past sp anticone visited queue)"
  by pat_completeness auto

termination
  by (relation "measure (\<lambda>(m, sp_past, sp, anticone, visited, queue).
        card (UNIV - visited) + length queue)")
    (auto simp: visit_measure_case)

definition find_anticone :: "ghostdag_manager \<Rightarrow> velo_block \<Rightarrow> bytes32 \<Rightarrow> bytes32 list" where
  "find_anticone m blk sp =
     (let queue = filter (\<lambda>p. p \<noteq> sp) (parents (header blk)) in
      anticone_loop m (get_past_set m sp) sp [] (set queue) queue)"

section \<open>Colouring\<close>

text \<open>The number of current blues in the anticone of \<open>blue\<close>.\<close>

definition blue_anticone_count :: "ghostdag_manager \<Rightarrow> bytes32 \<Rightarrow> bytes32 list \<Rightarrow> nat" where
  "blue_anticone_count m blue current_blues =
     length (filter (\<lambda>other. other \<noteq> blue \<and> other \<notin> get_past_set m blue \<and>
       blue \<notin> get_past_set m other) current_blues)"

definition can_be_blue :: "ghostdag_manager \<Rightarrow> bytes32 \<Rightarrow> bytes32 list \<Rightarrow> bool" where
  "can_be_blue m candidate current_blues \<longleftrightarrow>
     list_all (\<lambda>blue.
       \<not> (candidate \<notin> get_past_set m blue \<and> blue \<notin> get_past_set m candidate \<and>
          blue \<noteq> candidate \<and> gd_k m \<le> blue_anticone_count m blue current_blues))
       current_blues"

definition colour_step ::
  "ghostdag_manager \<Rightarrow> bytes32 list \<times> bytes32 list \<Rightarrow> bytes32 \<Rightarrow> bytes32 list \<times> bytes32 list"
where
  "colour_step m st candidate =
     (case st of (bs, rs) \<Rightarrow>
        if can_be_blue m candidate bs then (bs @ [candidate], rs) else (bs, rs @ [candidate]))"

definition score_le :: "bytes32 \<times> ghostdag_data \<Rightarrow> bytes32 \<times> ghostdag_data \<Rightarrow> bool" where
  "score_le a b \<longleftrightarrow> blue_score (snd a) \<le> blue_score (snd b)"

definition cached :: "ghostdag_manager \<Rightarrow> bytes32 list \<Rightarrow> (bytes32 \<times> ghostdag_data) list" where
  "cached m hs =
     List.map_filter (\<lambda>h. map_option (\<lambda>d. (h, d)) (ghostdag_cache m h)) hs"

definition find_selected_parent :: "ghostdag_manager \<Rightarrow> velo_block \<Rightarrow> bytes32 option" where
  "find_selected_parent m blk = map_option fst (max_by score_le (cached m (parents (header blk))))"

definition inherited_blues :: "ghostdag_manager \<Rightarrow> bytes32 \<Rightarrow> bytes32 list" where
  "inherited_blues m sp =
     (case ghostdag_cache m sp of
        None \<Rightarrow> []
      | Some sp_data \<Rightarrow> foldl push_unique [sp] (blues sp_data))"

definition calculate_ghostdag_data :: "ghostdag_manager \<Rightarrow> velo_block \<Rightarrow> ghostdag_data" where
  "calculate_ghostdag_data m blk =
     (if parents (header blk) = [] then
        \<lparr>blue_score = 0, selected_parent = None, blues = [], reds = []\<rparr>
      else
        (let sp = find_selected_parent m blk;
             coloured =
               (case sp of
                  None \<Rightarrow> ([], [])
                | Some p \<Rightarrow>
                    foldl (colour_step m) (inherited_blues m p, []) (sort (find_anticone m blk p)));
             parent_blue_score =
               (case sp of
                  None \<Rightarrow> 0
                | Some p \<Rightarrow>
                    (case ghostdag_cache m p of None \<Rightarrow> 0 | Some data \<Rightarrow> blue_score data))
         in \<lparr>blue_score = parent_blue_score + of_nat (length (fst coloured)),
              selected_parent = sp,
              blues = fst coloured,
              reds = snd coloured\<rparr>))"

text \<open>
  How every caller adds a block: the data is computed against the store without the block,
  then both maps are extended (\<^verbatim>\<open>network.rs\<close> and \<^verbatim>\<open>main.rs\<close>).
\<close>

definition dag_insert ::
  "ghostdag_manager \<Rightarrow> bytes32 \<Rightarrow> velo_block \<Rightarrow> ghostdag_manager"
where
  "dag_insert m h blk =
     m\<lparr>block_store := hm_insert h blk (block_store m),
       ghostdag_cache := (ghostdag_cache m)(h \<mapsto> calculate_ghostdag_data m blk)\<rparr>"

end
