(* ===== verification/Dag_Facts.thy ===== *)
theory Dag_Facts
  imports Ghostdag "HOL-Library.Multiset"
begin

text \<open>
  What the searches of the GHOSTDAG manager compute, for every store: the past set is the set
  of proper ancestors, the anticone of the selected parent is the rest of the new block's past.
  Both are instances of the work-list interface.
\<close>

abbreviation ancestry :: "ghostdag_manager \<Rightarrow> (bytes32 \<times> bytes32) set" where
  "ancestry m \<equiv> edges (parents_of m)"

interpretation past_search:
  worklist "parents_of m" "\<lambda>u h. u" "\<lambda>u V. V" "\<lambda>u :: unit. past_loop m" for m
proof
  show "past_loop m V [] = V" for V :: "bytes32 set" by simp
  show "past_loop m V (h # Q) = past_loop m V' Q'"
    if "visit (parents_of m h) (V, Q) = (V', Q')" for h V Q V' Q'
    using that by (auto simp: parents_of_def split: option.splits)
qed

lemma get_past_set_eq: "get_past_set m h = (ancestry m)\<^sup>+ `` {h}"
proof -
  obtain ds where "past_loop m {} [h] = {} \<union> (ancestry m)\<^sup>+ `` set [h]"
    by (rule past_search.loop_reaches [where V = "{}" and Q = "[h]"]) auto
  then show ?thesis by (simp add: get_past_set_def)
qed

lemma mem_past_iff: "x \<in> get_past_set m h \<longleftrightarrow> (h, x) \<in> (ancestry m)\<^sup>+"
  by (simp add: get_past_set_eq)

lemma past_parent: "p \<in> set (parents_of m h) \<Longrightarrow> p \<in> get_past_set m h"
  unfolding mem_past_iff by (rule r_into_trancl) simp

lemma past_trans: "x \<in> get_past_set m y \<Longrightarrow> y \<in> get_past_set m z \<Longrightarrow> x \<in> get_past_set m z"
  unfolding mem_past_iff by (rule trancl_trans)

lemma past_unfold: "get_past_set m h = (\<Union>p \<in> set (parents_of m h). insert p (get_past_set m p))"
  (is "_ = ?r")
proof
  show "get_past_set m h \<subseteq> ?r"
  proof
    fix x assume "x \<in> get_past_set m h"
    then have "(h, x) \<in> (ancestry m)\<^sup>+" by (simp add: mem_past_iff)
    then show "x \<in> ?r" by (cases rule: converse_tranclE) (auto simp: mem_past_iff)
  qed
  show "?r \<subseteq> get_past_set m h"
    using past_parent past_trans by fast
qed

text \<open>Outside the selected parent's past and the parent itself, the filtered search stays.\<close>

definition outside :: "ghostdag_manager \<Rightarrow> bytes32 \<Rightarrow> bytes32 \<Rightarrow> bool" where
  "outside m sp h \<longleftrightarrow> h \<notin> get_past_set m sp \<and> h \<noteq> sp"

definition outside_parents :: "ghostdag_manager \<Rightarrow> bytes32 \<Rightarrow> bytes32 \<Rightarrow> bytes32 list" where
  "outside_parents m sp h = (if outside m sp h then parents_of m h else [])"

definition keep_outside ::
  "ghostdag_manager \<Rightarrow> bytes32 \<Rightarrow> bytes32 list \<Rightarrow> bytes32 \<Rightarrow> bytes32 list"
where
  "keep_outside m sp acc h = (if outside m sp h then push_unique acc h else acc)"

interpretation anticone_search:
  worklist "outside_parents m sp" "keep_outside m sp" "\<lambda>acc V. acc"
    "anticone_loop m (get_past_set m sp) sp" for m sp
proof
  show "anticone_loop m (get_past_set m sp) sp acc V [] = acc" for acc V by simp
  show "anticone_loop m (get_past_set m sp) sp acc V (h # Q) =
      anticone_loop m (get_past_set m sp) sp (keep_outside m sp acc h) V' Q'"
    if "visit (outside_parents m sp h) (V, Q) = (V', Q')" for acc h V Q V' Q'
    using that
    by (auto simp: outside_parents_def keep_outside_def outside_def parents_of_def Let_def
        split: option.splits if_splits)
qed

lemma set_foldl_keep_outside:
  "set (foldl (keep_outside m sp) acc ds) = set acc \<union> {h \<in> set ds. outside m sp h}"
  by (induction ds arbitrary: acc) (auto simp: keep_outside_def)

lemma distinct_foldl_keep_outside:
  "distinct acc \<Longrightarrow> distinct (foldl (keep_outside m sp) acc ds)"
  by (induction ds arbitrary: acc) (auto simp: keep_outside_def)

lemma outside_closed: "outside m sp x \<Longrightarrow> (y, x) \<in> (ancestry m)\<^sup>* \<Longrightarrow> outside m sp y"
  by (auto simp: outside_def mem_past_iff dest: trancl_rtrancl_trancl)
    (auto dest: rtranclD)

lemma outside_path:
  "(y, x) \<in> (ancestry m)\<^sup>* \<Longrightarrow> outside m sp x \<Longrightarrow> (y, x) \<in> (edges (outside_parents m sp))\<^sup>*"
proof (induction rule: converse_rtrancl_induct)
  case base
  then show ?case by simp
next
  case (step y z)
  then have "outside m sp y"
    by (meson converse_rtrancl_into_rtrancl outside_closed)
  then have "(y, z) \<in> edges (outside_parents m sp)"
    using step.hyps(1) by (simp add: outside_parents_def)
  with step show ?case by (auto intro: converse_rtrancl_into_rtrancl)
qed

lemma outside_path_sub: "(edges (outside_parents m sp))\<^sup>* \<subseteq> (ancestry m)\<^sup>*"
  by (rule rtrancl_mono) (auto simp: edges_def outside_parents_def split: if_splits)

lemma find_anticone_set:
  "set (find_anticone m blk sp) =
     (\<Union>p \<in> set (block_parents blk). insert p (get_past_set m p)) - insert sp (get_past_set m sp)"
  (is "_ = ?r")
  and find_anticone_distinct: "distinct (find_anticone m blk sp)"
proof -
  let ?Q = "filter (\<lambda>p. p \<noteq> sp) (block_parents blk)"
  obtain ds where ds: "find_anticone m blk sp = foldl (keep_outside m sp) [] ds"
    "set ds = (edges (outside_parents m sp))\<^sup>* `` set ?Q"
    by (rule anticone_search.loop_reaches [where V = "set ?Q" and Q = ?Q and m = m and sp = sp
        and s = "[]"])
      (auto simp: find_anticone_def Let_def)
  show "distinct (find_anticone m blk sp)"
    by (simp add: ds(1) distinct_foldl_keep_outside)
  have eq: "set (find_anticone m blk sp) = {h \<in> set ds. outside m sp h}"
    by (simp add: ds(1) set_foldl_keep_outside)
  show "set (find_anticone m blk sp) = ?r"
  proof (intro set_eqI iffI)
    fix x assume "x \<in> set (find_anticone m blk sp)"
    then have x: "outside m sp x" "x \<in> (edges (outside_parents m sp))\<^sup>* `` set ?Q"
      using eq ds(2) by auto
    then obtain p where "p \<in> set (block_parents blk)" "(p, x) \<in> (ancestry m)\<^sup>*"
      using outside_path_sub by fastforce
    then show "x \<in> ?r"
      using x(1) by (auto simp: outside_def mem_past_iff rtrancl_eq_or_trancl)
  next
    fix x assume x: "x \<in> ?r"
    then have out: "outside m sp x" by (simp add: outside_def)
    from x obtain p where p: "p \<in> set (block_parents blk)" "(p, x) \<in> (ancestry m)\<^sup>*"
      by (auto simp: mem_past_iff intro: trancl_into_rtrancl)
    have "p \<noteq> sp" using outside_closed [OF out p(2)] by (simp add: outside_def)
    with p(1) have "p \<in> set ?Q" by simp
    with outside_path [OF p(2) out] have "x \<in> set ds" using ds(2) by blast
    with out eq show "x \<in> set (find_anticone m blk sp)" by simp
  qed
qed

section \<open>The selected parent\<close>

interpretation score_order: comparator score_le
  by unfold_locales (auto simp: score_le_def)

section \<open>The colouring loop\<close>

lemma colour_step_simp:
  "colour_step m (bs, rs) c = (if can_be_blue m c bs then (bs @ [c], rs) else (bs, rs @ [c]))"
  by (simp add: colour_step_def)

lemma colour_foldl:
  "foldl (colour_step m) (bs, rs) cs = (bs', rs') \<Longrightarrow>
     \<exists>bn rn. bs' = bs @ bn \<and> rs' = rs @ rn \<and> mset bn + mset rn = mset cs"
proof (induction cs arbitrary: bs rs)
  case Nil
  then show ?case by simp
next
  case (Cons c cs)
  show ?case
  proof (cases "can_be_blue m c bs")
    case True
    with Cons.IH [of "bs @ [c]" rs] Cons.prems
    obtain bn rn where "bs' = (bs @ [c]) @ bn" "rs' = rs @ rn" "mset bn + mset rn = mset cs"
      by (auto simp: colour_step_simp)
    then show ?thesis by (intro exI [of _ "c # bn"] exI [of _ rn]) simp
  next
    case False
    with Cons.IH [of bs "rs @ [c]"] Cons.prems
    obtain bn rn where "bs' = bs @ bn" "rs' = (rs @ [c]) @ rn" "mset bn + mset rn = mset cs"
      by (auto simp: colour_step_simp)
    then show ?thesis by (intro exI [of _ bn] exI [of _ "c # rn"]) simp
  qed
qed

text \<open>
  What the decision guards: a candidate added to the blues leaves every blue that is
  incomparable with it with at most \<open>k\<close> blues in its anticone, the candidate included.
\<close>

lemma blue_anticone_count_snoc:
  "blue_anticone_count m b (bs @ [c]) = blue_anticone_count m b bs +
     (if c \<noteq> b \<and> c \<notin> get_past_set m b \<and> b \<notin> get_past_set m c then 1 else 0)"
  by (simp add: blue_anticone_count_def)

lemma can_be_blue_keeps:
  assumes "can_be_blue m c bs" and "b \<in> set bs" and "blue_anticone_count m b bs \<le> gd_k m"
  shows "blue_anticone_count m b (bs @ [c]) \<le> gd_k m"
  using assms by (auto simp: blue_anticone_count_snoc can_be_blue_def list_all_iff)

end
