(* ===== verification/Dag_Invariant.thy ===== *)
theory Dag_Invariant
  imports Dag_Facts
begin

text \<open>
  The managers the node can build, as an inductive step relation, and what holds of all of
  them: no cycles, no dangling parents, both maps in step, and every cached entry still equal
  to what \<^verbatim>\<open>calculate_ghostdag_data\<close> would return now, although the store has grown since.
\<close>

section \<open>Reachable managers\<close>

text \<open>
  Blocks are added one at a time, under a hash not in the store, after the check that every
  parent is in the store.  The bound on the number of blocks keeps the 64-bit blue score from
  wrapping (\<open>blue_score_bound\<close> below).
\<close>

inductive dag_reachable :: "nat \<Rightarrow> ghostdag_manager \<Rightarrow> bool" for k where
  empty: "dag_reachable k (ghostdag_new k)"
| insert: "dag_reachable k m \<Longrightarrow> hm_get (block_store m) h = None \<Longrightarrow>
    set (block_parents blk) \<subseteq> dom (hm_get (block_store m)) \<Longrightarrow>
    Suc (length (block_store m)) < 2 ^ 32 \<Longrightarrow> dag_reachable k (dag_insert m h blk)"

definition dag_inv :: "ghostdag_manager \<Rightarrow> bool" where
  "dag_inv m \<longleftrightarrow>
     hm_wf (block_store m) \<and>
     length (block_store m) < 2 ^ 32 \<and>
     dom (ghostdag_cache m) = dom (hm_get (block_store m)) \<and>
     (\<forall>h. set (parents_of m h) \<subseteq> dom (hm_get (block_store m))) \<and>
     (\<forall>h. h \<notin> get_past_set m h) \<and>
     (\<forall>h d. ghostdag_cache m h = Some d \<longrightarrow>
        set (blues d) \<union> set (reds d) \<subseteq> get_past_set m h) \<and>
     (\<forall>h blk. hm_get (block_store m) h = Some blk \<longrightarrow>
        ghostdag_cache m h = Some (calculate_ghostdag_data m blk))"

section \<open>Growing the store does not change what is known\<close>

lemma insert_store [simp]:
  "hm_get (block_store (dag_insert m h blk)) x =
     (if x = h then Some blk else hm_get (block_store m) x)"
  by (simp add: dag_insert_def)

lemma insert_cache [simp]:
  "ghostdag_cache (dag_insert m h blk) =
     (ghostdag_cache m)(h \<mapsto> calculate_ghostdag_data m blk)"
  by (simp add: dag_insert_def)

lemma insert_k [simp]: "gd_k (dag_insert m h blk) = gd_k m"
  by (simp add: dag_insert_def)

lemma insert_parents [simp]:
  "parents_of (dag_insert m h blk) x = (if x = h then block_parents blk else parents_of m x)"
  by (simp add: parents_of_def)

lemma trancl_old:
  assumes "\<And>x y. (x, y) \<in> E \<Longrightarrow> y \<noteq> h"
    and "\<And>x y. x \<noteq> h \<Longrightarrow> (x, y) \<in> F \<longleftrightarrow> (x, y) \<in> E" and "x \<noteq> h"
  shows "(x, y) \<in> F\<^sup>+ \<longleftrightarrow> (x, y) \<in> E\<^sup>+"
proof
  assume "(x, y) \<in> F\<^sup>+"
  then have "(x, y) \<in> E\<^sup>+ \<and> y \<noteq> h"
  proof (induction rule: trancl_induct)
    case (base y)
    then show ?case using assms by (metis r_into_trancl)
  next
    case (step y z)
    then show ?case using assms by (metis trancl_into_trancl)
  qed
  then show "(x, y) \<in> E\<^sup>+" by simp
next
  assume "(x, y) \<in> E\<^sup>+"
  then have "(x, y) \<in> F\<^sup>+ \<and> y \<noteq> h"
  proof (induction rule: trancl_induct)
    case (base y)
    then show ?case using assms by (metis r_into_trancl)
  next
    case (step y z)
    then show ?case using assms by (metis trancl_into_trancl)
  qed
  then show "(x, y) \<in> F\<^sup>+" by simp
qed

lemma insert_past:
  assumes "hm_get (block_store m) h = None"
    and "\<forall>x. set (parents_of m x) \<subseteq> dom (hm_get (block_store m))" and "x \<noteq> h"
  shows "get_past_set (dag_insert m h blk) x = get_past_set m x"
proof -
  have "(x, y) \<in> (ancestry (dag_insert m h blk))\<^sup>+ \<longleftrightarrow> (x, y) \<in> (ancestry m)\<^sup>+" for y
    by (rule trancl_old [OF _ _ assms(3)]) (use assms(1,2) in auto)
  then show ?thesis by (auto simp: mem_past_iff)
qed

lemma colour_cong:
  assumes "gd_k m' = gd_k m" and "\<And>x. x \<noteq> h \<Longrightarrow> get_past_set m' x = get_past_set m x"
    and "h \<notin> set bs" and "h \<notin> set cs"
  shows "foldl (colour_step m') (bs, rs) cs = foldl (colour_step m) (bs, rs) cs"
  using assms(3,4)
proof (induction cs arbitrary: bs rs)
  case Nil
  then show ?case by simp
next
  case (Cons c cs)
  have past: "get_past_set m' x = get_past_set m x" if "x \<in> insert c (set bs)" for x
    by (rule assms(2)) (use that Cons.prems in auto)
  have "blue_anticone_count m' b bs = blue_anticone_count m b bs" if "b \<in> set bs" for b
    unfolding blue_anticone_count_def
    by (rule arg_cong [where f = length], rule filter_cong) (use that past in simp_all)
  then have "can_be_blue m' c bs = can_be_blue m c bs"
    unfolding can_be_blue_def list_all_iff using assms(1) past by (intro ball_cong) simp_all
  then show ?case using Cons by (simp add: colour_step_simp)
qed

lemma past_in_store:
  assumes "\<forall>x. set (parents_of m x) \<subseteq> dom (hm_get (block_store m))"
  shows "get_past_set m h \<subseteq> dom (hm_get (block_store m))"
proof
  fix x assume "x \<in> get_past_set m h"
  then have "(h, x) \<in> (ancestry m)\<^sup>+" by (simp add: mem_past_iff)
  then obtain y where "x \<in> set (parents_of m y)" by (cases rule: tranclE) auto
  with assms show "x \<in> dom (hm_get (block_store m))" by blast
qed

lemma find_selected_parent_mem:
  "find_selected_parent m blk = Some p \<Longrightarrow>
     p \<in> set (block_parents blk) \<and> (\<exists>d. ghostdag_cache m p = Some d)"
  by (auto simp: find_selected_parent_def cached_def List.map_filter_def
      dest!: score_order.max_by_Some split: if_splits)

lemma insert_calculate:
  assumes inv: "hm_get (block_store m) h = None"
      "\<forall>x. set (parents_of m x) \<subseteq> dom (hm_get (block_store m))"
    and known: "\<forall>x d. ghostdag_cache m x = Some d \<longrightarrow> set (blues d) \<subseteq> dom (hm_get (block_store m))"
    and par: "set (block_parents b) \<subseteq> dom (hm_get (block_store m))"
  shows "calculate_ghostdag_data (dag_insert m h blk) b = calculate_ghostdag_data m b"
proof -
  let ?m = "dag_insert m h blk"
  have past: "get_past_set ?m x = get_past_set m x" if "x \<noteq> h" for x
    using insert_past inv that by blast
  have fresh: "h \<notin> set (block_parents b)" using inv(1) par by auto
  have "cached ?m ps = cached m ps" if "h \<notin> set ps" for ps
    using that by (induction ps) (auto simp: cached_def List.map_filter_def)
  then have "cached ?m (block_parents b) = cached m (block_parents b)" using fresh .
  then have sp: "find_selected_parent ?m b = find_selected_parent m b"
    by (simp add: find_selected_parent_def)
  have blues: "inherited_blues ?m p = inherited_blues m p" if "p \<noteq> h" for p
    using that by (simp add: inherited_blues_def)
  have anti: "sort (find_anticone ?m b p) = sort (find_anticone m b p)" if "p \<noteq> h" for p
  proof (rule sorted_distinct_set_unique)
    have "get_past_set ?m q = get_past_set m q" if "q \<in> insert p (set (block_parents b))" for q
      by (rule past) (use that fresh \<open>p \<noteq> h\<close> in auto)
    then show "set (sort (find_anticone ?m b p)) = set (sort (find_anticone m b p))"
      by (simp add: find_anticone_set)
  qed (simp_all add: find_anticone_distinct)
  have loop: "foldl (colour_step ?m) (inherited_blues m p, []) (sort (find_anticone m b p)) =
      foldl (colour_step m) (inherited_blues m p, []) (sort (find_anticone m b p))"
    if p: "p \<in> set (block_parents b)" for p
  proof (rule colour_cong [OF insert_k past])
    show "h \<notin> set (inherited_blues m p)"
    proof -
      have "h \<noteq> p" using p fresh by auto
      moreover have "h \<notin> set (blues d)" if "ghostdag_cache m p = Some d" for d
        using known that inv(1) by blast
      ultimately show ?thesis by (simp add: inherited_blues_def split: option.split)
    qed
    have "set (find_anticone m b p) \<subseteq> dom (hm_get (block_store m))"
      using par past_in_store [OF inv(2)] unfolding find_anticone_set by blast
    then show "h \<notin> set (sort (find_anticone m b p))" using inv(1) by auto
  qed
  have mem: "p \<in> set (block_parents b) \<and> p \<noteq> h" if "find_selected_parent m b = Some p" for p
    using find_selected_parent_mem [OF that] fresh by auto
  show ?thesis
    by (cases "find_selected_parent m b")
      (simp_all add: calculate_ghostdag_data_def sp blues anti loop mem)
qed

section \<open>The parts of a block's data\<close>

lemma find_selected_parent_Some:
  assumes "block_parents b \<noteq> []" and "set (block_parents b) \<subseteq> dom (ghostdag_cache m)"
  obtains sp spd where "find_selected_parent m b = Some sp" "sp \<in> set (block_parents b)"
    "ghostdag_cache m sp = Some spd"
    "\<And>p d. p \<in> set (block_parents b) \<Longrightarrow> ghostdag_cache m p = Some d \<Longrightarrow>
       blue_score d \<le> blue_score spd"
proof -
  let ?xs = "cached m (block_parents b)"
  have mem: "(p, d) \<in> set ?xs \<longleftrightarrow> p \<in> set (block_parents b) \<and> ghostdag_cache m p = Some d" for p d
    by (auto simp: cached_def List.map_filter_def image_iff split: if_splits)
  obtain p d where "p \<in> set (block_parents b)" "ghostdag_cache m p = Some d"
    using assms by (cases "block_parents b") auto
  then have "?xs \<noteq> []" using mem by fastforce
  then obtain sp spd where best: "max_by score_le ?xs = Some (sp, spd)"
    by (cases "max_by score_le ?xs") auto
  note this' = score_order.max_by_Some [OF best]
  show thesis
  proof (rule that)
    show "find_selected_parent m b = Some sp" by (simp add: find_selected_parent_def best)
    show "sp \<in> set (block_parents b)" "ghostdag_cache m sp = Some spd"
      using this' mem by auto
    show "blue_score d \<le> blue_score spd"
      if "p \<in> set (block_parents b)" "ghostdag_cache m p = Some d" for p d
      using this' mem [of p d] that by (auto simp: score_le_def)
  qed
qed

lemma calculate_parts:
  assumes "block_parents b \<noteq> []" and "set (block_parents b) \<subseteq> dom (ghostdag_cache m)"
  obtains sp spd bn where "sp \<in> set (block_parents b)" "ghostdag_cache m sp = Some spd"
    "\<And>p d. p \<in> set (block_parents b) \<Longrightarrow> ghostdag_cache m p = Some d \<Longrightarrow>
       blue_score d \<le> blue_score spd"
    "selected_parent (calculate_ghostdag_data m b) = Some sp"
    "blues (calculate_ghostdag_data m b) = foldl push_unique [sp] (blues spd) @ bn"
    "mset bn + mset (reds (calculate_ghostdag_data m b)) = mset (find_anticone m b sp)"
    "blue_score (calculate_ghostdag_data m b) =
       blue_score spd + of_nat (length (blues (calculate_ghostdag_data m b)))"
proof -
  from find_selected_parent_Some [OF assms] obtain sp spd where sp:
    "find_selected_parent m b = Some sp" "sp \<in> set (block_parents b)"
    "ghostdag_cache m sp = Some spd"
    "\<And>p d. p \<in> set (block_parents b) \<Longrightarrow> ghostdag_cache m p = Some d \<Longrightarrow>
       blue_score d \<le> blue_score spd" by metis
  obtain bs rs where col:
    "foldl (colour_step m) (inherited_blues m sp, []) (sort (find_anticone m b sp)) = (bs, rs)"
    by fastforce
  from colour_foldl [OF col] obtain bn where bn: "bs = inherited_blues m sp @ bn"
    "mset bn + mset rs = mset (find_anticone m b sp)" by auto
  have "calculate_ghostdag_data m b =
      \<lparr>blue_score = blue_score spd + of_nat (length bs), selected_parent = Some sp,
       blues = bs, reds = rs\<rparr>"
    using assms(1) sp(1,3) col by (simp add: calculate_ghostdag_data_def)
  then show thesis using that [of sp spd bn] sp bn by (simp add: inherited_blues_def)
qed

lemma calculate_root:
  "block_parents b = [] \<Longrightarrow> calculate_ghostdag_data m b =
     \<lparr>blue_score = 0, selected_parent = None, blues = [], reds = []\<rparr>"
  by (simp add: calculate_ghostdag_data_def)

text \<open>The hashes below a block, whether or not it is in the store.\<close>

definition block_past :: "ghostdag_manager \<Rightarrow> velo_block \<Rightarrow> bytes32 set" where
  "block_past m b = (\<Union>p \<in> set (block_parents b). insert p (get_past_set m p))"

lemma block_past_stored:
  "hm_get (block_store m) h = Some b \<Longrightarrow> get_past_set m h = block_past m b"
  by (subst past_unfold) (simp add: parents_of_def block_past_def)

lemma calculate_in_past:
  assumes "set (block_parents b) \<subseteq> dom (ghostdag_cache m)"
    and known: "\<forall>h d. ghostdag_cache m h = Some d \<longrightarrow>
      set (blues d) \<union> set (reds d) \<subseteq> get_past_set m h"
  shows "set (blues (calculate_ghostdag_data m b)) \<union> set (reds (calculate_ghostdag_data m b))
    \<subseteq> block_past m b"
proof (cases "block_parents b = []")
  case True
  then show ?thesis by (simp add: calculate_root)
next
  case False
  from calculate_parts [OF False assms(1)] obtain sp spd bn where sp:
    "sp \<in> set (block_parents b)" "ghostdag_cache m sp = Some spd"
    "blues (calculate_ghostdag_data m b) = foldl push_unique [sp] (blues spd) @ bn"
    "mset bn + mset (reds (calculate_ghostdag_data m b)) = mset (find_anticone m b sp)"
    by metis
  have "set bn \<union> set (reds (calculate_ghostdag_data m b)) = set (find_anticone m b sp)"
    using arg_cong [OF sp(4), of set_mset] by simp
  also have "\<dots> \<subseteq> block_past m b" by (auto simp: find_anticone_set block_past_def)
  moreover have "insert sp (set (blues spd)) \<subseteq> block_past m b"
    using sp(1,2) known unfolding block_past_def by blast
  ultimately show ?thesis using sp(3) by auto
qed

section \<open>The invariant\<close>

lemma dag_inv_new: "dag_inv (ghostdag_new k)"
proof -
  have "parents_of (ghostdag_new k) = (\<lambda>h. [])"
    by (rule ext) (simp add: parents_of_def ghostdag_new_def)
  then have "ancestry (ghostdag_new k) = {}" by (simp add: edges_def)
  then show ?thesis by (simp add: dag_inv_def ghostdag_new_def parents_of_def get_past_set_eq dom_def)
qed

lemma dag_inv_insert:
  assumes inv: "dag_inv m" and fresh: "hm_get (block_store m) h = None"
    and par: "set (block_parents blk) \<subseteq> dom (hm_get (block_store m))"
    and size: "Suc (length (block_store m)) < 2 ^ 32"
  shows "dag_inv (dag_insert m h blk)"
proof -
  let ?m = "dag_insert m h blk"
  note I = inv [unfolded dag_inv_def]
  have closed: "\<forall>x. set (parents_of m x) \<subseteq> dom (hm_get (block_store m))" using I by blast
  have past: "get_past_set ?m x = get_past_set m x" if "x \<noteq> h" for x
    by (rule insert_past [OF fresh closed that])
  have pne: "p \<noteq> h" if "p \<in> set (block_parents blk)" for p using that par fresh by auto
  have past_h: "get_past_set ?m h = block_past m blk"
    by (simp add: block_past_stored block_past_def past pne)
  have pin: "block_past m blk \<subseteq> dom (hm_get (block_store m))"
    unfolding block_past_def using par past_in_store [OF closed] by blast
  have domc: "dom (ghostdag_cache m) = dom (hm_get (block_store m))" using I by blast
  have known: "\<forall>x d. ghostdag_cache m x = Some d \<longrightarrow>
      set (blues d) \<union> set (reds d) \<subseteq> get_past_set m x" using I by blast
  have known': "\<forall>x d. ghostdag_cache m x = Some d \<longrightarrow>
      set (blues d) \<subseteq> dom (hm_get (block_store m))"
    using known past_in_store [OF closed] by blast
  have calc: "calculate_ghostdag_data ?m b = calculate_ghostdag_data m b"
    if "set (block_parents b) \<subseteq> dom (hm_get (block_store m))" for b
    by (rule insert_calculate [OF fresh closed known' that])
  have parb: "set (block_parents b) \<subseteq> dom (hm_get (block_store m))"
    if "hm_get (block_store m) x = Some b" for x b
    using closed that by (auto simp: parents_of_def dest!: spec [of _ x])
  have "hm_wf (block_store ?m)" using I by (simp add: dag_insert_def hm.wf_put)
  moreover have "length (block_store ?m) < 2 ^ 32"
    using size hm.size_put_fresh [OF _ fresh] I by (simp add: dag_insert_def hm_keys_def)
  moreover have "dom (ghostdag_cache ?m) = dom (hm_get (block_store ?m))"
    using domc by (simp add: dag_insert_def hm.get_put)
  moreover have "set (parents_of ?m x) \<subseteq> dom (hm_get (block_store ?m))" for x
    using closed par by (auto simp: dag_insert_def hm.get_put parents_of_def) 
  moreover have "x \<notin> get_past_set ?m x" for x
    using I past [of x] past_h pin fresh by (cases "x = h") auto
  moreover have "set (blues d) \<union> set (reds d) \<subseteq> get_past_set ?m x"
    if "ghostdag_cache ?m x = Some d" for x d
  proof (cases "x = h")
    case True
    then show ?thesis using that calculate_in_past [OF _ known, of blk] par domc past_h by simp
  next
    case False
    then show ?thesis using that known past by simp
  qed
  moreover have "ghostdag_cache ?m x = Some (calculate_ghostdag_data ?m b)"
    if "hm_get (block_store ?m) x = Some b" for x b
  proof (cases "x = h")
    case True
    then show ?thesis using that calc [OF par] by simp
  next
    case False
    then show ?thesis using that calc [OF parb] I by simp
  qed
  ultimately show ?thesis unfolding dag_inv_def by blast
qed

lemma dag_reachable_inv: "dag_reachable k m \<Longrightarrow> dag_inv m"
  by (induction rule: dag_reachable.induct) (simp_all add: dag_inv_new dag_inv_insert)

lemma dag_reachable_k: "dag_reachable k m \<Longrightarrow> gd_k m = k"
  by (induction rule: dag_reachable.induct) (simp_all add: ghostdag_new_def)

end
