(* ===== verification/Dag_Colouring.thy ===== *)
theory Dag_Colouring
  imports Dag_Invariant
begin

text \<open>
  The blue and red sets and the blue score of the blocks of a reachable manager: the colours
  of a block are disjoint and drawn from its past, the score does not wrap and grows along
  every edge, the anticone of the selected parent is made of blocks incomparable with it.
\<close>

lemma dag_inv_simps:
  assumes "dag_inv m"
  shows "dom (ghostdag_cache m) = dom (hm_get (block_store m))"
    and "h \<notin> get_past_set m h"
    and "set (parents_of m h) \<subseteq> dom (hm_get (block_store m))"
    and "hm_get (block_store m) h = Some b \<Longrightarrow>
      ghostdag_cache m h = Some (calculate_ghostdag_data m b)"
    and "ghostdag_cache m h = Some d \<Longrightarrow> set (blues d) \<union> set (reds d) \<subseteq> get_past_set m h"
    and "length (block_store m) < 2 ^ 32"
    and "hm_wf (block_store m)"
  using assms unfolding dag_inv_def by blast+

lemma past_psubset:
  assumes "dag_inv m" and "x \<in> get_past_set m h"
  shows "get_past_set m x \<subset> get_past_set m h"
  using assms dag_inv_simps(2) [OF assms(1), of x] past_trans [of _ m x h] by blast

lemma past_card:
  assumes "dag_inv m" and "x \<in> get_past_set m h"
  shows "card (get_past_set m x) < card (get_past_set m h)"
  using past_psubset [OF assms] by (rule psubset_card_mono [OF finite])

lemma past_induct [consumes 1, case_names less]:
  assumes "dag_inv m" and "\<And>h. (\<And>x. x \<in> get_past_set m h \<Longrightarrow> P x) \<Longrightarrow> P h"
  shows "P h"
proof (induction "card (get_past_set m h)" arbitrary: h rule: less_induct)
  case less
  show ?case by (rule assms(2)) (rule less.hyps, rule past_card [OF assms(1)])
qed

lemma cached_stored:
  assumes "dag_inv m" and "ghostdag_cache m h = Some d"
  obtains b where "hm_get (block_store m) h = Some b" "d = calculate_ghostdag_data m b"
    "set (block_parents b) \<subseteq> dom (ghostdag_cache m)" "get_past_set m h = block_past m b"
proof -
  obtain b where b: "hm_get (block_store m) h = Some b"
    using assms dag_inv_simps(1) [OF assms(1)] by blast
  show thesis
  proof (rule that [OF b])
    show "d = calculate_ghostdag_data m b"
      using dag_inv_simps(4) [OF assms(1) b] assms(2) by simp
    show "set (block_parents b) \<subseteq> dom (ghostdag_cache m)"
      using dag_inv_simps(1) [OF assms(1)] dag_inv_simps(3) [OF assms(1), of h] b
      by (simp add: parents_of_def)
    show "get_past_set m h = block_past m b" by (rule block_past_stored [OF b])
  qed
qed

lemma mset_eq_sets: "mset xs + mset ys = mset zs \<Longrightarrow> set xs \<union> set ys = set zs"
  by (metis set_mset_mset set_mset_union)

lemma mset_eq_distinct:
  "mset xs + mset ys = mset zs \<Longrightarrow> distinct zs \<Longrightarrow> distinct (xs @ ys)"
  by (metis mset_append mset_eq_imp_distinct_iff)

lemma colours_distinct:
  assumes inv: "dag_inv m" and "ghostdag_cache m h = Some d"
  shows "distinct (blues d @ reds d)"
  using inv assms(2)
proof (induction h arbitrary: d rule: past_induct)
  case (less h)
  from less.prems obtain b where b: "d = calculate_ghostdag_data m b"
    "set (block_parents b) \<subseteq> dom (ghostdag_cache m)" "get_past_set m h = block_past m b"
    by (rule cached_stored [OF inv])
  show ?case
  proof (cases "block_parents b = []")
    case True
    then show ?thesis by (simp add: b calculate_root)
  next
    case False
    from calculate_parts [OF False b(2)] obtain sp spd bn where sp:
      "sp \<in> set (block_parents b)" "ghostdag_cache m sp = Some spd"
      "blues d = foldl push_unique [sp] (blues spd) @ bn"
      "mset bn + mset (reds d) = mset (find_anticone m b sp)"
      unfolding b(1) by metis
    have "sp \<in> get_past_set m h" using sp(1) b(3) by (auto simp: block_past_def)
    then have "distinct (blues spd)" using less.IH sp(2) by simp
    moreover have "distinct (bn @ reds d)"
      using sp(4) find_anticone_distinct by (rule mset_eq_distinct)
    moreover have "set bn \<union> set (reds d) = set (find_anticone m b sp)"
      using sp(4) by (rule mset_eq_sets)
    then have "(set bn \<union> set (reds d)) \<inter> insert sp (set (blues spd)) = {}"
      using dag_inv_simps(5) [OF inv sp(2)] by (auto simp: find_anticone_set)
    ultimately show ?thesis using sp(3) by auto
  qed
qed

text \<open>The data of a block that has parents, in terms of its selected parent's.\<close>

lemma node_parts:
  assumes inv: "dag_inv m" and d: "ghostdag_cache m h = Some d"
    and b: "hm_get (block_store m) h = Some b" and ne: "block_parents b \<noteq> []"
  obtains sp spd bn where "sp \<in> set (block_parents b)" "sp \<in> get_past_set m h"
    "ghostdag_cache m sp = Some spd"
    "\<And>p e. p \<in> set (block_parents b) \<Longrightarrow> ghostdag_cache m p = Some e \<Longrightarrow>
       blue_score e \<le> blue_score spd"
    "selected_parent d = Some sp" "blues d = sp # blues spd @ bn"
    "mset bn + mset (reds d) = mset (find_anticone m b sp)"
    "blue_score d = blue_score spd + of_nat (length (blues d))"
proof -
  from d obtain b' where b': "hm_get (block_store m) h = Some b'" "d = calculate_ghostdag_data m b'"
    "set (block_parents b') \<subseteq> dom (ghostdag_cache m)" "get_past_set m h = block_past m b'"
    by (rule cached_stored [OF inv])
  then have eq: "b' = b" using b by simp
  note B = b' [unfolded eq]
  from calculate_parts [OF ne B(3)] obtain sp spd bn where sp:
    "sp \<in> set (block_parents b)" "ghostdag_cache m sp = Some spd"
    "\<And>p e. p \<in> set (block_parents b) \<Longrightarrow> ghostdag_cache m p = Some e \<Longrightarrow>
       blue_score e \<le> blue_score spd"
    "selected_parent d = Some sp"
    "blues d = foldl push_unique [sp] (blues spd) @ bn"
    "mset bn + mset (reds d) = mset (find_anticone m b sp)"
    "blue_score d = blue_score spd + of_nat (length (blues d))"
    unfolding B(2) by metis
  have past: "sp \<in> get_past_set m h" using sp(1) B(4) by (auto simp: block_past_def)
  have "sp \<notin> set (blues spd)"
    using dag_inv_simps(2,5) [OF inv] sp(2) by blast
  moreover have "distinct (blues spd)" using colours_distinct [OF inv sp(2)] by simp
  ultimately have "foldl push_unique [sp] (blues spd) = sp # blues spd"
    by (subst foldl_push_unique_fresh) auto
  then show thesis using that [OF sp(1) past sp(2,3,4) _ sp(6,7)] sp(5) by simp
qed

lemma node_root:
  assumes inv: "dag_inv m" and d: "ghostdag_cache m h = Some d"
    and b: "hm_get (block_store m) h = Some b" and "block_parents b = []"
  shows "blue_score d = 0" "selected_parent d = None" "blues d = []" "reds d = []"
proof -
  have "d = calculate_ghostdag_data m b" using dag_inv_simps(4) [OF inv b] d by simp
  then show "blue_score d = 0" "selected_parent d = None" "blues d = []" "reds d = []"
    using assms(4) by (simp_all add: calculate_root)
qed

lemma selected_parent_past:
  assumes inv: "dag_inv m" and d: "ghostdag_cache m h = Some d" and sp: "selected_parent d = Some sp"
  shows "sp \<in> get_past_set m h" "\<exists>spd. ghostdag_cache m sp = Some spd"
proof -
  from d obtain b where b: "hm_get (block_store m) h = Some b" by (rule cached_stored [OF inv])
  then have "block_parents b \<noteq> []" using node_root(2) [OF inv d b] sp by auto
  from node_parts [OF inv d b this] sp
  show "sp \<in> get_past_set m h" "\<exists>spd. ghostdag_cache m sp = Some spd" by (metis option.inject)+
qed

section \<open>The blue score\<close>

lemma store_card:
  assumes "dag_inv m"
  shows "card (get_past_set m h) < 2 ^ 32"
proof -
  have "get_past_set m h \<subseteq> dom (hm_get (block_store m))"
    using assms past_in_store unfolding dag_inv_def by blast
  also have "dom (hm_get (block_store m)) = set (hm_keys (block_store m))"
    by (simp add: hm.set_enum)
  finally have "card (get_past_set m h) \<le> length (hm_keys (block_store m))"
    by (meson card_length card_mono finite le_trans)
  then show ?thesis using dag_inv_simps(6) [OF assms] by (simp add: hm_keys_def)
qed

lemma blues_length:
  assumes "dag_inv m" and "ghostdag_cache m h = Some d"
  shows "length (blues d) \<le> card (get_past_set m h)"
proof -
  have "length (blues d) = card (set (blues d))"
    using colours_distinct [OF assms] by (simp add: distinct_card)
  also have "\<dots> \<le> card (get_past_set m h)"
    using dag_inv_simps(5) [OF assms] by (intro card_mono) auto
  finally show ?thesis .
qed

lemma square_step: "a < c \<Longrightarrow> a * a + c \<le> c * c" for a c :: nat
proof -
  assume "a < c"
  then have "a * a \<le> (c - 1) * c" by (intro mult_mono) auto
  also have "\<dots> + c = c * c" using \<open>a < c\<close> by (cases c) auto
  finally show ?thesis by simp
qed

lemma blue_score_bound:
  assumes inv: "dag_inv m" and "ghostdag_cache m h = Some d"
  shows "unat (blue_score d) \<le> card (get_past_set m h) * card (get_past_set m h)"
    and "selected_parent d = Some sp \<Longrightarrow> ghostdag_cache m sp = Some spd \<Longrightarrow>
      unat (blue_score d) = unat (blue_score spd) + length (blues d)"
proof -
  have "unat (blue_score d) \<le> card (get_past_set m h) * card (get_past_set m h) \<and>
      (\<forall>sp spd. selected_parent d = Some sp \<longrightarrow> ghostdag_cache m sp = Some spd \<longrightarrow>
        unat (blue_score d) = unat (blue_score spd) + length (blues d))"
    using inv assms(2)
  proof (induction h arbitrary: d rule: past_induct)
    case (less h)
    from less.prems obtain b where b: "hm_get (block_store m) h = Some b"
      by (rule cached_stored [OF inv])
    let ?c = "\<lambda>h. card (get_past_set m h)"
    show ?case
    proof (cases "block_parents b = []")
      case True
      then show ?thesis using node_root [OF inv less.prems b] by simp
    next
      case False
      from node_parts [OF inv less.prems b False] obtain sp spd bn where sp:
        "sp \<in> get_past_set m h" "ghostdag_cache m sp = Some spd" "selected_parent d = Some sp"
        "blue_score d = blue_score spd + of_nat (length (blues d))" by metis
      have "unat (blue_score spd) \<le> ?c sp * ?c sp" using less.IH [OF sp(1,2)] by simp
      then have "unat (blue_score spd) + length (blues d) \<le> ?c sp * ?c sp + ?c h"
        using blues_length [OF inv less.prems] by (rule add_mono)
      also have "\<dots> \<le> ?c h * ?c h" by (rule square_step [OF past_card [OF inv sp(1)]])
      finally have le: "unat (blue_score spd) + length (blues d) \<le> ?c h * ?c h" .
      have "?c h * ?c h < 2 ^ 32 * 2 ^ 32"
        using store_card [OF inv, of h] by (intro mult_strict_mono) auto
      then have lt: "unat (blue_score spd) + length (blues d) < 2 ^ 64"
        using le by simp
      then have len: "unat (of_nat (length (blues d)) :: u64) = length (blues d)"
        by (simp add: unat_of_nat)
      have "unat (blue_score d) = unat (blue_score spd) + length (blues d)"
        unfolding sp(4) using lt len by (subst unat_add_lem [THEN iffD1]) simp_all
      then show ?thesis using le sp by simp
    qed
  qed
  then show "unat (blue_score d) \<le> card (get_past_set m h) * card (get_past_set m h)"
    and "selected_parent d = Some sp \<Longrightarrow> ghostdag_cache m sp = Some spd \<Longrightarrow>
      unat (blue_score d) = unat (blue_score spd) + length (blues d)" by blast+
qed

lemma blue_score_parent:
  assumes inv: "dag_inv m" and d: "ghostdag_cache m h = Some d"
    and p: "p \<in> set (parents_of m h)" and e: "ghostdag_cache m p = Some e"
  shows "blue_score e < blue_score d"
proof -
  from d obtain b where b: "hm_get (block_store m) h = Some b" by (rule cached_stored [OF inv])
  then have par: "p \<in> set (block_parents b)" using p by (simp add: parents_of_def)
  then have ne: "block_parents b \<noteq> []" by auto
  from node_parts [OF inv d b ne] obtain sp spd bn where sp: "ghostdag_cache m sp = Some spd"
    "blue_score e \<le> blue_score spd" "selected_parent d = Some sp" "blues d = sp # blues spd @ bn"
    using par e by metis
  then have "unat (blue_score e) \<le> unat (blue_score spd)" by (simp add: word_le_nat_alt)
  also have "\<dots> < unat (blue_score d)" using blue_score_bound(2) [OF inv d sp(3,1)] sp(4) by simp
  finally show ?thesis by (simp add: word_less_nat_alt)
qed

lemma blue_score_past:
  assumes inv: "dag_inv m" and d: "ghostdag_cache m h = Some d"
    and x: "x \<in> get_past_set m h" and e: "ghostdag_cache m x = Some e"
  shows "blue_score e < blue_score d"
proof -
  from x have "(h, x) \<in> (ancestry m)\<^sup>+" by (simp add: mem_past_iff)
  then show ?thesis using e
  proof (induction arbitrary: e rule: trancl_induct)
    case (base y)
    then show ?case using blue_score_parent [OF inv d] by simp
  next
    case (step y z)
    have "y \<in> dom (hm_get (block_store m))"
      using step.hyps(2) by (cases "hm_get (block_store m) y") (simp_all add: parents_of_def domIff)
    then obtain f where f: "ghostdag_cache m y = Some f"
      using dag_inv_simps(1) [OF inv] by blast
    have "blue_score e < blue_score f"
      using blue_score_parent [OF inv f] step by simp
    also have "\<dots> < blue_score d" by (rule step.IH [OF f])
    finally show ?case .
  qed
qed

section \<open>The anticone\<close>

text \<open>For a block about to be added: its parents are stored, it is not.\<close>

lemma anticone_incomparable:
  assumes inv: "dag_inv m" and par: "set (block_parents b) \<subseteq> dom (hm_get (block_store m))"
    and sp: "find_selected_parent m b = Some sp" and x: "x \<in> set (find_anticone m b sp)"
  shows "x \<in> block_past m b" "x \<noteq> sp" "x \<notin> get_past_set m sp" "sp \<notin> get_past_set m x"
proof -
  have x': "x \<in> block_past m b" "x \<noteq> sp" "x \<notin> get_past_set m sp"
    using x by (auto simp: find_anticone_set block_past_def)
  then show "x \<in> block_past m b" "x \<noteq> sp" "x \<notin> get_past_set m sp" by auto
  have domc: "dom (ghostdag_cache m) = dom (hm_get (block_store m))"
    by (rule dag_inv_simps(1) [OF inv])
  have "block_parents b \<noteq> []" using find_selected_parent_mem [OF sp] by auto
  from find_selected_parent_Some [OF this, of m] obtain sp' spd where s:
    "find_selected_parent m b = Some sp'" "ghostdag_cache m sp' = Some spd"
    "\<And>p d. p \<in> set (block_parents b) \<Longrightarrow> ghostdag_cache m p = Some d \<Longrightarrow>
       blue_score d \<le> blue_score spd" using par domc by metis
  have spd: "ghostdag_cache m sp = Some spd" using s(1,2) sp by simp
  obtain p where p: "p \<in> set (block_parents b)" "x = p \<or> x \<in> get_past_set m p"
    using x'(1) by (auto simp: block_past_def)
  then obtain pd where pd: "ghostdag_cache m p = Some pd" using par domc by blast
  show "sp \<notin> get_past_set m x"
  proof
    assume "sp \<in> get_past_set m x"
    then have "sp \<in> get_past_set m p" using p(2) past_trans by blast
    from blue_score_past [OF inv pd this spd] s(3) [OF p(1) pd] show False by simp
  qed
qed

end
