(* ===== verification/Linear_Order.thy ===== *)
theory Linear_Order
  imports Dag_Colouring Ledger_Effects
begin

text \<open>
  Ordering, fork choice and ledger replay of \<^verbatim>\<open>vdag-consensus/src/ghostdag.rs\<close>.  The walk down the
  selected-parent chain is a loop the sources do not bound; it is a partial function whose
  result is \<^const>\<open>None\<close> when it does not end, and reachable managers always get a result.
\<close>

section \<open>Definitions\<close>

definition local_set :: "ghostdag_data \<Rightarrow> bytes32 list" where
  "local_set data = sort (blues data @ reds data)"

partial_function (option) linear_loop ::
  "ghostdag_manager \<Rightarrow> bytes32 list \<Rightarrow> bytes32 option \<Rightarrow> bytes32 list option"
where
  "linear_loop m order current =
     (case current of
        None \<Rightarrow> Some order
      | Some h \<Rightarrow>
          (case ghostdag_cache m h of
             Some data \<Rightarrow>
               linear_loop m (push_unique (foldl push_unique order (local_set data)) h)
                 (selected_parent data)
           | None \<Rightarrow> linear_loop m order None))"

definition get_linear_sort :: "ghostdag_manager \<Rightarrow> bytes32 \<Rightarrow> bytes32 list option" where
  "get_linear_sort m tip_hash = map_option rev (linear_loop m [] (Some tip_hash))"

definition referenced_as_parent :: "ghostdag_manager \<Rightarrow> bytes32 set" where
  "referenced_as_parent m =
     set (concat (map (\<lambda>(_, b). block_parents b) (block_store m)))"

definition compute_tips :: "ghostdag_manager \<Rightarrow> bytes32 list" where
  "compute_tips m = filter (\<lambda>h. h \<notin> referenced_as_parent m) (hm_keys (block_store m))"

text \<open>\<^verbatim>\<open>score_a.cmp(score_b).then_with(|| hash_b.cmp(hash_a))\<close>\<close>

definition tip_le :: "bytes32 \<times> u64 \<Rightarrow> bytes32 \<times> u64 \<Rightarrow> bool" where
  "tip_le a b \<longleftrightarrow> snd a < snd b \<or> snd a = snd b \<and> fst b \<le> fst a"

definition scored :: "ghostdag_manager \<Rightarrow> bytes32 list \<Rightarrow> (bytes32 \<times> u64) list" where
  "scored m hs =
     List.map_filter (\<lambda>h. map_option (\<lambda>d. (h, blue_score d)) (ghostdag_cache m h)) hs"

definition select_best_tip :: "ghostdag_manager \<Rightarrow> bytes32 list \<Rightarrow> bytes32 option" where
  "select_best_tip m candidates = map_option fst (max_by tip_le (scored m candidates))"

definition select_canonical_tip :: "ghostdag_manager \<Rightarrow> bytes32 option" where
  "select_canonical_tip m = select_best_tip m (compute_tips m)"

definition replay_step ::
  "digest \<Rightarrow> ghostdag_manager \<Rightarrow> ledger_state \<Rightarrow> bytes32 \<Rightarrow> (ledger_error, ledger_state) result"
where
  "replay_step sha m ledger h =
     (case hm_get (block_store m) h of
        None \<Rightarrow> Inl (MissingBlock h)
      | Some blk \<Rightarrow> ledger_step sha ledger blk)"

definition recompute_ledger ::
  "digest \<Rightarrow> ghostdag_manager \<Rightarrow> bytes32 \<Rightarrow> (ledger_error, ledger_state) result option"
where
  "recompute_ledger sha m tip =
     map_option (try_fold (replay_step sha m) ledger_default) (get_linear_sort m tip)"

definition canonical_block_order :: "ghostdag_manager \<Rightarrow> bytes32 \<Rightarrow> velo_block list option" where
  "canonical_block_order m tip =
     map_option (List.map_filter (hm_get (block_store m))) (get_linear_sort m tip)"

section \<open>Fork choice\<close>

interpretation tip_order: strict_comparator tip_le
  by unfold_locales (auto simp: tip_le_def)

lemma mem_scored:
  "(h, s) \<in> set (scored m hs) \<longleftrightarrow>
     h \<in> set hs \<and> (\<exists>d. ghostdag_cache m h = Some d \<and> blue_score d = s)"
  by (auto simp: scored_def List.map_filter_def image_iff split: if_splits)

lemma set_scored:
  "set (scored m hs) = {(h, s). h \<in> set hs \<and> (\<exists>d. ghostdag_cache m h = Some d \<and> blue_score d = s)}"
  by (auto simp: mem_scored)

lemma select_best_tip_Some:
  assumes "select_best_tip m hs = Some h"
  obtains d where "h \<in> set hs" "ghostdag_cache m h = Some d"
    "\<And>g e. g \<in> set hs \<Longrightarrow> ghostdag_cache m g = Some e \<Longrightarrow>
       blue_score e < blue_score d \<or> blue_score e = blue_score d \<and> h \<le> g"
proof -
  from assms obtain s where s: "max_by tip_le (scored m hs) = Some (h, s)"
    by (auto simp: select_best_tip_def)
  note best = tip_order.max_by_Some [OF s]
  from best obtain d where d: "h \<in> set hs" "ghostdag_cache m h = Some d" "blue_score d = s"
    by (auto simp: mem_scored)
  show thesis
  proof (rule that [OF d(1,2)])
    fix g e assume "g \<in> set hs" "ghostdag_cache m g = Some e"
    then have "(g, blue_score e) \<in> set (scored m hs)" by (simp add: mem_scored)
    with best have "tip_le (g, blue_score e) (h, s)" by blast
    then show "blue_score e < blue_score d \<or> blue_score e = blue_score d \<and> h \<le> g"
      using d(3) by (auto simp: tip_le_def)
  qed
qed

lemma select_best_tip_cong:
  assumes "set hs = set hs'" and "ghostdag_cache m = ghostdag_cache m'"
  shows "select_best_tip m hs = select_best_tip m' hs'"
proof -
  have "set (scored m hs) = set (scored m' hs')" using assms by (simp add: set_scored)
  from tip_order.max_by_set [OF this] show ?thesis by (simp add: select_best_tip_def)
qed

lemma referenced_iff:
  assumes "hm_wf (block_store m)"
  shows "x \<in> referenced_as_parent m \<longleftrightarrow> (\<exists>h. x \<in> set (parents_of m h))"
proof
  assume "x \<in> referenced_as_parent m"
  then obtain h b where hb: "(h, b) \<in> set (block_store m)" "x \<in> set (block_parents b)"
    by (auto simp: referenced_as_parent_def)
  have "x \<in> set (parents_of m h)"
    using hm_mem_get [OF assms hb(1)] hb(2) by (simp add: parents_of_def)
  then show "\<exists>h. x \<in> set (parents_of m h)" by blast
next
  assume "\<exists>h. x \<in> set (parents_of m h)"
  then obtain h where h: "x \<in> set (parents_of m h)" by blast
  then obtain b where b: "hm_get (block_store m) h = Some b" "x \<in> set (block_parents b)"
    by (cases "hm_get (block_store m) h") (simp_all add: parents_of_def)
  from hm_get_mem [OF b(1)] b(2) show "x \<in> referenced_as_parent m"
    by (auto simp: referenced_as_parent_def intro!: bexI)
qed

lemma set_compute_tips:
  "hm_wf (block_store m) \<Longrightarrow> set (compute_tips m) =
     {h \<in> dom (hm_get (block_store m)). \<forall>g. h \<notin> set (parents_of m g)}"
  by (auto simp: compute_tips_def referenced_iff hm.set_enum)

text \<open>Every block is below some tip.\<close>

lemma tip_above:
  assumes inv: "dag_inv m" and h: "h \<in> dom (hm_get (block_store m))"
  shows "\<exists>t \<in> set (compute_tips m). h = t \<or> h \<in> get_past_set m t"
  using h
proof (induction "card (UNIV - get_past_set m h)" arbitrary: h rule: less_induct)
  case less
  show ?case
  proof (cases "\<exists>g. h \<in> set (parents_of m g)")
    case False
    with less.prems have "h \<in> set (compute_tips m)"
      using inv by (simp add: set_compute_tips dag_inv_simps(7))
    then show ?thesis by blast
  next
    case True
    then obtain g where g: "h \<in> set (parents_of m g)" by blast
    then have gs: "g \<in> dom (hm_get (block_store m))"
      by (cases "hm_get (block_store m) g") (simp_all add: parents_of_def domIff)
    have hg: "h \<in> get_past_set m g" by (rule past_parent [OF g])
    have "UNIV - get_past_set m g \<subset> UNIV - get_past_set m h"
      using past_psubset [OF inv hg] by blast
    then have "card (UNIV - get_past_set m g) < card (UNIV - get_past_set m h)"
      by (rule psubset_card_mono [OF finite])
    from less.hyps [OF this gs] show ?thesis using hg past_trans by blast
  qed
qed

section \<open>The linear order\<close>

lemma linear_loop_None [simp]: "linear_loop m order None = Some order"
  by (subst linear_loop.simps) simp

lemma linear_loop_uncached [simp]:
  "ghostdag_cache m h = None \<Longrightarrow> linear_loop m order (Some h) = Some order"
  by (subst linear_loop.simps) simp

lemma linear_loop_cached:
  "ghostdag_cache m h = Some d \<Longrightarrow> linear_loop m order (Some h) =
     linear_loop m (push_unique (foldl push_unique order (local_set d)) h) (selected_parent d)"
  by (subst linear_loop.simps) simp

lemma set_local_set [simp]: "set (local_set d) = set (blues d) \<union> set (reds d)"
  by (simp add: local_set_def)

text \<open>A block's past is its colours and what its selected parent adds.\<close>

lemma past_by_colours:
  assumes inv: "dag_inv m" and d: "ghostdag_cache m h = Some d"
  shows "selected_parent d = None \<Longrightarrow> get_past_set m h = {}"
    and "selected_parent d = Some sp \<Longrightarrow>
      get_past_set m h = set (blues d) \<union> set (reds d) \<union> insert sp (get_past_set m sp)"
proof -
  from d obtain b where b: "hm_get (block_store m) h = Some b" "get_past_set m h = block_past m b"
    by (rule cached_stored [OF inv])
  show "get_past_set m h = {}" if "selected_parent d = None"
  proof (cases "block_parents b = []")
    case True
    then show ?thesis using b by (simp add: block_past_def)
  next
    case False
    from node_parts [OF inv d b(1) False] that show ?thesis by (metis option.distinct(1))
  qed
  assume sp: "selected_parent d = Some sp"
  have ne: "block_parents b \<noteq> []" using node_root(2) [OF inv d b(1)] sp by auto
  from node_parts [OF inv d b(1) ne] sp obtain spd bn where p:
    "sp \<in> set (block_parents b)" "ghostdag_cache m sp = Some spd"
    "blues d = sp # blues spd @ bn"
    "mset bn + mset (reds d) = mset (find_anticone m b sp)" by (metis option.inject)
  have "set bn \<union> set (reds d) = block_past m b - insert sp (get_past_set m sp)"
    using mset_eq_sets [OF p(4)] by (simp add: find_anticone_set block_past_def)
  moreover have "insert sp (get_past_set m sp) \<subseteq> block_past m b"
    using p(1) by (auto simp: block_past_def)
  ultimately show "get_past_set m h = set (blues d) \<union> set (reds d) \<union> insert sp (get_past_set m sp)"
    using b(2) p(3) dag_inv_simps(5) [OF inv p(2)] by auto
qed

lemma linear_loop_total:
  assumes inv: "dag_inv m"
  shows "\<exists>zs. linear_loop m order (Some h) = Some (order @ zs) \<and>
    (ghostdag_cache m h \<noteq> None \<longrightarrow>
       set (order @ zs) = set order \<union> insert h (get_past_set m h)) \<and>
    (distinct order \<longrightarrow> distinct (order @ zs))"
  using inv
proof (induction h arbitrary: order rule: past_induct)
  case (less h)
  show ?case
  proof (cases "ghostdag_cache m h")
    case None
    then show ?thesis by (intro exI [of _ "[]"]) simp
  next
    case (Some d)
    let ?o = "push_unique (foldl push_unique order (local_set d)) h"
    have so: "set ?o = set order \<union> set (blues d) \<union> set (reds d) \<union> {h}" by auto
    have di: "distinct ?o \<longleftrightarrow> distinct order" by simp
    obtain xs where xs: "foldl push_unique order (local_set d) = order @ xs"
      using foldl_push_unique_prefix [of order "local_set d"] by auto
    then have "\<exists>ys. ?o = order @ ys" by (simp add: push_unique_def)
    then obtain ys where ys: "?o = order @ ys" by blast
    have colours: "set (blues d) \<union> set (reds d) \<subseteq> get_past_set m h"
      by (rule dag_inv_simps(5) [OF inv Some])
    show ?thesis
    proof (cases "selected_parent d")
      case None
      have "linear_loop m order (Some h) = Some (order @ ys)"
        using Some None ys by (simp add: linear_loop_cached)
      moreover have "set (order @ ys) = set order \<union> insert h (get_past_set m h)"
        using so past_by_colours(1) [OF inv Some None] colours ys by auto
      ultimately show ?thesis using di ys by auto
    next
      case (Some sp)
      note d = \<open>ghostdag_cache m h = Some d\<close>
      from selected_parent_past [OF inv d Some] obtain spd where
        sp: "sp \<in> get_past_set m h" "ghostdag_cache m sp = Some spd" by blast
      from less.IH [OF sp(1), of ?o] sp(2) obtain zs where zs:
        "linear_loop m ?o (Some sp) = Some (?o @ zs)"
        "set (?o @ zs) = set ?o \<union> insert sp (get_past_set m sp)"
        "distinct ?o \<longrightarrow> distinct (?o @ zs)" by auto
      have "linear_loop m order (Some h) = Some (order @ ys @ zs)"
        using zs(1) ys by (simp add: linear_loop_cached [OF d] Some)
      moreover have "set (order @ ys @ zs) = set order \<union> insert h (get_past_set m h)"
        using zs(2) so past_by_colours(2) [OF inv d Some] ys by auto
      moreover have "distinct order \<longrightarrow> distinct (order @ ys @ zs)"
        using zs(3) di ys by auto
      ultimately show ?thesis by blast
    qed
  qed
qed

lemma get_linear_sort_spec:
  assumes "dag_inv m" and "ghostdag_cache m tip = Some d"
  obtains order where "get_linear_sort m tip = Some order" "distinct order"
    "set order = insert tip (get_past_set m tip)"
proof -
  from linear_loop_total [OF assms(1), of "[]" tip] assms(2) obtain zs where
    "linear_loop m [] (Some tip) = Some zs" "distinct zs" "set zs = insert tip (get_past_set m tip)"
    by auto
  then show thesis by (intro that [of "rev zs"]) (simp_all add: get_linear_sort_def)
qed

text \<open>
  Where the order puts the tip: in front of every block of its own blue and red sets, which
  come last, in descending hash order.
\<close>

lemma get_linear_sort_tip:
  assumes inv: "dag_inv m" and d: "ghostdag_cache m tip = Some d"
  obtains older where
    "get_linear_sort m tip = Some (older @ tip # rev (local_set d))"
    "set older = get_past_set m tip - set (blues d) - set (reds d)"
proof -
  let ?o = "local_set d @ [tip]"
  have dl: "distinct (local_set d)"
    using colours_distinct [OF inv d] by (simp add: local_set_def)
  have nin: "tip \<notin> set (local_set d)"
    using dag_inv_simps(2,5) [OF inv] d by (auto simp: subset_iff)
  have o: "push_unique (foldl push_unique [] (local_set d)) tip = ?o"
    using dl nin by (simp add: foldl_push_unique_fresh push_unique_def)
  obtain zs where zs: "linear_loop m [] (Some tip) = Some (?o @ zs)"
  proof (cases "selected_parent d")
    case None
    then show thesis using that [of "[]"] d o by (simp add: linear_loop_cached)
  next
    case (Some sp)
    then show thesis
      using that linear_loop_total [OF inv, of ?o sp] d o by (auto simp: linear_loop_cached)
  qed
  from linear_loop_total [OF inv, of "[]" tip] zs d
  have all: "set (?o @ zs) = insert tip (get_past_set m tip)" "distinct (?o @ zs)" by auto
  show thesis
  proof (rule that [of "rev zs"])
    show "get_linear_sort m tip = Some (rev zs @ tip # rev (local_set d))"
      using zs by (simp add: get_linear_sort_def)
    show "set (rev zs) = get_past_set m tip - set (blues d) - set (reds d)"
    proof -
      have "insert tip (set (local_set d) \<union> set zs) = insert tip (get_past_set m tip)"
        using all(1) by auto
      moreover have "tip \<notin> set (local_set d) \<union> set zs" using nin all(2) by auto
      moreover have "tip \<notin> get_past_set m tip" by (rule dag_inv_simps(2) [OF inv])
      ultimately have "set (local_set d) \<union> set zs = get_past_set m tip"
        by (metis insert_ident)
      moreover have "set (local_set d) \<inter> set zs = {}" using all(2) by auto
      ultimately show ?thesis by auto
    qed
  qed
qed

end
