(* ===== verification/Replay.thy ===== *)
theory Replay
  imports Linear_Order
begin

text \<open>
  What a replay of the canonical order gives: nodes with the same blocks agree on colours,
  canonical tip, order and ledger, whatever order the blocks arrived in; the replayed ledger's
  supply is what its blocks issue less what they burn; and a replay fails outright when a tip
  that comes first in its own order spends anything.
\<close>

section \<open>Arrival order does not matter\<close>

text \<open>Two managers that hold the same blocks.\<close>

definition same_blocks :: "ghostdag_manager \<Rightarrow> ghostdag_manager \<Rightarrow> bool" where
  "same_blocks m m' \<longleftrightarrow>
     gd_k m = gd_k m' \<and> hm_get (block_store m) = hm_get (block_store m')"

lemma same_parents: "same_blocks m m' \<Longrightarrow> parents_of m = parents_of m'"
  by (rule ext) (simp add: same_blocks_def parents_of_def)

lemma same_past: "same_blocks m m' \<Longrightarrow> get_past_set m = get_past_set m'"
  by (rule ext) (simp add: get_past_set_eq same_parents)

lemma same_colour_step: "same_blocks m m' \<Longrightarrow> colour_step m = colour_step m'"
proof -
  assume same: "same_blocks m m'"
  then have "can_be_blue m = can_be_blue m'"
    using same_past [OF same] same
    by (intro ext) (simp add: can_be_blue_def blue_anticone_count_def same_blocks_def)
  then show "colour_step m = colour_step m'" by (intro ext) (simp add: colour_step_def)
qed

lemma same_anticone:
  assumes "same_blocks m m'"
  shows "sort (find_anticone m b sp) = sort (find_anticone m' b sp)"
  by (rule sorted_distinct_set_unique)
    (simp_all add: find_anticone_set find_anticone_distinct same_past [OF assms])

lemma same_calculate:
  assumes same: "same_blocks m m'"
    and par: "\<And>p. p \<in> set (block_parents b) \<Longrightarrow> ghostdag_cache m p = ghostdag_cache m' p"
  shows "calculate_ghostdag_data m b = calculate_ghostdag_data m' b"
proof -
  have "cached m ps = cached m' ps" if "set ps \<subseteq> set (block_parents b)" for ps
    using that par by (induction ps) (auto simp: cached_def List.map_filter_def)
  then have sp: "find_selected_parent m b = find_selected_parent m' b"
    by (simp add: find_selected_parent_def)
  have mem: "ghostdag_cache m p = ghostdag_cache m' p"
    if "find_selected_parent m' b = Some p" for p
    using find_selected_parent_mem [OF that] par by blast
  then show ?thesis
    by (cases "find_selected_parent m' b")
      (simp_all add: calculate_ghostdag_data_def sp inherited_blues_def same_anticone [OF same]
        same_colour_step [OF same])
qed

lemma same_cache:
  assumes inv: "dag_inv m" "dag_inv m'" and same: "same_blocks m m'"
  shows "ghostdag_cache m = ghostdag_cache m'"
proof
  fix h show "ghostdag_cache m h = ghostdag_cache m' h"
    using inv(1)
  proof (induction h rule: past_induct)
    case (less h)
    show ?case
    proof (cases "hm_get (block_store m) h")
      case None
      then have "h \<notin> dom (ghostdag_cache m)" "h \<notin> dom (ghostdag_cache m')"
        using dag_inv_simps(1) [OF inv(1)] dag_inv_simps(1) [OF inv(2)] same
        by (auto simp: same_blocks_def)
      then show ?thesis by (simp add: domIff)
    next
      case (Some b)
      then have "hm_get (block_store m') h = Some b" using same by (simp add: same_blocks_def)
      moreover have "calculate_ghostdag_data m b = calculate_ghostdag_data m' b"
      proof (rule same_calculate [OF same])
        fix p assume "p \<in> set (block_parents b)"
        then have "p \<in> get_past_set m h" using Some by (auto intro!: past_parent simp: parents_of_def)
        then show "ghostdag_cache m p = ghostdag_cache m' p" by (rule less.IH)
      qed
      ultimately show ?thesis
        using dag_inv_simps(4) [OF inv(1) Some] dag_inv_simps(4) [OF inv(2)] by simp
    qed
  qed
qed

lemma linear_loop_cong:
  assumes inv: "dag_inv m" and eq: "ghostdag_cache m = ghostdag_cache m'"
  shows "linear_loop m order (Some h) = linear_loop m' order (Some h)"
  using inv
proof (induction h arbitrary: order rule: past_induct)
  case (less h)
  show ?case
  proof (cases "ghostdag_cache m h")
    case None
    then show ?thesis using eq by simp
  next
    case (Some d)
    have "linear_loop m o' (selected_parent d) = linear_loop m' o' (selected_parent d)" for o'
      using less.IH selected_parent_past(1) [OF inv Some] by (cases "selected_parent d") auto
    then show ?thesis
      using linear_loop_cached [OF Some] linear_loop_cached [of m' h d] Some eq by simp
  qed
qed

lemma same_order:
  assumes "dag_inv m" "dag_inv m'" "same_blocks m m'"
  shows "get_linear_sort m tip = get_linear_sort m' tip"
  using linear_loop_cong [OF assms(1) same_cache [OF assms]] by (simp add: get_linear_sort_def)

lemma same_canonical_tip:
  assumes inv: "dag_inv m" "dag_inv m'" and same: "same_blocks m m'"
  shows "select_canonical_tip m = select_canonical_tip m'"
  unfolding select_canonical_tip_def
proof (rule select_best_tip_cong)
  show "set (compute_tips m) = set (compute_tips m')"
    using set_compute_tips [OF dag_inv_simps(7) [OF inv(1)]]
      set_compute_tips [OF dag_inv_simps(7) [OF inv(2)]] same same_parents [OF same]
    by (simp add: same_blocks_def)
  show "ghostdag_cache m = ghostdag_cache m'" by (rule same_cache [OF inv same])
qed

lemma same_replay: "same_blocks m m' \<Longrightarrow> replay_step sha m = replay_step sha m'"
  by (intro ext) (simp add: replay_step_def same_blocks_def)

section \<open>Supply of a replayed ledger\<close>

definition stored_block :: "ghostdag_manager \<Rightarrow> bytes32 \<Rightarrow> velo_block" where
  "stored_block m h = the (hm_get (block_store m) h)"

interpretation replay_meter: metered_loop "replay_step sha m" ledger_supply
  "\<lambda>h. block_issue (stored_block m h)" "\<lambda>h. block_burn (stored_block m h)" for sha m
proof
  fix l h l' assume step: "replay_step sha m l h = Inr l'"
  then obtain b where b: "hm_get (block_store m) h = Some b" "ledger_step sha l b = Inr l'"
    by (auto simp: replay_step_def split: option.splits)
  from block_meter.step_total [OF b(2)] b(1)
  show "ledger_supply l' + block_burn (stored_block m h) = ledger_supply l + block_issue (stored_block m h)"
    by (simp add: stored_block_def)
qed

lemma replay_supply:
  assumes inv: "dag_inv m" and d: "ghostdag_cache m tip = Some d"
    and r: "recompute_ledger sha m tip = Some (Inr l)"
  shows "ledger_supply l + (\<Sum>h \<in> insert tip (get_past_set m tip). block_burn (stored_block m h)) =
    (\<Sum>h \<in> insert tip (get_past_set m tip). block_issue (stored_block m h))"
proof -
  from get_linear_sort_spec [OF inv d] obtain order where o:
    "get_linear_sort m tip = Some order" "distinct order" "set order = insert tip (get_past_set m tip)"
    by metis
  have "try_fold (replay_step sha m) ledger_default order = Inr l"
    using r o(1) by (simp add: recompute_ledger_def)
  from replay_meter.loop_total [OF this] show ?thesis
    using o(2) by (simp add: sum_list_distinct_conv_sum_set flip: o(3))
qed

section \<open>A replay that cannot succeed\<close>

lemma commit_first_fails:
  "balances l = Map.empty \<Longrightarrow> \<exists>e. commit_transaction sha m d (scratch_of l) tx = Inl e"
proof -
  assume "balances l = Map.empty"
  then have "\<not> tx_guard sha (scratch_of l) tx" by (simp add: tx_guard_def)
  then have "commit_transaction sha m d (scratch_of l) tx \<noteq> Inr sc" for sc
    by (auto simp: commit_Inr_iff elim: try_apply_Inr)
  then show ?thesis by (cases "commit_transaction sha m d (scratch_of l) tx") auto
qed

lemma first_block_fails:
  assumes "balances l = Map.empty" and "transactions b \<noteq> []"
  shows "\<exists>e. ledger_step sha l b = Inl e"
proof -
  have "ledger_step sha l b \<noteq> Inr l'" for l'
  proof
    assume "ledger_step sha l b = Inr l'"
    then obtain r where r: "apply_block sha l b = (Inr r, l')" by (auto simp: ledger_step_Inr_iff)
    have "block_height b \<noteq> 0" using r assms(2) by (auto simp: apply_block_def split: if_splits)
    from apply_block_Inr [OF r this] obtain sc where
      "try_fold (commit_transaction sha (coinbase_miner_address b) (coinbase_dev_address b))
         (scratch_of l) (transactions b) = Inr sc" by metis
    moreover obtain tx txs where "transactions b = tx # txs"
      using assms(2) by (cases "transactions b") auto
    ultimately show False
      using commit_first_fails [OF assms(1), of sha "coinbase_miner_address b" "coinbase_dev_address b" tx]
      by (auto simp: try_fold_Cons_Inr simp del: try_fold.simps)
  qed
  then show ?thesis by (cases "ledger_step sha l b") auto
qed

lemma recompute_first_fails:
  assumes inv: "dag_inv m" and d: "ghostdag_cache m tip = Some d"
    and b: "hm_get (block_store m) tip = Some b" and txs: "transactions b \<noteq> []"
    and cover: "get_past_set m tip \<subseteq> set (blues d) \<union> set (reds d)"
  shows "\<exists>e. recompute_ledger sha m tip = Some (Inl e)"
proof -
  from get_linear_sort_tip [OF inv d] obtain older where older:
    "get_linear_sort m tip = Some (older @ tip # rev (local_set d))"
    "set older = get_past_set m tip - set (blues d) - set (reds d)" by metis
  from older(2) have "set older = {}" using cover by auto
  then have "older = []" by simp
  obtain e where "ledger_step sha ledger_default b = Inl e"
    using first_block_fails [OF _ txs, of ledger_default] by (auto simp: ledger_default_def)
  then show ?thesis using older(1) b \<open>older = []\<close> by (simp add: recompute_ledger_def replay_step_def)
qed

text \<open>On a chain without side branches every block is in that position.\<close>

definition single_parent_chain :: "ghostdag_manager \<Rightarrow> bytes32 \<Rightarrow> bool" where
  "single_parent_chain m tip \<longleftrightarrow>
     (\<forall>h \<in> insert tip (get_past_set m tip). length (parents_of m h) \<le> 1)"

lemma chain_covered:
  assumes inv: "dag_inv m" and "ghostdag_cache m h = Some d" and "single_parent_chain m h"
  shows "get_past_set m h \<subseteq> set (blues d)"
  using inv assms(2,3)
proof (induction h arbitrary: d rule: past_induct)
  case (less h)
  note d = less.prems(1)
  from d obtain b where b: "hm_get (block_store m) h = Some b" "get_past_set m h = block_past m b"
    by (rule cached_stored [OF inv])
  show ?case
  proof (cases "block_parents b")
    case Nil
    then show ?thesis using b by (simp add: block_past_def)
  next
    case (Cons p ps)
    have "length (block_parents b) \<le> 1"
      using less.prems(2) b by (simp add: single_parent_chain_def parents_of_def)
    with Cons have par: "block_parents b = [p]" by simp
    then have ne: "block_parents b \<noteq> []" by simp
    from node_parts [OF inv d b(1) ne] par obtain spd bn where p: "p \<in> get_past_set m h"
      "ghostdag_cache m p = Some spd" "blues d = p # blues spd @ bn"
      by (metis (no_types, opaque_lifting) empty_iff insert_iff list.set)
    have "single_parent_chain m p"
      using less.prems(2) p(1) past_trans by (auto simp: single_parent_chain_def)
    with less.IH [OF p(1,2)] have "get_past_set m p \<subseteq> set (blues spd)" by simp
    then show ?thesis using b(2) par p(3) by (auto simp: block_past_def)
  qed
qed

end
