(* ===== verification/Dag_Properties.thy ===== *)
theory Dag_Properties
  imports Replay
begin

text \<open>
  The promises of the GHOSTDAG manager, for every manager the node can build, with witnesses on
  a diamond: two blocks on genesis and a third that merges them.
\<close>

section \<open>The example\<close>

definition on_parents :: "bytes32 list \<Rightarrow> velo_block" where
  "on_parents ps =
     \<lparr>header = \<lparr>timestamp = 0, parents = ps, tx_merkle_root = fill 0, nonce = 0, height = 0,
                difficulty_target = fill 255\<rparr>,
      transactions = [], coinbase_miner_address = fill 3, coinbase_miner_output = 0,
      coinbase_dev_address = DEV_TREASURY_ADDRESS, coinbase_dev_output = 0\<rparr>"

lemma on_parents_sel [simp]: "block_parents (on_parents ps) = ps"
  by (simp add: on_parents_def)

definition two_branches :: ghostdag_manager where
  "two_branches = dag_insert (dag_insert (dag_insert (ghostdag_new 3)
     (fill 0) (on_parents [])) (fill 1) (on_parents [fill 0])) (fill 2) (on_parents [fill 0])"

definition diamond :: ghostdag_manager where
  "diamond = dag_insert two_branches (fill 3) (on_parents [fill 1, fill 2])"

lemma two_branches_get [simp]:
  "hm_get (block_store two_branches) x =
     (if x = fill 2 then Some (on_parents [fill 0]) else if x = fill 1 then Some (on_parents [fill 0])
      else if x = fill 0 then Some (on_parents []) else None)"
  by (simp add: two_branches_def ghostdag_new_def)

lemma diamond_get [simp]:
  "hm_get (block_store diamond) x =
     (if x = fill 3 then Some (on_parents [fill 1, fill 2]) else hm_get (block_store two_branches) x)"
  by (simp add: diamond_def)

lemma two_branches_reachable: "dag_reachable 3 two_branches"
  unfolding two_branches_def
  by (intro dag_reachable.intros) (auto simp: ghostdag_new_def dag_insert_def)

lemma diamond_reachable: "dag_reachable 3 diamond"
  unfolding diamond_def
proof (rule dag_reachable.insert [OF two_branches_reachable])
  show "Suc (length (block_store two_branches)) < 2 ^ 32"
    by (simp add: two_branches_def dag_insert_def ghostdag_new_def)
qed auto

lemma diamond_cached:
  assumes "h \<in> {fill 0, fill 1, fill 2, fill 3}"
  obtains d where "ghostdag_cache diamond h = Some d"
proof -
  have "h \<in> dom (hm_get (block_store diamond))" using assms by auto
  then have "h \<in> dom (ghostdag_cache diamond)"
    using dag_inv_simps(1) [OF dag_reachable_inv [OF diamond_reachable]] by simp
  then show thesis using that by blast
qed

section \<open>Ancestry\<close>

text \<open>The breadth-first search for the past set ends on every store and finds exactly the
  proper ancestors: the hashes at the end of a non-empty path of parent pointers.\<close>

theorem past_set_is_ancestry:
  "x \<in> get_past_set m h \<longleftrightarrow> (h, x) \<in> {(c, p). p \<in> set (parents_of m c)}\<^sup>+"
  by (simp add: mem_past_iff edges_def)

text \<open>C27: For a block about to be added to a reachable manager, the anticone search lists, once
  each, exactly the ancestors of the block that are neither the selected parent nor an
  ancestor nor a descendant of it.\<close>

theorem anticone_exact:
  assumes "dag_reachable k m" and "set (block_parents b) \<subseteq> dom (hm_get (block_store m))"
    and "find_selected_parent m b = Some sp"
  shows "distinct (find_anticone m b sp) \<and>
    set (find_anticone m b sp) =
      {x \<in> block_past m b. x \<noteq> sp \<and> x \<notin> get_past_set m sp \<and> sp \<notin> get_past_set m x}"
proof -
  have eq: "set (find_anticone m b sp) = block_past m b - insert sp (get_past_set m sp)"
    by (simp add: find_anticone_set block_past_def)
  have "sp \<notin> get_past_set m x" if "x \<in> set (find_anticone m b sp)" for x
    by (rule anticone_incomparable(4) [OF dag_reachable_inv [OF assms(1)] assms(2,3) that])
  with eq have "set (find_anticone m b sp) =
      {x \<in> block_past m b. x \<noteq> sp \<and> x \<notin> get_past_set m sp \<and> sp \<notin> get_past_set m x}" by blast
  then show ?thesis using find_anticone_distinct by blast
qed

theorem anticone_exact_witness:
  "\<exists>sp. find_selected_parent two_branches (on_parents [fill 1, fill 2]) = Some sp \<and>
     distinct (find_anticone two_branches (on_parents [fill 1, fill 2]) sp)"
proof -
  let ?b = "on_parents [fill 1, fill 2]"
  have par: "set (block_parents ?b) \<subseteq> dom (hm_get (block_store two_branches))" by auto
  have "dom (ghostdag_cache two_branches) = dom (hm_get (block_store two_branches))"
    by (rule dag_inv_simps(1) [OF dag_reachable_inv [OF two_branches_reachable]])
  then obtain sp where sp: "find_selected_parent two_branches ?b = Some sp"
    using find_selected_parent_Some [of ?b two_branches] par by auto
  from anticone_exact [OF two_branches_reachable par sp] sp show ?thesis by blast
qed

section \<open>Colours and scores\<close>

text \<open>C20: What was computed for a block when it arrived is still what would be computed now:
  in a reachable manager the cache holds, for every stored block and for nothing else, the
  data of the block against the whole current store.\<close>

theorem cache_is_current:
  assumes "dag_reachable k m"
  shows "ghostdag_cache m h = map_option (calculate_ghostdag_data m) (hm_get (block_store m) h)"
proof -
  note inv = dag_reachable_inv [OF assms]
  show ?thesis
  proof (cases "hm_get (block_store m) h")
    case None
    then have "h \<notin> dom (ghostdag_cache m)" using dag_inv_simps(1) [OF inv] by auto
    then show ?thesis using None by auto
  next
    case (Some b)
    then show ?thesis using dag_inv_simps(4) [OF inv Some] by simp
  qed
qed

theorem cache_is_current_witness:
  "ghostdag_cache diamond (fill 1) = Some (calculate_ghostdag_data diamond (on_parents [fill 0]))"
  using cache_is_current [OF diamond_reachable, of "fill 1"] by simp

text \<open>C21: Colouring partitions what it has to: the blues and reds of a block are distinct
  ancestors, the blues start with the selected parent and its blues, and together with the
  selected parent's past they make up the whole past of the block.\<close>

theorem colours_partition_past:
  assumes "dag_reachable k m" and "ghostdag_cache m h = Some d"
    and "selected_parent d = Some sp" and "ghostdag_cache m sp = Some spd"
  shows "distinct (blues d @ reds d) \<and>
    get_past_set m h = set (blues d) \<union> set (reds d) \<union> insert sp (get_past_set m sp) \<and>
    take (Suc (length (blues spd))) (blues d) = sp # blues spd \<and>
    set (reds d) \<inter> insert sp (get_past_set m sp) = {}"
proof -
  note inv = dag_reachable_inv [OF assms(1)]
  obtain b where b: "hm_get (block_store m) h = Some b" by (rule cached_stored [OF inv assms(2)])
  have ne: "block_parents b \<noteq> []" using node_root(2) [OF inv assms(2) b] assms(3) by auto
  from node_parts [OF inv assms(2) b ne] assms(3,4) obtain bn where
    "blues d = sp # blues spd @ bn" "mset bn + mset (reds d) = mset (find_anticone m b sp)"
    by (metis option.inject)
  moreover have "set (reds d) \<inter> insert sp (get_past_set m sp) = {}"
    using mset_eq_sets [OF calculation(2)] by (auto simp: find_anticone_set)
  ultimately show ?thesis
    using colours_distinct [OF inv assms(2)] past_by_colours(2) [OF inv assms(2,3)] by simp
qed

theorem colours_partition_past_witness:
  "\<exists>d sp. ghostdag_cache diamond (fill 3) = Some d \<and> selected_parent d = Some sp \<and>
     distinct (blues d @ reds d)"
proof -
  note inv = dag_reachable_inv [OF diamond_reachable]
  obtain d where d: "ghostdag_cache diamond (fill 3) = Some d"
    by (rule diamond_cached [of "fill 3"]) auto
  have b: "hm_get (block_store diamond) (fill 3) = Some (on_parents [fill 1, fill 2])" by simp
  have ne: "block_parents (on_parents [fill 1, fill 2]) \<noteq> []" by simp
  from node_parts [OF inv d b ne] obtain sp spd where
    sp: "selected_parent d = Some sp" "ghostdag_cache diamond sp = Some spd" by metis
  from colours_partition_past [OF diamond_reachable d sp] d sp show ?thesis by blast
qed

text \<open>C28: The decision protects the blues already chosen: colouring any list of candidates
  leaves every blue that had at most \<open>k\<close> blues in its anticone with at most \<open>k\<close>.\<close>

theorem colouring_protects_blues:
  assumes "b \<in> set bs" and "blue_anticone_count m b bs \<le> gd_k m"
  shows "blue_anticone_count m b (fst (foldl (colour_step m) (bs, rs) candidates)) \<le> gd_k m"
  using assms
proof (induction candidates arbitrary: bs rs)
  case Nil
  then show ?case by simp
next
  case (Cons c cs)
  then show ?case by (simp add: colour_step_simp can_be_blue_keeps)
qed

theorem colouring_protects_blues_witness:
  "blue_anticone_count diamond (fill 0)
     (fst (foldl (colour_step diamond) ([fill 0], []) [fill 1, fill 2])) \<le> 3"
  using colouring_protects_blues [of "fill 0" "[fill 0]" diamond "[]" "[fill 1, fill 2]"]
    dag_reachable_k [OF diamond_reachable] by (simp add: blue_anticone_count_def)

text \<open>Blue scores do not wrap, and grow strictly along every path of parent pointers.\<close>

theorem blue_score_grows:
  assumes "dag_reachable k m" and "ghostdag_cache m h = Some d"
    and "x \<in> get_past_set m h" and "ghostdag_cache m x = Some e"
  shows "blue_score e < blue_score d \<and> unat (blue_score d) \<le> (card (get_past_set m h))\<^sup>2"
  using blue_score_past [OF dag_reachable_inv [OF assms(1)] assms(2-4)]
    blue_score_bound(1) [OF dag_reachable_inv [OF assms(1)] assms(2)]
  by (simp add: power2_eq_square)

theorem blue_score_grows_witness:
  "\<exists>d e. ghostdag_cache diamond (fill 3) = Some d \<and> ghostdag_cache diamond (fill 1) = Some e \<and>
     blue_score e < blue_score d"
proof -
  obtain d where d: "ghostdag_cache diamond (fill 3) = Some d"
    by (rule diamond_cached [of "fill 3"]) auto
  obtain e where e: "ghostdag_cache diamond (fill 1) = Some e"
    by (rule diamond_cached [of "fill 1"]) auto
  have "fill 1 \<in> get_past_set diamond (fill 3)" by (rule past_parent) (simp add: parents_of_def)
  from blue_score_grows [OF diamond_reachable d this e] d e show ?thesis by blast
qed

text \<open>A reachable chain of three blocks and a side branch, with \<open>k = 1\<close>.\<close>

definition chain_and_side :: ghostdag_manager where
  "chain_and_side = dag_insert (dag_insert (dag_insert (dag_insert (ghostdag_new 1)
     (fill 0) (on_parents [])) (fill 1) (on_parents [fill 0])) (fill 2) (on_parents [fill 1]))
     (fill 3) (on_parents [fill 0])"

lemma chain_and_side_get [simp]:
  "hm_get (block_store chain_and_side) x =
     (if x = fill 3 then Some (on_parents [fill 0]) else if x = fill 2 then Some (on_parents [fill 1])
      else if x = fill 1 then Some (on_parents [fill 0])
      else if x = fill 0 then Some (on_parents []) else None)"
  by (simp add: chain_and_side_def ghostdag_new_def)

lemma chain_and_side_pasts:
  "get_past_set chain_and_side (fill 0) = {}"
  "get_past_set chain_and_side (fill 1) = {fill 0}"
  "get_past_set chain_and_side (fill 2) = {fill 0, fill 1}"
  "get_past_set chain_and_side (fill 3) = {fill 0}"
  by (auto simp: get_past_set_def)

text \<open>What the decision does not look at: with \<open>k = 1\<close> it accepts a candidate that is itself
  incomparable with two of the current blues, so a blue set may exceed the bound for its
  newest member.  The store is a reachable chain of three blocks and a side branch.\<close>

theorem candidate_anticone_unchecked:
  "dag_reachable 1 chain_and_side \<and>
   can_be_blue chain_and_side (fill 3) [fill 2, fill 1, fill 0] \<and>
   blue_anticone_count chain_and_side (fill 3) [fill 2, fill 1, fill 0] = 2"
proof (intro conjI)
  show "dag_reachable 1 chain_and_side"
    unfolding chain_and_side_def
    by (intro dag_reachable.intros) (auto simp: ghostdag_new_def dag_insert_def)
  have "gd_k chain_and_side = 1" by (simp add: chain_and_side_def ghostdag_new_def)
  then show "can_be_blue chain_and_side (fill 3) [fill 2, fill 1, fill 0]"
    by (simp add: can_be_blue_def blue_anticone_count_def chain_and_side_pasts)
  show "blue_anticone_count chain_and_side (fill 3) [fill 2, fill 1, fill 0] = 2"
    by (simp add: blue_anticone_count_def chain_and_side_pasts)
qed

section \<open>Order and fork choice\<close>

text \<open>C22: The walk that orders the DAG ends for every stored tip, and lists the tip and all its
  ancestors, each once, and nothing else.\<close>

theorem linear_order_complete:
  assumes "dag_reachable k m" and "ghostdag_cache m tip \<noteq> None"
  shows "\<exists>order. get_linear_sort m tip = Some order \<and> distinct order \<and>
    set order = insert tip (get_past_set m tip)"
  using get_linear_sort_spec [OF dag_reachable_inv [OF assms(1)]] assms(2) by blast

theorem linear_order_complete_witness:
  "\<exists>order. get_linear_sort diamond (fill 3) = Some order \<and> distinct order \<and> fill 0 \<in> set order"
proof -
  obtain d where "ghostdag_cache diamond (fill 3) = Some d"
    by (rule diamond_cached [of "fill 3"]) auto
  then have "ghostdag_cache diamond (fill 3) \<noteq> None" by simp
  from linear_order_complete [OF diamond_reachable this] obtain order where
    o: "get_linear_sort diamond (fill 3) = Some order" "distinct order"
    "set order = insert (fill 3) (get_past_set diamond (fill 3))" by blast
  have "fill 1 \<in> get_past_set diamond (fill 3)" "fill 0 \<in> get_past_set diamond (fill 1)"
    by (simp_all add: past_parent parents_of_def)
  then have "fill 0 \<in> set order" using o(3) past_trans by blast
  with o show ?thesis by blast
qed

text \<open>C23: The order is not oldest-first: the tip precedes every block it coloured, and those
  blocks come at the end in descending order of their hashes.\<close>

theorem linear_order_puts_tip_early:
  assumes "dag_reachable k m" and "ghostdag_cache m tip = Some d"
  shows "\<exists>older. get_linear_sort m tip = Some (older @ tip # rev (sort (blues d @ reds d))) \<and>
    set older = get_past_set m tip - set (blues d) - set (reds d)"
  using get_linear_sort_tip [OF dag_reachable_inv [OF assms(1)] assms(2)]
  unfolding local_set_def by metis

theorem linear_order_puts_tip_early_witness:
  "\<exists>older d. ghostdag_cache diamond (fill 3) = Some d \<and>
     get_linear_sort diamond (fill 3) = Some (older @ fill 3 # rev (sort (blues d @ reds d)))"
proof -
  obtain d where d: "ghostdag_cache diamond (fill 3) = Some d"
    by (rule diamond_cached [of "fill 3"]) auto
  from linear_order_puts_tip_early [OF diamond_reachable d] d show ?thesis by blast
qed

text \<open>C7: Fork choice is optimal over the whole DAG, not just its tips: in a reachable manager
  with any block at all the canonical tip exists, nothing points to it, and every stored block
  has a smaller blue score, or the same score and a hash that is not smaller.\<close>

theorem canonical_tip_is_heaviest:
  assumes "dag_reachable k m" and "ghostdag_cache m h = Some e"
  shows "\<exists>t d. select_canonical_tip m = Some t \<and> ghostdag_cache m t = Some d \<and>
    (\<forall>g. t \<notin> set (parents_of m g)) \<and>
    (blue_score e < blue_score d \<or> blue_score e = blue_score d \<and> t \<le> h)"
proof -
  note inv = dag_reachable_inv [OF assms(1)]
  have tips: "set (compute_tips m) =
      {h \<in> dom (hm_get (block_store m)). \<forall>g. h \<notin> set (parents_of m g)}"
    by (rule set_compute_tips [OF dag_inv_simps(7) [OF inv]])
  have "h \<in> dom (hm_get (block_store m))" using assms(2) dag_inv_simps(1) [OF inv] by blast
  from tip_above [OF inv this] obtain t0 where
    t0: "t0 \<in> set (compute_tips m)" "h = t0 \<or> h \<in> get_past_set m t0" by blast
  obtain d0 where d0: "ghostdag_cache m t0 = Some d0"
    using t0(1) tips dag_inv_simps(1) [OF inv] by blast
  have "(t0, blue_score d0) \<in> set (scored m (compute_tips m))"
    using t0(1) d0 by (simp add: mem_scored)
  then have "scored m (compute_tips m) \<noteq> []" by auto
  then obtain t where t: "select_best_tip m (compute_tips m) = Some t"
    by (cases "max_by tip_le (scored m (compute_tips m))") (simp_all add: select_best_tip_def)
  obtain d where best: "t \<in> set (compute_tips m)" "ghostdag_cache m t = Some d"
    "\<And>g e. g \<in> set (compute_tips m) \<Longrightarrow> ghostdag_cache m g = Some e \<Longrightarrow>
       blue_score e < blue_score d \<or> blue_score e = blue_score d \<and> t \<le> g"
    by (rule select_best_tip_Some [OF t]) (rule that)
  have "blue_score e < blue_score d \<or> blue_score e = blue_score d \<and> t \<le> h"
  proof (cases "h = t0")
    case True
    then show ?thesis using best(3) [OF t0(1) d0] d0 assms(2) by simp
  next
    case False
    then have "blue_score e < blue_score d0"
      using t0(2) blue_score_past [OF inv d0 _ assms(2)] by blast
    then show ?thesis using best(3) [OF t0(1) d0] by auto
  qed
  then show ?thesis using t best(1,2) tips by (auto simp: select_canonical_tip_def)
qed

theorem canonical_tip_is_heaviest_witness:
  "\<exists>t. select_canonical_tip diamond = Some t \<and> (\<forall>g. t \<notin> set (parents_of diamond g))"
proof -
  obtain d where d: "ghostdag_cache diamond (fill 3) = Some d"
    by (rule diamond_cached [of "fill 3"]) auto
  from canonical_tip_is_heaviest [OF diamond_reachable d] show ?thesis by blast
qed

end
