(* ===== verification/Pow.thy ===== *)
theory Pow
  imports Block
begin

text \<open>
  Proof of work (\<^verbatim>\<open>vdag-consensus/src/pow.rs\<close>).  The mining loop has no bound in the sources:
  it is a partial function, \<^const>\<open>None\<close> when the loop never ends.  \<^verbatim>\<open>nonce += 1\<close> wraps around
  in a release build, so the loop runs through all \<open>2 ^ 64\<close> nonces.
\<close>

record pow_manager =
  target_difficulty :: bytes32

definition pow_new :: "bytes32 \<Rightarrow> pow_manager" where
  "pow_new target = \<lparr>target_difficulty = target\<rparr>"

definition next_nonce :: "velo_block \<Rightarrow> velo_block" where
  "next_nonce blk = blk\<lparr>header := (header blk)\<lparr>nonce := nonce (header blk) + 1\<rparr>\<rparr>"

partial_function (option) mine_block ::
  "digest \<Rightarrow> pow_manager \<Rightarrow> velo_block \<Rightarrow> (bytes32 \<times> velo_block) option"
where
  "mine_block sha pm blk =
     (let hash = calculate_hash sha blk in
      if hash \<le> target_difficulty pm then Some (hash, blk)
      else mine_block sha pm (next_nonce blk))"

definition verify_pow :: "digest \<Rightarrow> pow_manager \<Rightarrow> velo_block \<Rightarrow> bool" where
  "verify_pow sha pm blk \<longleftrightarrow> calculate_hash sha blk \<le> target_difficulty pm"

section \<open>The loop\<close>

abbreviation with_nonce :: "velo_block \<Rightarrow> u64 \<Rightarrow> velo_block" where
  "with_nonce blk n \<equiv> blk\<lparr>header := (header blk)\<lparr>nonce := n\<rparr>\<rparr>"

lemma mine_block_step:
  "mine_block sha pm blk =
     (if verify_pow sha pm blk then Some (calculate_hash sha blk, blk)
      else mine_block sha pm (next_nonce blk))"
  by (subst mine_block.simps) (simp add: verify_pow_def)

lemma next_nonce_with [simp]: "next_nonce (with_nonce blk n) = with_nonce blk (n + 1)"
  by (simp add: next_nonce_def)

lemma with_nonce_self [simp]: "with_nonce blk (nonce (header blk)) = blk"
  by simp

text \<open>A result is a block that differs in the nonce only and meets the target.\<close>

lemma mine_block_sound:
  assumes "mine_block sha pm blk = Some r"
  shows "verify_pow sha pm (snd r) \<and> fst r = calculate_hash sha (snd r) \<and>
    (\<exists>n. snd r = with_nonce blk n)"
proof (rule mine_block.raw_induct [OF _ assms])
  fix mine sha pm blk r
  assume IH: "\<And>sha pm blk r. mine sha pm blk = Some r \<Longrightarrow>
      verify_pow sha pm (snd r) \<and> fst r = calculate_hash sha (snd r) \<and>
      (\<exists>n. snd r = with_nonce blk n)"
    and body: "(let hash = calculate_hash sha blk in
       if hash \<le> target_difficulty pm then Some (hash, blk)
       else mine sha pm (next_nonce blk)) = Some r"
  show "verify_pow sha pm (snd r) \<and> fst r = calculate_hash sha (snd r) \<and>
      (\<exists>n. snd r = with_nonce blk n)"
  proof (cases "verify_pow sha pm blk")
    case True
    then have "r = (calculate_hash sha blk, blk)" using body by (simp add: verify_pow_def)
    moreover have "\<exists>n. blk = with_nonce blk n"
      by (rule exI [of _ "nonce (header blk)"]) simp
    ultimately show ?thesis using True by simp
  next
    case False
    then have "mine sha pm (next_nonce blk) = Some r" using body by (simp add: verify_pow_def)
    from IH [OF this] show ?thesis by (auto simp: next_nonce_def)
  qed
qed

text \<open>Counting up from a nonce reaches every nonce; the first good one is returned.\<close>

lemma mine_block_finds:
  assumes "\<And>i. i < n \<Longrightarrow> \<not> verify_pow sha pm (with_nonce blk (k + of_nat i))"
    and "verify_pow sha pm (with_nonce blk (k + of_nat n))"
  shows "mine_block sha pm (with_nonce blk k) =
    Some (calculate_hash sha (with_nonce blk (k + of_nat n)), with_nonce blk (k + of_nat n))"
  using assms
proof (induction n arbitrary: k)
  case 0
  then show ?case by (subst mine_block_step) simp
next
  case (Suc n)
  have "\<not> verify_pow sha pm (with_nonce blk k)" using Suc.prems(1) [of 0] by simp
  then have "mine_block sha pm (with_nonce blk k) = mine_block sha pm (with_nonce blk (k + 1))"
    by (subst mine_block_step) simp
  also have "\<dots> = Some (calculate_hash sha (with_nonce blk (k + 1 + of_nat n)),
      with_nonce blk (k + 1 + of_nat n))"
  proof (rule Suc.IH)
    show "\<not> verify_pow sha pm (with_nonce blk (k + 1 + of_nat i))" if "i < n" for i
      using Suc.prems(1) [of "Suc i"] that by (simp add: add.assoc)
    show "verify_pow sha pm (with_nonce blk (k + 1 + of_nat n))"
      using Suc.prems(2) by (simp add: add.assoc)
  qed
  finally show ?case by (simp add: add.assoc)
qed

lemma mine_block_first:
  assumes "verify_pow sha pm (with_nonce blk m)"
  obtains n where "mine_block sha pm blk =
      Some (calculate_hash sha (with_nonce blk (nonce (header blk) + of_nat n)),
        with_nonce blk (nonce (header blk) + of_nat n))"
    "\<And>i. i < n \<Longrightarrow> \<not> verify_pow sha pm (with_nonce blk (nonce (header blk) + of_nat i))"
proof -
  let ?k = "nonce (header blk)"
  let ?good = "\<lambda>i. verify_pow sha pm (with_nonce blk (?k + of_nat i))"
  have "?k + of_nat (unat (m - ?k)) = m" by simp
  then have "?good (unat (m - ?k))" using assms by simp
  then have least: "?good (LEAST i. ?good i)" by (rule LeastI)
  have before: "\<not> ?good i" if "i < (LEAST i. ?good i)" for i
    using that by (rule not_less_Least)
  from mine_block_finds [OF before least] show thesis
    by (intro that [of "LEAST i. ?good i"] before) simp_all
qed

end
