(* ===== verification/Daa.thy ===== *)
theory Daa
  imports Block
begin

text \<open>
  Difficulty adjustment (\<^verbatim>\<open>vdag-consensus/src/daa.rs\<close>).  A window of size zero makes
  \<^verbatim>\<open>window.first().unwrap()\<close> panic; that is the result \<^const>\<open>None\<close>.  The arithmetic is the code's:
  64-bit products that wrap or saturate, a checked 128-bit product.
\<close>

record difficulty_manager =
  target_block_interval :: u64
  window_size :: nat

definition difficulty_new :: "u64 \<Rightarrow> nat \<Rightarrow> difficulty_manager" where
  "difficulty_new interval window =
     \<lparr>target_block_interval = interval, window_size = window\<rparr>"

definition clamp :: "'a::linorder \<Rightarrow> 'a \<Rightarrow> 'a \<Rightarrow> 'a" where
  "clamp x lo hi = (if x < lo then lo else if hi < x then hi else x)"

definition elapsed_time :: "velo_block list \<Rightarrow> u64" where
  "elapsed_time window =
     (let earliest_timestamp = timestamp (header (hd window));
          latest_timestamp = timestamp (header (last window))
      in if latest_timestamp > earliest_timestamp
         then latest_timestamp - earliest_timestamp else 1)"

definition expected_time_safe :: "difficulty_manager \<Rightarrow> u64" where
  "expected_time_safe dm =
     max (target_block_interval dm * (of_nat (window_size dm) - 1)) 1"

definition clamped_elapsed :: "difficulty_manager \<Rightarrow> velo_block list \<Rightarrow> u64" where
  "clamped_elapsed dm window =
     clamp (elapsed_time window) (expected_time_safe dm div 4)
       (saturating_mul (expected_time_safe dm) 4)"

definition scale_target :: "u128 \<Rightarrow> u64 \<Rightarrow> u64 \<Rightarrow> u128" where
  "scale_target target_val elapsed expected =
     (case Option.bind (checked_mul target_val (ucast elapsed))
             (\<lambda>v. checked_div v (ucast expected)) of
        Some v \<Rightarrow> v
      | None \<Rightarrow> target_val)"

definition calculate_next_target ::
  "difficulty_manager \<Rightarrow> velo_block list \<Rightarrow> bytes32 \<Rightarrow> bytes32 option"
where
  "calculate_next_target dm recent_blocks current_target =
     (if length recent_blocks < window_size dm then Some current_target
      else
        (let window = drop (length recent_blocks - window_size dm) recent_blocks in
         if window = [] then None
         else
           (let next_target = with_high16 (scale_target (high16 current_target)
                  (clamped_elapsed dm window) (expected_time_safe dm));
                max_target = fill 255
            in Some (if next_target > max_target then max_target else next_target))))"

section \<open>Its value as a number\<close>

lemma clamp_bounds: "lo \<le> hi \<Longrightarrow> lo \<le> clamp x lo hi \<and> clamp x lo hi \<le> hi"
  by (auto simp: clamp_def)

lemma expected_pos: "1 \<le> unat (expected_time_safe dm)"
proof -
  have "(1::u64) \<le> expected_time_safe dm" by (simp add: expected_time_safe_def)
  then show ?thesis by (simp add: word_le_nat_alt)
qed

lemma unat_div4: "unat (e div 4) = unat e div 4" for e :: u64
  by (simp add: unat_div)

lemma unat_sat4: "unat (saturating_mul e 4) = min (unat e * 4) (2 ^ 64 - 1)" for e :: u64
  by (simp add: unat_saturating_mul)

lemma clamped_bounds:
  "unat (expected_time_safe dm) div 4 \<le> unat (clamped_elapsed dm window) \<and>
   unat (clamped_elapsed dm window) \<le> 4 * unat (expected_time_safe dm)"
proof -
  let ?e = "expected_time_safe dm"
  have "unat ?e div 4 \<le> min (unat ?e * 4) (2 ^ 64 - 1)"
  proof -
    have "unat ?e < 2 ^ 64" by (rule less_le_trans [OF unsigned_less]) simp
    then show ?thesis by (auto simp: min_def)
  qed
  then have "?e div 4 \<le> saturating_mul ?e 4"
    by (simp add: word_le_nat_alt unat_div4 unat_sat4)
  from clamp_bounds [OF this, of "elapsed_time window"]
  show ?thesis
    by (simp add: clamped_elapsed_def word_le_nat_alt unat_div4 unat_sat4)
qed

lemma unat_scale_target:
  assumes "expected \<noteq> 0"
  shows "unat (scale_target t elapsed expected) =
    (if unat t * unat elapsed < 2 ^ 128 then unat t * unat elapsed div unat expected else unat t)"
proof -
  have u: "unat (ucast x :: u128) = unat x" for x :: u64
    by (simp add: unsigned_ucast_eq take_bit_nat_eq_self unsigned_less [THEN less_trans])
  have nz: "(ucast expected :: u128) \<noteq> 0"
    using assms u [of expected] by (metis unsigned_eq_0_iff)
  show ?thesis
  proof (cases "unat t * unat elapsed < 2 ^ 128")
    case True
    then have "checked_mul t (ucast elapsed) = Some (t * ucast elapsed)"
      by (simp add: checked_mul_def u)
    moreover have "unat (t * ucast elapsed) = unat t * unat elapsed"
      using True by (simp add: unat_word_ariths u)
    ultimately show ?thesis
      using True nz by (simp add: scale_target_def checked_div_def unat_div u)
  next
    case False
    then have "checked_mul t (ucast elapsed) = None" by (simp add: checked_mul_def u)
    then show ?thesis using False by (simp add: scale_target_def)
  qed
qed

lemma calculate_next_target_eq:
  assumes "0 < window_size dm" and "window_size dm \<le> length bs"
  shows "calculate_next_target dm bs t =
    Some (with_high16 (scale_target (high16 t)
      (clamped_elapsed dm (drop (length bs - window_size dm) bs)) (expected_time_safe dm)))"
  using assms bytes32_le_fill_max [THEN leD]
  by (simp add: calculate_next_target_def Let_def)

lemma calculate_next_target_nat:
  assumes "0 < window_size dm" and "window_size dm \<le> length bs"
    and c: "c = unat (clamped_elapsed dm (drop (length bs - window_size dm) bs))"
  obtains t' where "calculate_next_target dm bs t = Some t'"
    "unat (high16 t') = (if unat (high16 t) * c < 2 ^ 128
       then unat (high16 t) * c div unat (expected_time_safe dm) else unat (high16 t))"
    "drop 16 (bytes_of t') = replicate 16 255"
proof -
  have "expected_time_safe dm \<noteq> 0" using expected_pos [of dm] by auto
  from unat_scale_target [OF this] show thesis
    using calculate_next_target_eq [OF assms(1,2), of t] c by (intro that) auto
qed

lemma scale_up: "c \<le> k * e \<Longrightarrow> 0 < e \<Longrightarrow> t * c div e \<le> k * t" for t c e k :: nat
proof -
  assume "c \<le> k * e" and e: "0 < e"
  then have "t * c \<le> t * (k * e)" by simp
  then have "t * c div e \<le> t * (k * e) div e" by (rule div_le_mono)
  then show "t * c div e \<le> k * t" using e by (simp add: mult.commute mult.left_commute)
qed

lemma scale_down: "e \<le> k * c \<Longrightarrow> 0 < e \<Longrightarrow> 0 < k \<Longrightarrow> t div k \<le> t * c div e" for t c e k :: nat
proof -
  assume e: "e \<le> k * c" "0 < e" and k: "0 < k"
  have "(t div k) * e \<le> (t div k) * (k * c)" using e by simp
  also have "\<dots> = (t div k * k) * c" by simp
  also have "\<dots> \<le> t * c" by (intro mult_right_mono) simp_all
  finally show "t div k \<le> t * c div e" using e by (simp add: less_eq_div_iff_mult_less_eq)
qed

lemma unat_clamped:
  "unat (clamped_elapsed dm w) =
     max (unat (expected_time_safe dm) div 4)
       (min (min (unat (expected_time_safe dm) * 4) (2 ^ 64 - 1)) (unat (elapsed_time w)))"
proof -
  let ?e = "expected_time_safe dm"
  have "unat ?e < 2 ^ 64" by (rule less_le_trans [OF unsigned_less]) simp
  then show ?thesis
    by (auto simp: clamped_elapsed_def clamp_def word_less_nat_alt unat_div4 unat_sat4 max_def min_def)
qed

lemma elapsed_pos: "1 \<le> unat (elapsed_time w)"
proof -
  have "elapsed_time w \<noteq> 0" by (auto simp: elapsed_time_def Let_def)
  then show ?thesis by (metis One_nat_def Suc_leI unat_gt_0)
qed

lemma clamped_lower: "unat (expected_time_safe dm) \<le> 7 * unat (clamped_elapsed dm w)"
proof -
  let ?e = "unat (expected_time_safe dm)" and ?c = "unat (clamped_elapsed dm w)"
  have "?e div 4 \<le> ?c" by (simp add: unat_clamped)
  moreover have "1 \<le> ?c"
    using elapsed_pos [of w] expected_pos [of dm] by (simp add: unat_clamped)
  moreover have "?e \<le> 4 * (?e div 4) + 3" by linarith
  ultimately show ?thesis by linarith
qed

end
