(* ===== verification/Consensus_Properties.thy ===== *)
theory Consensus_Properties
  imports Dag_Properties Examples Pow Daa
begin

text \<open>
  The promises of ledger replay, mining and difficulty adjustment.
\<close>

section \<open>Agreement\<close>

text \<open>C3: Nodes that hold the same blocks agree, whatever order the blocks arrived in: on every
  block's colours and score, on the canonical tip, on the linear order of every tip, and on the
  ledger and the block sequence obtained from it.\<close>

theorem arrival_order_irrelevant:
  assumes "dag_reachable k m" and "dag_reachable k m'"
    and "hm_get (block_store m) = hm_get (block_store m')"
  shows "ghostdag_cache m = ghostdag_cache m' \<and> select_canonical_tip m = select_canonical_tip m' \<and>
    get_linear_sort m tip = get_linear_sort m' tip \<and>
    recompute_ledger sha m tip = recompute_ledger sha m' tip \<and>
    canonical_block_order m tip = canonical_block_order m' tip"
proof -
  note inv = dag_reachable_inv [OF assms(1)] dag_reachable_inv [OF assms(2)]
  have same: "same_blocks m m'"
    using assms dag_reachable_k by (simp add: same_blocks_def)
  show ?thesis
    using same_cache [OF inv same] same_canonical_tip [OF inv same] same_order [OF inv same]
      same_replay [OF same] assms(3)
    by (simp add: recompute_ledger_def canonical_block_order_def)
qed

definition two_branches' :: ghostdag_manager where
  "two_branches' = dag_insert (dag_insert (dag_insert (ghostdag_new 3)
     (fill 0) (on_parents [])) (fill 2) (on_parents [fill 0])) (fill 1) (on_parents [fill 0])"

theorem arrival_order_irrelevant_witness:
  "block_store two_branches \<noteq> block_store two_branches' \<and>
   select_canonical_tip two_branches = select_canonical_tip two_branches'"
proof
  show "block_store two_branches \<noteq> block_store two_branches'"
    by (simp add: two_branches_def two_branches'_def dag_insert_def ghostdag_new_def)
  have "dag_reachable 3 two_branches'"
    unfolding two_branches'_def
    by (intro dag_reachable.intros) (auto simp: ghostdag_new_def dag_insert_def)
  moreover have "hm_get (block_store two_branches) = hm_get (block_store two_branches')"
    by (rule ext) (simp add: two_branches'_def ghostdag_new_def)
  ultimately show "select_canonical_tip two_branches = select_canonical_tip two_branches'"
    using arrival_order_irrelevant [OF two_branches_reachable] by blast
qed

section \<open>Replaying the ledger\<close>

text \<open>C19: A replay that succeeds counts every block below the tip exactly once: the resulting
  supply plus everything burnt in those blocks is everything they issue.\<close>

theorem replay_counts_every_block_once:
  assumes "dag_reachable k m" and "ghostdag_cache m tip = Some d"
    and "recompute_ledger sha m tip = Some (Inr l)"
  shows "ledger_supply l + (\<Sum>h \<in> insert tip (get_past_set m tip). block_burn (stored_block m h)) =
    (\<Sum>h \<in> insert tip (get_past_set m tip). block_issue (stored_block m h))"
  by (rule replay_supply [OF dag_reachable_inv [OF assms(1)] assms(2,3)])

lemma replay_of_empty_blocks:
  assumes "\<forall>h \<in> set order. \<exists>ps. hm_get (block_store m) h = Some (on_parents ps)"
  shows "try_fold (replay_step sha m) l order = Inr l"
  using assms
  by (induction order) (auto simp: replay_step_def ledger_step_def apply_block_def on_parents_def)

theorem replay_counts_every_block_once_witness:
  "\<exists>l. recompute_ledger checksum diamond (fill 3) = Some (Inr l) \<and> ledger_supply l = 0"
proof -
  obtain d where d: "ghostdag_cache diamond (fill 3) = Some d"
    by (rule diamond_cached [of "fill 3"]) auto
  note inv = dag_reachable_inv [OF diamond_reachable]
  from get_linear_sort_spec [OF inv d] obtain order where order:
    "get_linear_sort diamond (fill 3) = Some order"
    "set order = insert (fill 3) (get_past_set diamond (fill 3))" by metis
  have sub: "insert (fill 3) (get_past_set diamond (fill 3)) \<subseteq> {fill 0, fill 1, fill 2, fill 3}"
  proof -
    have "\<forall>x. set (parents_of diamond x) \<subseteq> dom (hm_get (block_store diamond))"
      using dag_inv_simps(3) [OF inv] by blast
    from past_in_store [OF this] have "get_past_set diamond (fill 3) \<subseteq> dom (hm_get (block_store diamond))" .
    also have "\<dots> \<subseteq> {fill 0, fill 1, fill 2, fill 3}" by (auto simp: dom_def split: if_splits)
    finally show ?thesis by blast
  qed
  have "\<exists>ps. hm_get (block_store diamond) h = Some (on_parents ps)"
    if "h \<in> {fill 0, fill 1, fill 2, fill 3}" for h
    using that by auto
  then have "\<forall>h \<in> set order. \<exists>ps. hm_get (block_store diamond) h = Some (on_parents ps)"
    using sub unfolding order(2) by blast
  then have "try_fold (replay_step checksum diamond) ledger_default order = Inr ledger_default"
    by (rule replay_of_empty_blocks)
  then have r: "recompute_ledger checksum diamond (fill 3) = Some (Inr ledger_default)"
    by (simp add: recompute_ledger_def order(1))
  have "block_issue (stored_block diamond h) = 0" if "h \<in> {fill 0, fill 1, fill 2, fill 3}" for h
    using that by (auto simp: block_issue_def stored_block_def on_parents_def)
  then have "\<forall>h \<in> insert (fill 3) (get_past_set diamond (fill 3)).
      block_issue (stored_block diamond h) = 0"
    using sub by (meson subsetD)
  then have "(\<Sum>h \<in> insert (fill 3) (get_past_set diamond (fill 3)).
      block_issue (stored_block diamond h)) = 0" by (rule sum.neutral)
  with replay_counts_every_block_once [OF diamond_reachable d r]
  have "ledger_supply ledger_default = 0" by linarith
  with r show ?thesis by (intro exI conjI)
qed

text \<open>Heights as validation enforces them: one above the tallest parent, zero without parents.\<close>

definition heights_follow :: "ghostdag_manager \<Rightarrow> bool" where
  "heights_follow m \<longleftrightarrow>
     (\<forall>x b. hm_get (block_store m) x = Some b \<longrightarrow>
        (if block_parents b = [] then block_height b = 0
         else block_height b \<noteq> 0 \<and>
           block_height b = Max ((\<lambda>p. block_height (stored_block m p)) ` set (block_parents b)) + 1))"

text \<open>So every height up to that of a block occurs in its past.\<close>

lemma heights_below:
  assumes inv: "dag_inv m" and hf: "heights_follow m"
  shows "ghostdag_cache m x = Some d \<Longrightarrow> i \<le> unat (block_height (stored_block m x)) \<Longrightarrow>
    \<exists>y \<in> insert x (get_past_set m x). unat (block_height (stored_block m y)) = i"
proof (induction x arbitrary: d rule: past_induct [OF inv])
  case (1 x)
  obtain b where b: "hm_get (block_store m) x = Some b" "get_past_set m x = block_past m b"
    by (rule cached_stored [OF inv 1(2)])
  then have sb: "stored_block m x = b" by (simp add: stored_block_def)
  show ?case
  proof (cases "i = unat (block_height b)")
    case True
    then show ?thesis using sb by auto
  next
    case False
    with 1(3) sb have less: "i < unat (block_height b)" by simp
    then have "block_height b \<noteq> 0" by auto
    with hf b(1) have ne: "block_parents b \<noteq> []"
      and h: "block_height b = Max ((\<lambda>p. block_height (stored_block m p)) ` set (block_parents b)) + 1"
      unfolding heights_follow_def by metis+
    have "Max ((\<lambda>p. block_height (stored_block m p)) ` set (block_parents b)) \<in>
        (\<lambda>p. block_height (stored_block m p)) ` set (block_parents b)"
      using ne by (intro Max_in) auto
    then obtain p where p: "p \<in> set (block_parents b)"
      "block_height b = block_height (stored_block m p) + 1" using h by auto
    then have "unat (block_height b) = Suc (unat (block_height (stored_block m p)))"
      using \<open>block_height b \<noteq> 0\<close> unatSuc [of "block_height (stored_block m p)"] by (simp add: add.commute)
    with less have le: "i \<le> unat (block_height (stored_block m p))" by simp
    have past: "p \<in> get_past_set m x" "get_past_set m p \<subseteq> get_past_set m x"
      using p(1) b(2) by (auto simp: block_past_def)
    have "p \<in> dom (hm_get (block_store m))"
      using p(1) b(1) dag_inv_simps(3) [OF inv, of x] by (auto simp: parents_of_def)
    then obtain dp where "ghostdag_cache m p = Some dp" using dag_inv_simps(4) [OF inv] by blast
    from 1(1) [OF past(1) this le] past show ?thesis by auto
  qed
qed

text \<open>C17: The emission schedule bounds the supply of a chain, not of a DAG: blocks that compete for
  one height all pay as soon as a later block names both branches as parents.  If two different
  blocks of one height lie at or below a tip, then a replay of that tip that succeeds has issued
  at least the whole schedule up to the height of the tip, and the subsidy of that height a second
  time, whatever was burnt in fees.\<close>

theorem merged_branches_overpay:
  assumes "dag_reachable k m" and "heights_follow m" and "ghostdag_cache m tip = Some d"
    and "recompute_ledger sha m tip = Some (Inr l)"
    and "x \<in> insert tip (get_past_set m tip)" and "y \<in> insert tip (get_past_set m tip)" and "x \<noteq> y"
    and "block_height (stored_block m x) = block_height (stored_block m y)"
    and "block_height (stored_block m x) \<noteq> 0"
  shows "(\<Sum>i = 1..unat (block_height (stored_block m tip)). emission_at i) +
      emission_at (unat (block_height (stored_block m x)))
    \<le> ledger_supply l + (\<Sum>h \<in> insert tip (get_past_set m tip). block_burn (stored_block m h))"
proof -
  let ?S = "insert tip (get_past_set m tip)" and ?n = "unat (block_height (stored_block m tip))"
  let ?h = "\<lambda>z. unat (block_height (stored_block m z))"
  note inv = dag_reachable_inv [OF assms(1)]
  have "\<exists>f. \<forall>i \<in> {1..?n}. f i \<in> ?S \<and> ?h (f i) = i"
    using heights_below [OF inv assms(2,3)] by (intro bchoice) force
  then obtain f where f: "\<And>i. i \<in> {1..?n} \<Longrightarrow> f i \<in> ?S \<and> ?h (f i) = i" by blast
  obtain z where z: "z \<in> ?S" "?h z = ?h x" "z \<notin> f ` {1..?n}"
  proof (cases "x \<in> f ` {1..?n}")
    case True
    then have "f (?h x) = x" using f by auto
    have "y \<notin> f ` {1..?n}"
    proof
      assume "y \<in> f ` {1..?n}"
      then have "f (?h y) = y" using f by auto
      with \<open>f (?h x) = x\<close> assms(7,8) show False by simp
    qed
    then show ?thesis using that [of y] assms(6,8) by simp
  next
    case False
    then show ?thesis using that [of x] assms(5) by simp
  qed
  have fin: "finite ?S"
  proof -
    have "finite (dom (hm_get (block_store m)))" by (simp add: hm_get_def finite_dom_map_of)
    moreover have "\<forall>x. set (parents_of m x) \<subseteq> dom (hm_get (block_store m))"
      using dag_inv_simps(3) [OF inv] by blast
    ultimately show ?thesis using finite_subset [OF past_in_store] by simp
  qed
  have issue: "block_issue (stored_block m c) = emission_at (?h c)" if "?h c \<noteq> 0" for c
    using that by (auto simp: block_issue_def subsidy_total_eq)
  have "inj_on f {1..?n}" using f by (intro inj_on_inverseI [of _ ?h]) auto
  then have "(\<Sum>c \<in> f ` {1..?n}. block_issue (stored_block m c)) = (\<Sum>i = 1..?n. emission_at i)"
    using f issue by (simp add: sum.reindex)
  moreover have "block_issue (stored_block m z) = emission_at (?h x)" 
    using issue [of z] z(2) assms(9) by (simp add: unat_gt_0)
  moreover have sub: "insert z (f ` {1..?n}) \<subseteq> ?S" using z(1) f by blast
  moreover have "(\<Sum>c \<in> insert z (f ` {1..?n}). block_issue (stored_block m c)) \<le>
      (\<Sum>c \<in> ?S. block_issue (stored_block m c))"
    by (rule sum_mono2 [OF fin sub]) simp
  ultimately have "(\<Sum>i = 1..?n. emission_at i) + emission_at (?h x) \<le>
      (\<Sum>c \<in> ?S. block_issue (stored_block m c))"
    using z(3) by simp
  then show ?thesis using replay_supply [OF inv assms(3,4)] by simp
qed

text \<open>The example: two blocks of height one, and a block of height two that names both.\<close>

definition paid_block :: "address \<Rightarrow> nat \<Rightarrow> block_hash list \<Rightarrow> velo_block" where
  "paid_block a h ps = (block_of (of_nat h) [])
     \<lparr>coinbase_miner_address := a, header := (header (block_of (of_nat h) []))\<lparr>parents := ps\<rparr>\<rparr>"

definition paid_diamond :: ghostdag_manager where
  "paid_diamond = dag_insert (dag_insert (dag_insert (dag_insert (ghostdag_new 3)
     (fill 0) (on_parents [])) (fill 1) (paid_block alice 1 [fill 0]))
     (fill 2) (paid_block bob 1 [fill 0])) (fill 3) (paid_block alice 2 [fill 1, fill 2])"

lemma paid_block_sels [simp]:
  "block_parents (paid_block a h ps) = ps" "block_height (paid_block a h ps) = of_nat h"
  "transactions (paid_block a h ps) = []" "coinbase_dev_address (paid_block a h ps) = DEV_TREASURY_ADDRESS"
  "verify_coinbase_rewards (paid_block a h ps)"
  by (simp_all add: paid_block_def block_of_def verify_coinbase_rewards_def split_beta)

lemma paid_diamond_get [simp]:
  "hm_get (block_store paid_diamond) h =
     (if h = fill 3 then Some (paid_block alice 2 [fill 1, fill 2])
      else if h = fill 2 then Some (paid_block bob 1 [fill 0])
      else if h = fill 1 then Some (paid_block alice 1 [fill 0])
      else if h = fill 0 then Some (on_parents []) else None)"
  by (simp add: paid_diamond_def ghostdag_new_def)

text \<open>A replay of blocks without transactions and with the right coinbases succeeds.\<close>

lemma paid_replay:
  assumes "\<forall>h \<in> set order. \<exists>b. hm_get (block_store m) h = Some b \<and>
      (b = on_parents [] \<or> transactions b = [] \<and> verify_coinbase_rewards b \<and> block_height b \<noteq> 0 \<and>
         coinbase_dev_address b = DEV_TREASURY_ADDRESS)"
    and "ledger_supply l + 83238 * length order < 2 ^ 64"
  shows "\<exists>l'. try_fold (replay_step sha m) l order = Inr l'"
  using assms
proof (induction order arbitrary: l)
  case (Cons h order)
  from Cons.prems(1) obtain b where b: "hm_get (block_store m) h = Some b"
    "b = on_parents [] \<or> transactions b = [] \<and> verify_coinbase_rewards b \<and> block_height b \<noteq> 0 \<and>
       coinbase_dev_address b = DEV_TREASURY_ADDRESS" by auto
  have "\<exists>l1. apply_block sha l b = (Inr (), l1) \<and> ledger_supply l1 \<le> ledger_supply l + 83238"
  proof (cases "b = on_parents []")
    case True
    then show ?thesis by (simp add: apply_block_def on_parents_def)
  next
    case False
    with b(2) have e: "transactions b = []" "verify_coinbase_rewards b" "block_height b \<noteq> 0"
      "coinbase_dev_address b = DEV_TREASURY_ADDRESS" by auto
    obtain l1 where l1: "apply_block sha l b = (Inr (), l1)"
      using apply_block_fits [OF e(2,4,3), of l sha "scratch_of l"] e(1) Cons.prems(2) by auto
    have "ledger_supply l1 \<le> ledger_supply l + 83238"
      using apply_block_supply [OF l1] subsidy_total_le [of "block_height b"]
      by (simp add: block_issue_def split: if_splits)
    with l1 show ?thesis by blast
  qed
  then obtain l1 where l1: "apply_block sha l b = (Inr (), l1)" "ledger_supply l1 \<le> ledger_supply l + 83238"
    by blast
  have "\<exists>l'. try_fold (replay_step sha m) l1 order = Inr l'"
    by (rule Cons.IH) (use Cons.prems l1(2) in auto)
  then show ?case
  proof -
    have "replay_step sha m l h = Inr l1" by (simp add: replay_step_def ledger_step_def b(1) l1(1))
    then show ?thesis using \<open>\<exists>l'. try_fold (replay_step sha m) l1 order = Inr l'\<close> by simp
  qed
qed simp

theorem merged_branches_overpay_witness:
  "\<exists>l. recompute_ledger checksum paid_diamond (fill 3) = Some (Inr l) \<and>
     emission_at 1 + emission_at 2 + emission_at 1 \<le> ledger_supply l"
proof -
  have reach: "dag_reachable 3 paid_diamond"
    unfolding paid_diamond_def
    by (intro dag_reachable.insert dag_reachable.empty)
      (simp_all add: ghostdag_new_def dag_insert_def hm_insert_fresh on_parents_def, simp_all add: hm_get_def dom_def)
  note inv = dag_reachable_inv [OF reach]
  have heights: "heights_follow paid_diamond"
    by (auto simp: heights_follow_def stored_block_def on_parents_def split: if_splits)
  obtain d where d: "ghostdag_cache paid_diamond (fill 3) = Some d"
    using dag_inv_simps(4) [OF inv, of "fill 3"] by auto
  from get_linear_sort_spec [OF inv d] obtain order where order:
    "get_linear_sort paid_diamond (fill 3) = Some order" "distinct order"
    "set order = insert (fill 3) (get_past_set paid_diamond (fill 3))" by metis
  have past: "fill 1 \<in> get_past_set paid_diamond (fill 3)" "fill 2 \<in> get_past_set paid_diamond (fill 3)"
    by (subst past_unfold, simp add: parents_of_def)+
  have "\<forall>x. set (parents_of paid_diamond x) \<subseteq> dom (hm_get (block_store paid_diamond))"
    using dag_inv_simps(3) [OF inv] by blast
  from past_in_store [OF this, of "fill 3"]
  have sub: "insert (fill 3) (get_past_set paid_diamond (fill 3)) \<subseteq> {fill 0, fill 1, fill 2, fill 3}"
    by (auto simp: dom_def split: if_splits)
  then have "card (set order) \<le> card {fill 0, fill 1, fill 2, fill 3 :: bytes32}"
    unfolding order(3) by (intro card_mono) auto
  then have len: "length order \<le> 4" using distinct_card [OF order(2)] by simp
  have good: "\<exists>b. hm_get (block_store paid_diamond) h = Some b \<and>
      (b = on_parents [] \<or> transactions b = [] \<and> verify_coinbase_rewards b \<and> block_height b \<noteq> 0 \<and>
         coinbase_dev_address b = DEV_TREASURY_ADDRESS)" if "h \<in> {fill 0, fill 1, fill 2, fill 3}" for h
    using that by auto
  have "\<exists>l. try_fold (replay_step checksum paid_diamond) ledger_default order = Inr l"
  proof (rule paid_replay)
    show "\<forall>h \<in> set order. \<exists>b. hm_get (block_store paid_diamond) h = Some b \<and>
      (b = on_parents [] \<or> transactions b = [] \<and> verify_coinbase_rewards b \<and> block_height b \<noteq> 0 \<and>
         coinbase_dev_address b = DEV_TREASURY_ADDRESS)"
      using good sub unfolding order(3) by blast
  qed (use len in simp)
  then obtain l where l: "recompute_ledger checksum paid_diamond (fill 3) = Some (Inr l)"
    by (auto simp: recompute_ledger_def order(1))
  have burn: "(\<Sum>h \<in> insert (fill 3) (get_past_set paid_diamond (fill 3)).
      block_burn (stored_block paid_diamond h)) = 0"
  proof (rule sum.neutral, rule ballI)
    fix h assume "h \<in> insert (fill 3) (get_past_set paid_diamond (fill 3))"
    with sub have "h \<in> {fill 0, fill 1, fill 2, fill 3}" by blast
    then show "block_burn (stored_block paid_diamond h) = 0"
      by (auto simp: block_burn_def stored_block_def on_parents_def)
  qed
  have tip: "unat (block_height (stored_block paid_diamond (fill 3))) = 2"
    and one: "unat (block_height (stored_block paid_diamond (fill 1))) = 1" by (simp_all add: stored_block_def)
  have "{1..2} = {1, 2 :: nat}" by auto
  moreover have "(\<Sum>i = 1..2. emission_at i) + emission_at 1 \<le> ledger_supply l + 0"
    using merged_branches_overpay [OF reach heights d l, of "fill 1" "fill 2"] past
    unfolding burn tip one by (simp add: stored_block_def)
  ultimately have "emission_at 1 + emission_at 2 + emission_at 1 \<le> ledger_supply l" by simp
  with l show ?thesis by blast
qed

text \<open>C24: On a chain without side branches, the replay from any block that contains a
  transaction fails: the tip comes first in its own order, so its first sender has no funds
  yet, however well funded the sender is by the blocks below.\<close>

theorem replay_fails_on_spending_tip:
  assumes "dag_reachable k m" and "single_parent_chain m tip"
    and "hm_get (block_store m) tip = Some b" and "transactions b \<noteq> []"
  shows "\<exists>e. recompute_ledger sha m tip = Some (Inl e)"
proof -
  note inv = dag_reachable_inv [OF assms(1)]
  from dag_inv_simps(4) [OF inv assms(3)] obtain d where d: "ghostdag_cache m tip = Some d" by blast
  have "get_past_set m tip \<subseteq> set (blues d) \<union> set (reds d)"
    using chain_covered [OF inv d assms(2)] by blast
  from recompute_first_fails [OF inv d assms(3,4) this] show ?thesis .
qed

text \<open>The example: alice mines block one and pays bob in block two.\<close>

definition mined_by_alice :: velo_block where
  "mined_by_alice = (block_of 1 [])
     \<lparr>coinbase_miner_address := alice,
      header := (header (block_of 1 []))\<lparr>parents := [fill 0]\<rparr>\<rparr>"

definition spent_by_alice :: velo_block where
  "spent_by_alice = (block_of 2 [pay_bob])
     \<lparr>header := (header (block_of 2 []))\<lparr>parents := [fill 1]\<rparr>\<rparr>"

definition spending_chain :: ghostdag_manager where
  "spending_chain = dag_insert (dag_insert (dag_insert (ghostdag_new 3)
     (fill 0) (on_parents [])) (fill 1) mined_by_alice) (fill 2) spent_by_alice"

lemma spending_blocks [simp]:
  "block_parents mined_by_alice = [fill 0]" "block_parents spent_by_alice = [fill 1]"
  "block_height mined_by_alice = 1" "block_height spent_by_alice = 2"
  "transactions mined_by_alice = []" "transactions spent_by_alice = [pay_bob]"
  "coinbase_miner_address mined_by_alice = alice"
  "coinbase_miner_address spent_by_alice = carol"
  "coinbase_dev_address mined_by_alice = DEV_TREASURY_ADDRESS"
  "coinbase_dev_address spent_by_alice = DEV_TREASURY_ADDRESS"
  "coinbase_miner_output mined_by_alice = 79077"
  "coinbase_dev_output mined_by_alice = 4161"
  "verify_coinbase_rewards mined_by_alice" "verify_coinbase_rewards spent_by_alice"
  by (simp_all add: mined_by_alice_def spent_by_alice_def block_of_def verify_coinbase_rewards_def
      split_beta calculate_subsidy_split_def apply_dev_tax_split_def emission_consts Let_def)

lemma spending_chain_get [simp]:
  "hm_get (block_store spending_chain) x =
     (if x = fill 2 then Some spent_by_alice else if x = fill 1 then Some mined_by_alice
      else if x = fill 0 then Some (on_parents []) else None)"
  by (simp add: spending_chain_def ghostdag_new_def)

lemma spending_chain_reachable: "dag_reachable 3 spending_chain"
  unfolding spending_chain_def
  by (intro dag_reachable.intros) (auto simp: ghostdag_new_def dag_insert_def)

lemma spending_chain_single: "single_parent_chain spending_chain h"
  by (simp add: single_parent_chain_def parents_of_def)

lemma spending_applies:
  "\<exists>l. try_fold (ledger_step checksum) ledger_default
     [on_parents [], mined_by_alice, spent_by_alice] = Inr l"
proof -
  have s0: "ledger_step checksum ledger_default (on_parents []) = Inr ledger_default"
    by (simp add: ledger_step_def apply_block_def on_parents_def)
  obtain l1 where l1: "apply_block checksum ledger_default mined_by_alice = (Inr (), l1)"
    using apply_block_fits [of mined_by_alice ledger_default checksum] by auto
  have sup: "ledger_supply l1 = 83238"
    using apply_block_supply [OF l1]
    by (simp add: block_burn_def block_issue_def subsidy_total_eq emission_at_def)
  have "uint (ledger_balance l1 alice) = 79077"
    using apply_block_delta [OF l1, of alice]
    by (simp add: block_delta_def ledger_balance_def ledger_default_def example_addresses)
  then have bal: "get_or 0 (balances l1) alice = 79077"
    by (simp add: ledger_balance_def word_uint_eq_iff)
  have nonce: "next_nonces l1 = Map.empty" "confirmed_transactions l1 = {}"
    using l1 by (auto simp: apply_block_def ledger_default_def scratch_of_def
        split: if_splits option.splits)
  have "tx_guard checksum (scratch_of l1) pay_bob"
    using bal nonce by (simp add: tx_guard_def pay_bob_def)
  moreover have "map_total (s_balances (scratch_of l1)) < 2 ^ 64"
    using sup by (simp add: ledger_supply_def)
  ultimately obtain sc where "commit_transaction checksum carol DEV_TREASURY_ADDRESS (scratch_of l1)
      pay_bob = Inr sc" using commit_guard by blast
  then obtain l2 where "apply_block checksum l1 spent_by_alice = (Inr (), l2)"
    using apply_block_fits [of spent_by_alice l1 checksum] sup by auto
  with s0 l1 show ?thesis by (simp add: ledger_step_def)
qed

theorem replay_fails_on_spending_tip_witness:
  "(\<exists>l. try_fold (ledger_step checksum) ledger_default
     [on_parents [], mined_by_alice, spent_by_alice] = Inr l) \<and>
   (\<exists>e. recompute_ledger checksum spending_chain (fill 2) = Some (Inl e))"
  using spending_applies
    replay_fails_on_spending_tip [OF spending_chain_reachable spending_chain_single,
      of "fill 2" spent_by_alice checksum]
  by simp

section \<open>Mining\<close>

text \<open>C36: The mining loop returns if and only if one of the \<open>2 ^ 64\<close> nonces meets the target;
  it returns the first one that does, counting up from the block's nonce with wrap-around,
  together with the hash, and changes nothing but the nonce.\<close>

theorem mining_finds_first_nonce:
  "if \<exists>m. verify_pow sha pm (with_nonce blk m)
   then \<exists>n. mine_block sha pm blk = Some (calculate_hash sha (with_nonce blk (nonce (header blk) + of_nat n)),
          with_nonce blk (nonce (header blk) + of_nat n)) \<and>
        verify_pow sha pm (with_nonce blk (nonce (header blk) + of_nat n)) \<and>
        {i. i < n \<and> verify_pow sha pm (with_nonce blk (nonce (header blk) + of_nat i))} = {}
   else mine_block sha pm blk = None"
proof (cases "\<exists>m. verify_pow sha pm (with_nonce blk m)")
  case True
  then obtain m where m: "verify_pow sha pm (with_nonce blk m)" by blast
  obtain n where n: "mine_block sha pm blk = Some (calculate_hash sha (with_nonce blk (nonce (header blk) + of_nat n)),
          with_nonce blk (nonce (header blk) + of_nat n))"
    "\<And>i. i < n \<Longrightarrow> \<not> verify_pow sha pm (with_nonce blk (nonce (header blk) + of_nat i))"
    by (rule mine_block_first [OF m]) (rule that)
  have "verify_pow sha pm (with_nonce blk (nonce (header blk) + of_nat n))"
    using mine_block_sound [OF n(1)] by simp
  with n True show ?thesis by auto
next
  case False
  have "mine_block sha pm blk = None"
  proof (cases "mine_block sha pm blk")
    case (Some r)
    from mine_block_sound [OF Some] False show ?thesis by auto
  qed simp
  with False show ?thesis by simp
qed

section \<open>Difficulty\<close>

text \<open>C35: The exact next target once the window is full: the high 128 bits are multiplied by the
  elapsed time, clamped to between a quarter and four times the expected time, and divided by
  the expected time; if the product does not fit in 128 bits they stay as they are.  The low
  128 bits become all ones.\<close>

theorem next_target_exact:
  assumes "0 < window_size dm" and "window_size dm \<le> length bs"
    and "e = unat (expected_time_safe dm)"
    and "c = max (e div 4) (min (min (e * 4) (2 ^ 64 - 1))
      (unat (elapsed_time (drop (length bs - window_size dm) bs))))"
  shows "\<exists>t'. calculate_next_target dm bs t = Some t' \<and>
    unat (high16 t') = (if unat (high16 t) * c < 2 ^ 128 then unat (high16 t) * c div e
      else unat (high16 t)) \<and>
    drop 16 (bytes_of t') = replicate 16 255"
  using calculate_next_target_nat [OF assms(1,2) refl, of t] assms(3,4)
  unfolding unat_clamped by metis

definition at_times :: "u64 list \<Rightarrow> velo_block list" where
  "at_times ts = map (\<lambda>t. (block_of 1 [])
     \<lparr>header := (header (block_of 1 []))\<lparr>timestamp := t\<rparr>\<rparr>) ts"

lemma node_window:
  "0 < window_size (difficulty_new 1 4)"
  "window_size (difficulty_new 1 4) \<le> length (at_times [0, 0, 0, d])"
  by (simp_all add: difficulty_new_def at_times_def)

lemma at_times_elapsed:
  "elapsed_time (drop (length (at_times [0, 0, 0, d]) - window_size (difficulty_new 1 4))
     (at_times [0, 0, 0, d])) = (if d > 0 then d else 1)"
  by (simp add: at_times_def elapsed_time_def difficulty_new_def)

lemma node_expected: "expected_time_safe (difficulty_new 1 4) = 3"
  by (simp add: expected_time_safe_def difficulty_new_def)

theorem next_target_exact_witness:
  "\<exists>t'. calculate_next_target (difficulty_new 1 4) (at_times [0, 0, 0, 1]) (fill 15) = Some t' \<and>
     unat (high16 t') = unat (high16 (fill 15)) div 3"
proof -
  have fits: "unat (high16 (fill 15)) * 1 < 2 ^ 128"
    unfolding mult_1_right by (rule less_le_trans [OF unsigned_less]) simp
  have e: "3 = unat (expected_time_safe (difficulty_new 1 4))" unfolding node_expected by simp
  have c: "1 = max ((3 :: nat) div 4) (min (min (3 * 4) (2 ^ 64 - 1)) (unat (elapsed_time
      (drop (length (at_times [0, 0, 0, 1]) - window_size (difficulty_new 1 4))
        (at_times [0, 0, 0, 1])))))"
    unfolding at_times_elapsed by simp
  from next_target_exact [OF node_window e c, of "fill 15"] show ?thesis
    using fits by (simp only: if_True mult_1_right) blast
qed

text \<open>One step never makes the target more than four times easier, and never more than seven
  times harder (seven when the expected time is seven seconds: the quarter is rounded down).\<close>

theorem next_target_bounds:
  assumes "0 < window_size dm" and "window_size dm \<le> length bs"
  shows "\<exists>t'. calculate_next_target dm bs t = Some t' \<and>
    unat (high16 t) div 7 \<le> unat (high16 t') \<and> unat (high16 t') \<le> 4 * unat (high16 t)"
proof -
  let ?w = "drop (length bs - window_size dm) bs"
  let ?c = "unat (clamped_elapsed dm ?w)" and ?e = "unat (expected_time_safe dm)"
  from calculate_next_target_nat [OF assms refl, of t] obtain t' where
    t': "calculate_next_target dm bs t = Some t'"
    "unat (high16 t') = (if unat (high16 t) * ?c < 2 ^ 128
       then unat (high16 t) * ?c div ?e else unat (high16 t))" by metis
  have e: "0 < ?e" using expected_pos [of dm] by simp
  have up: "unat (high16 t) * ?c div ?e \<le> 4 * unat (high16 t)"
    using clamped_bounds [of dm ?w] e by (intro scale_up) simp_all
  have down: "unat (high16 t) div 7 \<le> unat (high16 t) * ?c div ?e"
    using clamped_lower [of dm ?w] e by (intro scale_down) simp_all
  have "unat (high16 t) div 7 \<le> unat (high16 t') \<and> unat (high16 t') \<le> 4 * unat (high16 t)"
    unfolding t'(2) using up down by simp
  with t'(1) show ?thesis by blast
qed

theorem next_target_bounds_witness:
  "\<exists>t'. calculate_next_target (difficulty_new 1 4) (at_times [0, 0, 0, 9]) (fill 15) = Some t' \<and>
     unat (high16 t') \<le> 4 * unat (high16 (fill 15))"
  using next_target_bounds [OF node_window, of 9 "fill 15"] by blast

text \<open>An easy target does not harden: with the top bit of the target set, every window that
  took at least two seconds makes the product overflow and leaves the target's high half as it
  is, even when the blocks came faster than expected.\<close>

theorem easy_target_stuck:
  assumes "0 < window_size dm" and "window_size dm \<le> length bs"
    and "2 ^ 127 \<le> unat (high16 t)"
    and "2 \<le> unat (clamped_elapsed dm (drop (length bs - window_size dm) bs))"
  shows "\<exists>t'. calculate_next_target dm bs t = Some t' \<and> high16 t' = high16 t"
proof -
  let ?c = "unat (clamped_elapsed dm (drop (length bs - window_size dm) bs))"
  from calculate_next_target_nat [OF assms(1,2) refl, of t] obtain t' where
    t': "calculate_next_target dm bs t = Some t'"
    "unat (high16 t') = (if unat (high16 t) * ?c < 2 ^ 128
       then unat (high16 t) * ?c div unat (expected_time_safe dm) else unat (high16 t))" by metis
  have "2 ^ 127 * 2 \<le> unat (high16 t) * ?c" using assms(3,4) by (rule mult_le_mono)
  then have "\<not> unat (high16 t) * ?c < 2 ^ 128" by simp
  with t' show ?thesis by (simp add: word_unat_eq_iff)
qed

theorem easy_target_stuck_witness:
  "\<exists>t'. calculate_next_target (difficulty_new 1 4) (at_times [0, 0, 0, 2]) (fill 255) = Some t' \<and>
     high16 t' = high16 (fill 255) \<and>
     elapsed_time (at_times [0, 0, 0, 2]) < expected_time_safe (difficulty_new 1 4)"
proof -
  have "unat (high16 (fill 255)) + 1 = 256 ^ 16"
    using be_nat_replicate_max [of 16] by (simp add: unat_high16)
  then have t: "2 ^ 127 \<le> unat (high16 (fill 255))" by simp
  have c: "2 \<le> unat (clamped_elapsed (difficulty_new 1 4)
      (drop (length (at_times [0, 0, 0, 2]) - window_size (difficulty_new 1 4))
        (at_times [0, 0, 0, 2])))"
    unfolding unat_clamped at_times_elapsed node_expected by simp
  have "elapsed_time (at_times [0, 0, 0, 2]) < expected_time_safe (difficulty_new 1 4)"
    unfolding node_expected by (simp add: at_times_def elapsed_time_def)
  with easy_target_stuck [OF node_window t c] show ?thesis by blast
qed

end
