(* ===== verification/Storage.thy ===== *)
theory Storage
  imports Linear_Order
begin

text \<open>
  Persistence (\<^verbatim>\<open>BlockchainStorage\<close> of \<^verbatim>\<open>vdag-consensus/src/lib.rs\<close>).  \<^verbatim>\<open>sled\<close> and \<^verbatim>\<open>bincode\<close> are
  third-party crates.  The encoders and decoders are the fields of \<open>bincode\<close>.  A tree is a map
  from keys to bytes; every operation on the database may fail, as decided by the argument
  \<open>fault\<close> from the number of operations made before it.
\<close>

record bincode =
  ser_block :: "velo_block \<Rightarrow> u8 list option"
  de_block :: "u8 list \<Rightarrow> velo_block option"
  ser_data :: "ghostdag_data \<Rightarrow> u8 list option"
  de_data :: "u8 list \<Rightarrow> ghostdag_data option"
  ser_ledger :: "ledger_state \<Rightarrow> u8 list option"
  de_ledger :: "u8 list \<Rightarrow> ledger_state option"

datatype storage_error = SledError | BincodeError

record blockchain_storage =
  blocks_tree :: "bytes32 \<rightharpoonup> u8 list"
  ghostdag_tree :: "bytes32 \<rightharpoonup> u8 list"
  ledger_tree :: "string \<rightharpoonup> u8 list"
  db_ops :: nat

type_synonym faults = "nat \<Rightarrow> bool"

definition storage_empty :: blockchain_storage where
  "storage_empty = \<lparr>blocks_tree = Map.empty, ghostdag_tree = Map.empty,
     ledger_tree = Map.empty, db_ops = 0\<rparr>"

text \<open>One database operation: it fails without effect, or has its effect.\<close>

definition db_op ::
  "faults \<Rightarrow> (blockchain_storage \<Rightarrow> blockchain_storage) \<Rightarrow> blockchain_storage \<Rightarrow>
     (storage_error, unit) result \<times> blockchain_storage"
where
  "db_op fault effect st =
     (let st' = st\<lparr>db_ops := Suc (db_ops st)\<rparr>
      in if fault (db_ops st) then (Inl SledError, st') else (Inr (), effect st'))"

text \<open>\<^verbatim>\<open>tree.insert(key, bincode::serialize(x)?)?; db.flush()?\<close>\<close>

definition write_entry ::
  "faults \<Rightarrow> u8 list option \<Rightarrow> (u8 list \<Rightarrow> blockchain_storage \<Rightarrow> blockchain_storage) \<Rightarrow>
     blockchain_storage \<Rightarrow> (storage_error, unit) result \<times> blockchain_storage"
where
  "write_entry fault serialized put st =
     (case serialized of
        None \<Rightarrow> (Inl BincodeError, st)
      | Some bytes \<Rightarrow>
          (case db_op fault (put bytes) st of
             (Inl e, st') \<Rightarrow> (Inl e, st')
           | (Inr _, st') \<Rightarrow> db_op fault (\<lambda>s. s) st'))"

definition read_entry ::
  "faults \<Rightarrow> (blockchain_storage \<Rightarrow> u8 list option) \<Rightarrow> (u8 list \<Rightarrow> 'a option) \<Rightarrow>
     blockchain_storage \<Rightarrow> (storage_error, 'a option) result \<times> blockchain_storage"
where
  "read_entry fault get deserialize st =
     (case db_op fault (\<lambda>s. s) st of
        (Inl e, st') \<Rightarrow> (Inl e, st')
      | (Inr _, st') \<Rightarrow>
          (case get st of
             None \<Rightarrow> (Inr None, st')
           | Some bytes \<Rightarrow>
               (case deserialize bytes of
                  None \<Rightarrow> (Inl BincodeError, st')
                | Some x \<Rightarrow> (Inr (Some x), st'))))"

text \<open>
  \<^verbatim>\<open>open\<close>: the database and then its three trees, each behind an \<^verbatim>\<open>expect\<close>; \<^const>\<open>None\<close> is the
  panic.  A tree that is not there yet is the empty map.
\<close>

definition expect_op ::
  "faults \<Rightarrow> (blockchain_storage \<Rightarrow> unit option \<times> blockchain_storage) \<Rightarrow> blockchain_storage \<Rightarrow>
     unit option \<times> blockchain_storage"
where
  "expect_op fault k st =
     (case db_op fault (\<lambda>s. s) st of (Inl _, st') \<Rightarrow> (None, st') | (Inr _, st') \<Rightarrow> k st')"

definition storage_open :: "faults \<Rightarrow> blockchain_storage \<Rightarrow> unit option \<times> blockchain_storage" where
  "storage_open fault =
     expect_op fault (expect_op fault (expect_op fault (expect_op fault (\<lambda>st. (Some (), st)))))"

definition save_block ::
  "faults \<Rightarrow> bincode \<Rightarrow> bytes32 \<Rightarrow> velo_block \<Rightarrow> blockchain_storage \<Rightarrow>
     (storage_error, unit) result \<times> blockchain_storage"
where
  "save_block fault bc h b st =
     write_entry fault (ser_block bc b)
       (\<lambda>bytes s. s\<lparr>blocks_tree := (blocks_tree s)(h \<mapsto> bytes)\<rparr>) st"

definition load_block ::
  "faults \<Rightarrow> bincode \<Rightarrow> bytes32 \<Rightarrow> blockchain_storage \<Rightarrow>
     (storage_error, velo_block option) result \<times> blockchain_storage"
where
  "load_block fault bc h st = read_entry fault (\<lambda>s. blocks_tree s h) (de_block bc) st"

definition save_ledger_state ::
  "faults \<Rightarrow> bincode \<Rightarrow> ledger_state \<Rightarrow> blockchain_storage \<Rightarrow>
     (storage_error, unit) result \<times> blockchain_storage"
where
  "save_ledger_state fault bc l st =
     write_entry fault (ser_ledger bc l)
       (\<lambda>bytes s. s\<lparr>ledger_tree := (ledger_tree s)(''current'' \<mapsto> bytes)\<rparr>) st"

definition load_ledger_state ::
  "faults \<Rightarrow> bincode \<Rightarrow> blockchain_storage \<Rightarrow>
     (storage_error, ledger_state option) result \<times> blockchain_storage"
where
  "load_ledger_state fault bc st =
     read_entry fault (\<lambda>s. ledger_tree s ''current'') (de_ledger bc) st"

definition save_ghostdag_data ::
  "faults \<Rightarrow> bincode \<Rightarrow> bytes32 \<Rightarrow> ghostdag_data \<Rightarrow> blockchain_storage \<Rightarrow>
     (storage_error, unit) result \<times> blockchain_storage"
where
  "save_ghostdag_data fault bc h d st =
     write_entry fault (ser_data bc d)
       (\<lambda>bytes s. s\<lparr>ghostdag_tree := (ghostdag_tree s)(h \<mapsto> bytes)\<rparr>) st"

definition load_ghostdag_data ::
  "faults \<Rightarrow> bincode \<Rightarrow> bytes32 \<Rightarrow> blockchain_storage \<Rightarrow>
     (storage_error, ghostdag_data option) result \<times> blockchain_storage"
where
  "load_ghostdag_data fault bc h st =
     read_entry fault (\<lambda>s. ghostdag_tree s h) (de_data bc) st"

text \<open>
  \<^verbatim>\<open>load_all_blocks\<close>: the entries in key order, each fetched by one database operation; then a
  stable sort by height.
\<close>

fun load_entries ::
  "faults \<Rightarrow> bincode \<Rightarrow> bytes32 list \<Rightarrow> blockchain_storage \<Rightarrow>
     (storage_error, velo_block list) result \<times> blockchain_storage"
where
  "load_entries fault bc [] st = (Inr [], st)"
| "load_entries fault bc (h # hs) st =
     (case load_block fault bc h st of
        (Inl e, st') \<Rightarrow> (Inl e, st')
      | (Inr None, st') \<Rightarrow> load_entries fault bc hs st'
      | (Inr (Some b), st') \<Rightarrow>
          (case load_entries fault bc hs st' of
             (Inl e, st'') \<Rightarrow> (Inl e, st'')
           | (Inr bs, st'') \<Rightarrow> (Inr (b # bs), st'')))"

definition load_all_blocks ::
  "faults \<Rightarrow> bincode \<Rightarrow> blockchain_storage \<Rightarrow>
     (storage_error, velo_block list) result \<times> blockchain_storage"
where
  "load_all_blocks fault bc st =
     (case load_entries fault bc (sorted_list_of_set (dom (blocks_tree st))) st of
        (Inl e, st') \<Rightarrow> (Inl e, st')
      | (Inr bs, st') \<Rightarrow> (Inr (sort_key block_height bs), st'))"

section \<open>Frames and round trips\<close>

lemma db_op_cases:
  "db_op fault effect st = (r, st') \<Longrightarrow>
     (\<exists>e. r = Inl e \<and> fault (db_ops st) \<and> st' = st\<lparr>db_ops := Suc (db_ops st)\<rparr>) \<or>
     (r = Inr () \<and> \<not> fault (db_ops st) \<and> st' = effect (st\<lparr>db_ops := Suc (db_ops st)\<rparr>))"
  by (auto simp: db_op_def Let_def split: if_splits)

lemma db_op_trees [simp]:
  "blocks_tree (snd (db_op fault (\<lambda>s. s) st)) = blocks_tree st"
  "ghostdag_tree (snd (db_op fault (\<lambda>s. s) st)) = ghostdag_tree st"
  "ledger_tree (snd (db_op fault (\<lambda>s. s) st)) = ledger_tree st"
  by (simp_all add: db_op_def Let_def)

lemma expect_op_trees:
  assumes "\<And>s. blocks_tree (snd (k s)) = blocks_tree s"
  shows "blocks_tree (snd (expect_op fault k st)) = blocks_tree st"
  using assms by (simp add: expect_op_def db_op_def Let_def)

lemma storage_open_trees: "blocks_tree (snd (storage_open fault st)) = blocks_tree st"
  unfolding storage_open_def by (intro expect_op_trees) simp

lemma storage_open_reliable:
  "(\<And>i. \<not> fault i) \<Longrightarrow> fst (storage_open fault st) = Some ()"
  by (simp add: storage_open_def expect_op_def db_op_def Let_def)

lemma read_entry_trees [simp]:
  "blocks_tree (snd (read_entry fault get de st)) = blocks_tree st"
  "ghostdag_tree (snd (read_entry fault get de st)) = ghostdag_tree st"
  "ledger_tree (snd (read_entry fault get de st)) = ledger_tree st"
  by (auto simp: read_entry_def db_op_def Let_def split: option.split)

lemma load_block_trees [simp]:
  "blocks_tree (snd (load_block fault bc h st)) = blocks_tree st"
  by (simp add: load_block_def)

lemma load_block_ledger [simp]:
  "ledger_tree (snd (load_block fault bc h st)) = ledger_tree st"
  by (simp add: load_block_def)

lemma save_block_ledger [simp]:
  "ledger_tree (snd (save_block fault bc h b st)) = ledger_tree st"
  by (auto simp: save_block_def write_entry_def db_op_def Let_def split: option.split)

lemma load_block_result:
  "load_block fault bc h st = (Inr x, st') \<Longrightarrow>
     x = Option.bind (blocks_tree st h) (de_block bc)"
  by (auto simp: load_block_def read_entry_def db_op_def Let_def
      split: option.splits prod.splits sum.splits if_splits)

lemma load_block_None:
  "load_block fault bc h st = (Inr None, st') \<Longrightarrow> blocks_tree st h = None"
  by (auto simp: load_block_def read_entry_def db_op_def Let_def
      split: option.splits prod.splits sum.splits if_splits)

lemma save_ledger_blocks [simp]:
  "blocks_tree (snd (save_ledger_state fault bc l st)) = blocks_tree st"
  by (auto simp: save_ledger_state_def write_entry_def db_op_def Let_def split: option.split)

lemma save_data_blocks [simp]:
  "blocks_tree (snd (save_ghostdag_data fault bc h d st)) = blocks_tree st"
  by (auto simp: save_ghostdag_data_def write_entry_def db_op_def Let_def split: option.split)

lemma save_data_ledger [simp]:
  "ledger_tree (snd (save_ghostdag_data fault bc h d st)) = ledger_tree st"
  by (auto simp: save_ghostdag_data_def write_entry_def db_op_def Let_def split: option.split)

lemma save_ledger_tree:
  "ledger_tree (snd (save_ledger_state fault bc l st)) = ledger_tree st \<or>
     (\<exists>bytes. ser_ledger bc l = Some bytes \<and>
        ledger_tree (snd (save_ledger_state fault bc l st)) = (ledger_tree st)(''current'' \<mapsto> bytes))"
  by (auto simp: save_ledger_state_def write_entry_def db_op_def Let_def split: option.split)

text \<open>A failed or successful save leaves every other block alone.\<close>

lemma save_block_other:
  "g \<noteq> h \<Longrightarrow> blocks_tree (snd (save_block fault bc h b st)) g = blocks_tree st g"
  by (auto simp: save_block_def write_entry_def db_op_def Let_def split: option.split)

lemma save_block_ok:
  "save_block fault bc h b st = (Inr r, st') \<Longrightarrow>
     \<exists>bytes. ser_block bc b = Some bytes \<and> blocks_tree st' = (blocks_tree st)(h \<mapsto> bytes)"
  by (auto simp: save_block_def write_entry_def db_op_def Let_def
      split: option.splits if_splits)

text \<open>
  What the program relies on: databases that do not fail, and a block encoding that decodes to
  the block it was made from.
\<close>

definition reliable_db :: "faults \<Rightarrow> bool" where
  "reliable_db fault \<longleftrightarrow> (\<forall>n. \<not> fault n)"

definition block_codec_ok :: "bincode \<Rightarrow> bool" where
  "block_codec_ok bc \<longleftrightarrow>
     (\<forall>b. \<exists>bytes. ser_block bc b = Some bytes \<and> de_block bc bytes = Some b)"

lemma save_block_reliable:
  assumes "reliable_db fault" and "block_codec_ok bc"
  obtains bytes where "de_block bc bytes = Some b"
    "blocks_tree (snd (save_block fault bc h b st)) = (blocks_tree st)(h \<mapsto> bytes)"
    "fst (save_block fault bc h b st) = Inr ()"
proof -
  from assms(2) obtain bytes where bytes: "ser_block bc b = Some bytes" "de_block bc bytes = Some b"
    unfolding block_codec_ok_def by blast
  then show thesis
    using assms(1)
    by (intro that [of bytes])
      (simp_all add: save_block_def write_entry_def db_op_def Let_def reliable_db_def)
qed

lemma save_load_block:
  assumes "block_codec_ok bc" and "save_block fault bc h b st = (Inr r, st')"
    and "load_block fault bc h st' = (Inr x, st'')"
  shows "x = Some b"
proof -
  from save_block_ok [OF assms(2)] obtain bytes where
    bytes: "ser_block bc b = Some bytes" "blocks_tree st' h = Some bytes" by auto
  moreover obtain bytes' where "ser_block bc b = Some bytes'" "de_block bc bytes' = Some b"
    using assms(1) unfolding block_codec_ok_def by blast
  ultimately show ?thesis using load_block_result [OF assms(3)] by simp
qed

end
