(* ===== verification/Difficulty_Log.thy ===== *)
theory Difficulty_Log
  imports Bytes32
begin

text \<open>The log of targets by height (\<^verbatim>\<open>vdag-node/src/difficulty_log.rs\<close>).\<close>

record difficulty_log =
  targets_by_height :: "u64 \<rightharpoonup> bytes32"

definition difficulty_log_new :: difficulty_log where
  "difficulty_log_new = \<lparr>targets_by_height = Map.empty\<rparr>"

definition log_record :: "difficulty_log \<Rightarrow> u64 \<Rightarrow> bytes32 \<Rightarrow> difficulty_log" where
  "log_record l h target =
     (if targets_by_height l h \<noteq> None then l
      else l\<lparr>targets_by_height := (targets_by_height l)(h \<mapsto> target)\<rparr>)"

definition log_get :: "difficulty_log \<Rightarrow> u64 \<Rightarrow> bytes32 option" where
  "log_get l h = targets_by_height l h"

text \<open>The first record of a height wins over any later sequence of records.\<close>

definition log_all :: "difficulty_log \<Rightarrow> (u64 \<times> bytes32) list \<Rightarrow> difficulty_log" where
  "log_all l rs = foldl (\<lambda>l (h, t). log_record l h t) l rs"

lemma log_get_record:
  "log_get (log_record l h t) g =
     (if g = h \<and> log_get l h = None then Some t else log_get l g)"
  by (auto simp: log_record_def log_get_def)

lemma log_get_all:
  "log_get (log_all l rs) g =
     (case log_get l g of Some t \<Rightarrow> Some t | None \<Rightarrow> map_of rs g)"
  unfolding log_all_def
proof (induction rs arbitrary: l)
  case Nil
  then show ?case by (simp split: option.split)
next
  case (Cons r rs)
  obtain h t where "r = (h, t)" by (cases r)
  then show ?case by (simp add: Cons log_get_record split: option.split)
qed

end
