(* ===== verification/Peer_Guard.thy ===== *)
theory Peer_Guard
  imports Prelude
begin

text \<open>
  Connection limits and bans (\<^verbatim>\<open>vdag-node/src/peer_guard.rs\<close>).  Peers and addresses are abstract;
  \<^verbatim>\<open>Instant::now()\<close> is an argument, a natural number of nanoseconds.
\<close>

definition MAX_CONNECTIONS_PER_PEER :: u32 where "MAX_CONNECTIONS_PER_PEER = 2"
definition MAX_TOTAL_CONNECTIONS :: u32 where "MAX_TOTAL_CONNECTIONS = 128"
definition MAX_VIOLATIONS_BEFORE_BAN :: u32 where "MAX_VIOLATIONS_BEFORE_BAN = 5"
definition MAX_CONNECTIONS_PER_IP :: u32 where "MAX_CONNECTIONS_PER_IP = 4"
definition BAN_DURATION :: nat where "BAN_DURATION = 60 * 60 * 1000000000"

lemmas guard_consts = MAX_CONNECTIONS_PER_PEER_def MAX_TOTAL_CONNECTIONS_def
  MAX_VIOLATIONS_BEFORE_BAN_def MAX_CONNECTIONS_PER_IP_def BAN_DURATION_def

datatype connection_decision =
    Allow
  | RejectAlreadyBanned
  | RejectOverPeerLimit
  | RejectOverIpLimit
  | RejectOverTotalLimit

record ('p, 'i) peer_guard =
  connections_per_peer :: "'p \<rightharpoonup> u32"
  connections_per_ip :: "'i \<rightharpoonup> u32"
  total_connections :: u32
  violations :: "'p \<rightharpoonup> u32"
  banned_until :: "'p \<rightharpoonup> nat"

definition peer_guard_new :: "('p, 'i) peer_guard" where
  "peer_guard_new =
     \<lparr>connections_per_peer = Map.empty, connections_per_ip = Map.empty, total_connections = 0,
      violations = Map.empty, banned_until = Map.empty\<rparr>"

definition is_banned :: "nat \<Rightarrow> ('p, 'i) peer_guard \<Rightarrow> 'p \<Rightarrow> bool \<times> ('p, 'i) peer_guard" where
  "is_banned now g peer =
     (case banned_until g peer of
        Some expiry \<Rightarrow>
          if now < expiry then (True, g)
          else (False, g\<lparr>banned_until := (banned_until g)(peer := None),
                         violations := (violations g)(peer := None)\<rparr>)
      | None \<Rightarrow> (False, g))"

definition unban :: "('p, 'i) peer_guard \<Rightarrow> 'p \<Rightarrow> ('p, 'i) peer_guard" where
  "unban g peer = g\<lparr>banned_until := (banned_until g)(peer := None),
                    violations := (violations g)(peer := None)\<rparr>"

definition on_connection_established ::
  "nat \<Rightarrow> ('p, 'i) peer_guard \<Rightarrow> 'p \<Rightarrow> 'i option \<Rightarrow> connection_decision \<times> ('p, 'i) peer_guard"
where
  "on_connection_established now g peer ip =
     (case is_banned now g peer of (banned, g) \<Rightarrow>
      if banned then (RejectAlreadyBanned, g) else
      let per_peer_count = get_or 0 (connections_per_peer g) peer in
      if per_peer_count \<ge> MAX_CONNECTIONS_PER_PEER then (RejectOverPeerLimit, g) else
      if (case ip of None \<Rightarrow> False
          | Some i \<Rightarrow> get_or 0 (connections_per_ip g) i \<ge> MAX_CONNECTIONS_PER_IP)
      then (RejectOverIpLimit, g) else
      if total_connections g \<ge> MAX_TOTAL_CONNECTIONS then (RejectOverTotalLimit, g) else
      (Allow, g\<lparr>connections_per_peer := (connections_per_peer g)(peer \<mapsto> per_peer_count + 1),
                connections_per_ip :=
                  (case ip of None \<Rightarrow> connections_per_ip g
                   | Some i \<Rightarrow> (connections_per_ip g)
                       (i \<mapsto> get_or 0 (connections_per_ip g) i + 1)),
                total_connections := total_connections g + 1\<rparr>))"

text \<open>\<^verbatim>\<open>if let Some(count) = m.get_mut(k) { *count = count.saturating_sub(1);
  if *count == 0 { m.remove(k); } }\<close>\<close>

definition release :: "('k \<rightharpoonup> u32) \<Rightarrow> 'k \<Rightarrow> ('k \<rightharpoonup> u32)" where
  "release m k =
     (case m k of
        None \<Rightarrow> m
      | Some count \<Rightarrow>
          (let count = saturating_sub count 1
           in if count = 0 then m(k := None) else m(k \<mapsto> count)))"

definition on_connection_closed ::
  "('p, 'i) peer_guard \<Rightarrow> 'p \<Rightarrow> 'i option \<Rightarrow> ('p, 'i) peer_guard"
where
  "on_connection_closed g peer ip =
     g\<lparr>connections_per_peer := release (connections_per_peer g) peer,
       connections_per_ip :=
         (case ip of None \<Rightarrow> connections_per_ip g | Some i \<Rightarrow> release (connections_per_ip g) i),
       total_connections := saturating_sub (total_connections g) 1\<rparr>"

definition record_violation :: "nat \<Rightarrow> ('p, 'i) peer_guard \<Rightarrow> 'p \<Rightarrow> bool \<times> ('p, 'i) peer_guard" where
  "record_violation now g peer =
     (let count = get_or 0 (violations g) peer + 1;
          g = g\<lparr>violations := (violations g)(peer \<mapsto> count)\<rparr>
      in if count \<ge> MAX_VIOLATIONS_BEFORE_BAN
         then (True, g\<lparr>banned_until := (banned_until g)(peer \<mapsto> now + BAN_DURATION)\<rparr>)
         else (False, g))"

definition currently_banned :: "nat \<Rightarrow> ('p, 'i) peer_guard \<Rightarrow> 'p set" where
  "currently_banned now g =
     {peer \<in> dom (banned_until g). now < the (banned_until g peer)}"

section \<open>Live connections\<close>

text \<open>
  The abstract state: the connections that were allowed and not closed since.  A run follows
  the guard through any sequence of its operations in which only live connections are closed.
\<close>

type_synonym ('p, 'i) live = "('p \<times> 'i option) list"

inductive guard_run :: "('p, 'i) peer_guard \<Rightarrow> ('p, 'i) live \<Rightarrow> bool" where
  start: "guard_run peer_guard_new []"
| established: "guard_run g live \<Longrightarrow> on_connection_established now g p ip = (d, g') \<Longrightarrow>
    guard_run g' (if d = Allow then (p, ip) # live else live)"
| closed: "guard_run g live \<Longrightarrow> (p, ip) \<in> set live \<Longrightarrow>
    guard_run (on_connection_closed g p ip) (remove1 (p, ip) live)"
| violation: "guard_run g live \<Longrightarrow> guard_run (snd (record_violation now g p)) live"
| query: "guard_run g live \<Longrightarrow> guard_run (snd (is_banned now g p)) live"
| cleared: "guard_run g live \<Longrightarrow> guard_run (unban g p) live"

definition peer_count :: "('p, 'i) live \<Rightarrow> 'p \<Rightarrow> nat" where
  "peer_count live p = length (filter (\<lambda>c. fst c = p) live)"

definition ip_count :: "('p, 'i) live \<Rightarrow> 'i \<Rightarrow> nat" where
  "ip_count live i = length (filter (\<lambda>c. snd c = Some i) live)"

text \<open>The counters are the numbers of live connections, within the limits.\<close>

definition guard_tracks :: "('p, 'i) peer_guard \<Rightarrow> ('p, 'i) live \<Rightarrow> bool" where
  "guard_tracks g live \<longleftrightarrow>
     (\<forall>p. unat (get_or 0 (connections_per_peer g) p) = peer_count live p \<and> peer_count live p \<le> 2) \<and>
     (\<forall>i. unat (get_or 0 (connections_per_ip g) i) = ip_count live i \<and> ip_count live i \<le> 4) \<and>
     unat (total_connections g) = length live \<and> length live \<le> 128"

lemma counts_simps [simp]:
  "peer_count [] p = 0" "ip_count [] i = 0"
  "peer_count (c # live) p = (if fst c = p then 1 else 0) + peer_count live p"
  "ip_count (c # live) i = (if snd c = Some i then 1 else 0) + ip_count live i"
  by (simp_all add: peer_count_def ip_count_def)

lemma counts_remove1:
  assumes "c \<in> set live"
  shows "peer_count (remove1 c live) p = peer_count live p - (if fst c = p then 1 else 0)"
    and "ip_count (remove1 c live) i = ip_count live i - (if snd c = Some i then 1 else 0)"
proof -
  have "peer_count live p = peer_count (remove1 c live) p + (if fst c = p then 1 else 0) \<and>
      ip_count live i = ip_count (remove1 c live) i + (if snd c = Some i then 1 else 0)"
    using assms by (induction live) auto
  then show "peer_count (remove1 c live) p = peer_count live p - (if fst c = p then 1 else 0)"
    "ip_count (remove1 c live) i = ip_count live i - (if snd c = Some i then 1 else 0)"
    by simp_all
qed

lemma get_or_release:
  "unat (get_or 0 (release m k) j) = unat (get_or 0 m j) - (if j = k then 1 else 0)"
proof (cases "m k")
  case None
  then show ?thesis by (simp add: release_def get_or_def)
next
  case (Some c)
  have "unat (saturating_sub c 1) = unat c - 1" by (simp add: unat_saturating_sub)
  moreover have "get_or 0 m k = c" using Some by (simp add: get_or_def)
  ultimately show ?thesis
    using Some by (auto simp: release_def Let_def unat_eq_0)
qed

lemma unat_Suc_small: "unat x < 4294967295 \<Longrightarrow> unat (x + 1) = unat x + 1" for x :: u32
  by (simp add: unat_word_ariths)

lemma is_banned_frame:
  "connections_per_peer (snd (is_banned now g p)) = connections_per_peer g"
  "connections_per_ip (snd (is_banned now g p)) = connections_per_ip g"
  "total_connections (snd (is_banned now g p)) = total_connections g"
  by (simp_all add: is_banned_def split: option.split)

lemma record_violation_frame:
  "connections_per_peer (snd (record_violation now g p)) = connections_per_peer g"
  "connections_per_ip (snd (record_violation now g p)) = connections_per_ip g"
  "total_connections (snd (record_violation now g p)) = total_connections g"
  by (simp_all add: record_violation_def Let_def)

lemma established_cases:
  assumes "on_connection_established now g p ip = (d, g')"
  obtains (rejected) "d \<noteq> Allow" "g' = snd (is_banned now g p)"
  | (allowed) "d = Allow" "\<not> fst (is_banned now g p)"
      "get_or 0 (connections_per_peer g) p < 2"
      "\<And>i. ip = Some i \<Longrightarrow> get_or 0 (connections_per_ip g) i < 4"
      "total_connections g < 128"
      "g' = (snd (is_banned now g p))
         \<lparr>connections_per_peer := (connections_per_peer g)
            (p \<mapsto> get_or 0 (connections_per_peer g) p + 1),
          connections_per_ip := (case ip of None \<Rightarrow> connections_per_ip g
            | Some i \<Rightarrow> (connections_per_ip g)(i \<mapsto> get_or 0 (connections_per_ip g) i + 1)),
          total_connections := total_connections g + 1\<rparr>"
proof -
  obtain banned g1 where b: "is_banned now g p = (banned, g1)" by fastforce
  with is_banned_frame [of now g p] have f: "connections_per_peer g1 = connections_per_peer g"
    "connections_per_ip g1 = connections_per_ip g" "total_connections g1 = total_connections g"
    by simp_all
  show thesis
  proof (cases "d = Allow")
    case True
    show thesis
      by (rule allowed)
        (use assms True b f in \<open>auto simp: on_connection_established_def Let_def guard_consts
          split: if_splits option.splits\<close>)
  next
    case False
    show thesis
      by (rule rejected)
        (use assms False b in \<open>auto simp: on_connection_established_def Let_def split: if_splits\<close>)
  qed
qed

lemma tracks_established:
  assumes tr: "guard_tracks g live" and e: "on_connection_established now g p ip = (d, g')"
  shows "guard_tracks g' (if d = Allow then (p, ip) # live else live)"
  using e
proof (cases rule: established_cases)
  case rejected
  then show ?thesis using tr by (simp add: guard_tracks_def is_banned_frame)
next
  case allowed
  have p: "peer_count live p < 2"
    using tr allowed(3) by (auto simp: guard_tracks_def word_less_nat_alt)
  have t: "length live < 128" using tr allowed(5) by (auto simp: guard_tracks_def word_less_nat_alt)
  have i: "ip_count live i < 4" if "ip = Some i" for i
    using tr allowed(4) [OF that] by (auto simp: guard_tracks_def word_less_nat_alt)
  have u: "unat (get_or 0 (connections_per_peer g) p + 1) = peer_count live p + 1"
    "unat (total_connections g + 1) = length live + 1"
    "\<And>i. ip = Some i \<Longrightarrow> unat (get_or 0 (connections_per_ip g) i + 1) = ip_count live i + 1"
    using tr p t i by (auto simp: guard_tracks_def unat_Suc_small)
  show ?thesis
    using tr allowed p t i u by (cases ip) (auto simp: guard_tracks_def)
qed

lemma tracks_closed:
  assumes tr: "guard_tracks g live" and c: "(p, ip) \<in> set live"
  shows "guard_tracks (on_connection_closed g p ip) (remove1 (p, ip) live)"
proof -
  have len: "length (remove1 (p, ip) live) = length live - 1"
    using c by (simp add: length_remove1)
  have "unat (saturating_sub (total_connections g) 1) = length live - 1"
    using tr by (simp add: guard_tracks_def unat_saturating_sub)
  then show ?thesis
    using tr c len
    by (cases ip) (auto simp: guard_tracks_def on_connection_closed_def get_or_release
        counts_remove1 intro!: le_trans [OF diff_le_self])
qed

lemma guard_run_tracks: "guard_run g live \<Longrightarrow> guard_tracks g live"
proof (induction rule: guard_run.induct)
  case start
  then show ?case by (simp add: guard_tracks_def peer_guard_new_def)
next
  case (established g live now p ip d g')
  then show ?case by (simp only: tracks_established)
next
  case (closed g live p ip)
  then show ?case by (simp add: tracks_closed)
next
  case (violation g live now p)
  then show ?case by (simp add: guard_tracks_def record_violation_frame)
next
  case (query g live now p)
  then show ?case by (simp add: guard_tracks_def is_banned_frame)
next
  case (cleared g live p)
  then show ?case by (simp add: guard_tracks_def unban_def)
qed


section \<open>Closing what was never counted\<close>

text \<open>
  The node's event loop reports every closed connection, the rejected ones included.  Its
  events, and the guard's answers to them.
\<close>

datatype ('p, 'i) guard_event = Established 'p "'i option" | Closed 'p "'i option"

fun guard_events ::
  "nat \<Rightarrow> ('p, 'i) peer_guard \<Rightarrow> ('p, 'i) guard_event list \<Rightarrow>
     connection_decision list \<times> ('p, 'i) peer_guard"
where
  "guard_events now g [] = ([], g)"
| "guard_events now g (Established p ip # es) =
     (case on_connection_established now g p ip of
        (d, g') \<Rightarrow> (case guard_events now g' es of (ds, g'') \<Rightarrow> (d # ds, g'')))"
| "guard_events now g (Closed p ip # es) = guard_events now (on_connection_closed g p ip) es"

section \<open>Bans\<close>

lemma is_banned_iff:
  "fst (is_banned now g p) \<longleftrightarrow> (\<exists>expiry. banned_until g p = Some expiry \<and> now < expiry)"
  by (auto simp: is_banned_def split: option.splits)

lemma currently_banned_iff: "p \<in> currently_banned now g \<longleftrightarrow> fst (is_banned now g p)"
  by (auto simp: currently_banned_def is_banned_iff)

text \<open>A peer's violations in a row, at given times.\<close>

fun violate :: "nat list \<Rightarrow> ('p, 'i) peer_guard \<Rightarrow> 'p \<Rightarrow> ('p, 'i) peer_guard" where
  "violate [] g p = g"
| "violate (t # ts) g p = violate ts (snd (record_violation t g p)) p"

lemma violate_count:
  "unat (get_or 0 (violations g) p) + length ts < 2 ^ 32 \<Longrightarrow>
     unat (get_or 0 (violations (violate ts g p)) p) =
       unat (get_or 0 (violations g) p) + length ts"
proof (induction ts arbitrary: g)
  case Nil
  then show ?case by simp
next
  case (Cons t ts)
  have "unat (get_or 0 (violations g) p + 1) = unat (get_or 0 (violations g) p) + 1"
    using Cons.prems by (intro unat_Suc_small) simp
  moreover have "get_or 0 (violations (snd (record_violation t g p))) p =
      get_or 0 (violations g) p + 1" by (simp add: record_violation_def Let_def)
  ultimately show ?case using Cons.IH [of "snd (record_violation t g p)"] Cons.prems by simp
qed

lemma violate_append: "violate (ts @ us) g p = violate us (violate ts g p) p"
  by (induction ts arbitrary: g) simp_all

text \<open>From a clean slate a peer is banned by its fifth violation, for one hour.\<close>

lemma violate_banned:
  assumes "violations g p = None" and "banned_until g p = None"
    and "length ts < 2 ^ 32 - 1"
  shows "banned_until (violate (ts @ [t]) g p) p =
    (if 5 \<le> length (ts @ [t]) then Some (t + BAN_DURATION) else None)"
  using assms(3)
proof (induction ts arbitrary: t rule: rev_induct)
  case Nil
  then show ?case
    using assms by (simp add: record_violation_def Let_def guard_consts get_or_def word_le_nat_alt)
next
  case (snoc u ts)
  let ?g = "violate (ts @ [u]) g p"
  have "unat (get_or 0 (violations ?g) p) = Suc (length ts)"
    using violate_count [of g p "ts @ [u]"] snoc.prems assms(1) by (simp add: get_or_def)
  then have c: "unat (get_or 0 (violations ?g) p + 1) = Suc (Suc (length ts))"
    using snoc.prems by (subst unat_Suc_small) simp_all
  then have thr: "MAX_VIOLATIONS_BEFORE_BAN \<le> get_or 0 (violations ?g) p + 1 \<longleftrightarrow>
      5 \<le> Suc (Suc (length ts))"
    by (simp add: word_le_nat_alt guard_consts)
  have "banned_until (snd (record_violation t ?g p)) p =
      (if 5 \<le> Suc (Suc (length ts)) then Some (t + BAN_DURATION) else banned_until ?g p)"
    by (simp add: record_violation_def Let_def thr)
  then show ?case
    using snoc.IH [of u] snoc.prems by (simp add: violate_append)
qed

end
