(* ===== verification/Orphan_Pool.thy ===== *)
theory Orphan_Pool
  imports Block
begin

text \<open>
  Synchronisation messages and the pool of blocks whose parent is missing
  (\<^verbatim>\<open>vdag-node/src/sync.rs\<close>).  \<^verbatim>\<open>waiting_on\<close> is only accessed by key.  The two counters are
  \<^verbatim>\<open>usize\<close>; the number of buffered blocks cannot reach \<open>2 ^ 64\<close>, so they are natural numbers.
\<close>

definition MAX_SYNC_BLOCKS :: nat where
  "MAX_SYNC_BLOCKS = 500"

record sync_request =
  rq_network_id :: u64
  rq_genesis_hash :: bytes32
  rq_since_height :: u64

datatype sync_response = Blocks "velo_block list" | GenesisMismatch

type_synonym 'p orphan = "'p option \<times> velo_block"

record 'p orphan_pool =
  waiting_on :: "bytes32 \<rightharpoonup> 'p orphan list"
  max_size :: nat
  current_size :: nat

definition orphan_pool_new :: "nat \<Rightarrow> 'p orphan_pool" where
  "orphan_pool_new bound = \<lparr>waiting_on = Map.empty, max_size = bound, current_size = 0\<rparr>"

definition orphan_insert ::
  "'p orphan_pool \<Rightarrow> bytes32 \<Rightarrow> 'p option \<Rightarrow> velo_block \<Rightarrow> 'p orphan_pool"
where
  "orphan_insert pool missing_parent source blk =
     (if current_size pool \<ge> max_size pool then pool
      else pool\<lparr>waiting_on := (waiting_on pool)
                 (missing_parent \<mapsto> get_or [] (waiting_on pool) missing_parent @ [(source, blk)]),
               current_size := current_size pool + 1\<rparr>)"

definition take_ready :: "'p orphan_pool \<Rightarrow> bytes32 \<Rightarrow> 'p orphan list \<times> 'p orphan_pool" where
  "take_ready pool resolved_hash =
     (case waiting_on pool resolved_hash of
        Some ready \<Rightarrow>
          (ready, pool\<lparr>waiting_on := (waiting_on pool)(resolved_hash := None),
                       current_size := current_size pool - length ready\<rparr>)
      | None \<Rightarrow> ([], pool))"

section \<open>The counter is the number of buffered blocks\<close>

abbreviation bucket :: "'p orphan_pool \<Rightarrow> bytes32 \<Rightarrow> 'p orphan list" where
  "bucket pool h \<equiv> get_or [] (waiting_on pool) h"

definition buffered :: "'p orphan_pool \<Rightarrow> nat" where
  "buffered pool = (\<Sum>h\<in>UNIV. length (bucket pool h))"

definition orphan_pool_inv :: "'p orphan_pool \<Rightarrow> bool" where
  "orphan_pool_inv pool \<longleftrightarrow>
     current_size pool = buffered pool \<and> current_size pool \<le> max_size pool"

lemma buffered_upd:
  "(\<Sum>h\<in>UNIV. length (get_or [] (m(k \<mapsto> v)) h)) + length (get_or [] m k) =
     (\<Sum>h\<in>UNIV. length (get_or [] m h)) + length v" for m :: "bytes32 \<rightharpoonup> 'a list"
proof -
  have "(\<Sum>h\<in>UNIV. length (get_or [] (m(k \<mapsto> v)) h)) =
      length v + (\<Sum>h\<in>UNIV - {k}. length (get_or [] m h))"
    by (subst sum.remove [of UNIV k]) (auto intro!: sum.cong)
  moreover have "(\<Sum>h\<in>UNIV. length (get_or [] m h)) =
      length (get_or [] m k) + (\<Sum>h\<in>UNIV - {k}. length (get_or [] m h))"
    by (rule sum.remove) auto
  ultimately show ?thesis by simp
qed

lemma buffered_del:
  "(\<Sum>h\<in>UNIV. length (get_or [] (m(k := None)) h)) + length (get_or [] m k) =
     (\<Sum>h\<in>UNIV. length (get_or [] m h))" for m :: "bytes32 \<rightharpoonup> 'a list"
proof -
  have "get_or [] (m(k := None)) = get_or [] (m(k \<mapsto> []))" by (rule ext) simp
  with buffered_upd [of m k "[]"] show ?thesis by simp
qed

lemma orphan_pool_inv_new: "orphan_pool_inv (orphan_pool_new bound)"
  by (simp add: orphan_pool_inv_def orphan_pool_new_def buffered_def)

lemma orphan_pool_inv_insert:
  "orphan_pool_inv pool \<Longrightarrow> orphan_pool_inv (orphan_insert pool h s b)"
  using buffered_upd [of "waiting_on pool" h "bucket pool h @ [(s, b)]"]
  by (auto simp: orphan_pool_inv_def orphan_insert_def buffered_def)

lemma take_ready_eq:
  "take_ready pool h =
     (bucket pool h, pool\<lparr>waiting_on := (waiting_on pool)(h := None),
        current_size := current_size pool - length (bucket pool h)\<rparr>)"
  by (cases "waiting_on pool h") (simp_all add: take_ready_def get_or_def fun_upd_idem)

lemma orphan_pool_inv_take:
  "orphan_pool_inv pool \<Longrightarrow> take_ready pool h = (ready, pool') \<Longrightarrow>
     orphan_pool_inv pool' \<and> buffered pool' + length ready = buffered pool"
  using buffered_del [of "waiting_on pool" h]
  by (auto simp: orphan_pool_inv_def take_ready_eq buffered_def)

lemma bucket_le_buffered: "length (bucket pool h) \<le> buffered pool"
  unfolding buffered_def by (rule member_le_sum) auto

end
