(* ===== verification/Node_State.thy ===== *)
theory Node_State
  imports Storage Pow Daa Difficulty_Log Crypto Peer_Guard Orphan_Pool
begin

text \<open>
  The state that the node's event loop owns, its environment, and the parts of block validation
  in \<^verbatim>\<open>vdag-node/src/network.rs\<close> that do not recurse.

  The environment holds what is not in the sources: the hash function, the signature scheme,
  the codec, the database faults, the two clocks.  A clock is read at an index counted by the
  node, so successive readings may differ in any way.
\<close>

definition MAX_GOSSIP_MESSAGE_BYTES :: nat where "MAX_GOSSIP_MESSAGE_BYTES = 2 * 1024 * 1024"
definition MAX_TRANSACTIONS_PER_BLOCK :: nat where "MAX_TRANSACTIONS_PER_BLOCK = 5000"
definition MAX_FUTURE_DRIFT_SECS :: u64 where "MAX_FUTURE_DRIFT_SECS = 30"
definition ORPHAN_POOL_MAX :: nat where "ORPHAN_POOL_MAX = 1024"
definition GOSSIP_TOPIC :: string where "GOSSIP_TOPIC = ''vdag-blocks''"

datatype ip_addr = V4 "32 word" | V6 "128 word"
datatype protocol = Ip4 "32 word" | Ip6 "128 word" | OtherProtocol
type_synonym multiaddr = "protocol list"

record ('pk, 'sg) environment =
  sha3 :: digest
  dili :: "('pk, 'sg) dilithium"
  bin :: bincode
  sled_fault :: faults
  wall_clock :: "nat \<Rightarrow> u64"
  mono_clock :: "nat \<Rightarrow> nat"
  difficulty_mgr :: difficulty_manager

text \<open>What the node asks of the swarm, in order.\<close>

datatype 'p action =
    DisconnectPeer 'p
  | SendSyncRequest 'p sync_request
  | SendSyncResponse nat sync_response
  | AddExplicitPeer 'p
  | RemoveExplicitPeer 'p
  | DialAddress multiaddr
  | PublishBlock "u8 list"

record 'p node =
  n_guard :: "('p, ip_addr) peer_guard"
  n_storage :: blockchain_storage
  n_dag :: ghostdag_manager
  n_orphans :: "'p orphan_pool"
  n_history :: "velo_block list"
  n_log :: difficulty_log
  n_ledger :: ledger_state
  n_target :: bytes32
  n_sync_pending :: bool
  n_reads :: nat
  n_outbox :: "'p action list"

datatype node_error = Storage_Failure storage_error | Panic | Diverges | Out_Of_Fuel

type_synonym 'p outcome = "(node_error, unit) result \<times> 'p node"

definition emit :: "'p action \<Rightarrow> 'p node \<Rightarrow> 'p node" where
  "emit a nd = nd\<lparr>n_outbox := n_outbox nd @ [a]\<rparr>"

text \<open>Reading a clock: the value at the next index.\<close>

definition tick :: "'p node \<Rightarrow> nat \<times> 'p node" where
  "tick nd = (n_reads nd, nd\<lparr>n_reads := Suc (n_reads nd)\<rparr>)"

definition extract_ip :: "multiaddr \<Rightarrow> ip_addr option" where
  "extract_ip addr =
     (case List.map_filter
        (\<lambda>proto. case proto of Ip4 ip \<Rightarrow> Some (V4 ip) | Ip6 ip \<Rightarrow> Some (V6 ip) | OtherProtocol \<Rightarrow> None)
        addr of
        [] \<Rightarrow> None
      | ip # _ \<Rightarrow> Some ip)"

section \<open>Violations\<close>

definition record_violation_and_maybe_ban ::
  "('pk, 'sg) environment \<Rightarrow> 'p option \<Rightarrow> 'p node \<Rightarrow> 'p node"
where
  "record_violation_and_maybe_ban env source nd =
     (case source of
        None \<Rightarrow> nd
      | Some peer \<Rightarrow>
          (case tick nd of (i, nd) \<Rightarrow>
           case record_violation (mono_clock env i) (n_guard nd) peer of (banned, g) \<Rightarrow>
             let nd = nd\<lparr>n_guard := g\<rparr>
             in if banned then emit (DisconnectPeer peer) nd else nd))"

section \<open>Checks\<close>

text \<open>The four checks that look at the block alone; any failure is a violation.\<close>

definition content_ok :: "('pk, 'sg) environment \<Rightarrow> velo_block \<Rightarrow> bool" where
  "content_ok env blk \<longleftrightarrow>
     length (transactions blk) \<le> MAX_TRANSACTIONS_PER_BLOCK \<and>
     verify_coinbase_rewards blk \<and>
     verify_transaction_merkle_root (sha3 env) blk \<and>
     list_all (tx_signed (dili env) (sha3 env)) (transactions blk)"

text \<open>The target check and the proof of work, skipped at height zero.\<close>

definition work_ok :: "('pk, 'sg) environment \<Rightarrow> bytes32 \<Rightarrow> velo_block \<Rightarrow> bool" where
  "work_ok env expected_target blk \<longleftrightarrow>
     (block_height blk > 0 \<longrightarrow>
        difficulty_target (header blk) = expected_target \<and>
        verify_pow (sha3 env) (pow_new expected_target) blk)"

text \<open>
  The parent loop: the tallest height and the latest timestamp, or the first parent that is
  not in the store.
\<close>

definition opt_max :: "u64 option \<Rightarrow> u64 \<Rightarrow> u64 option" where
  "opt_max m v = Some (case m of None \<Rightarrow> v | Some h \<Rightarrow> max h v)"

definition parent_step ::
  "ghostdag_manager \<Rightarrow> u64 option \<times> u64 option \<Rightarrow> bytes32 \<Rightarrow>
     (bytes32, u64 option \<times> u64 option) result"
where
  "parent_step m st p =
     (case hm_get (block_store m) p of
        Some pb \<Rightarrow>
          Inr (opt_max (fst st) (block_height pb), opt_max (snd st) (timestamp (header pb)))
      | None \<Rightarrow> Inl p)"

definition scan_parents ::
  "ghostdag_manager \<Rightarrow> bytes32 list \<Rightarrow> (bytes32, u64 option \<times> u64 option) result"
where
  "scan_parents m ps = try_fold (parent_step m) (None, None) ps"

text \<open>Height and timestamps; the clock is read only when everything before it passes.\<close>

definition position_check ::
  "('pk, 'sg) environment \<Rightarrow> velo_block \<Rightarrow> u64 option \<Rightarrow> u64 option \<Rightarrow> 'p node \<Rightarrow>
     (node_error, bool) result \<times> 'p node"
where
  "position_check env blk max_parent_height max_parent_timestamp nd =
     (if block_height blk = 0 then (Inr (block_parents blk = []), nd)
      else if block_parents blk = [] then (Inr False, nd)
      else
        (case max_parent_height of
           None \<Rightarrow> (Inl Panic, nd)
         | Some h \<Rightarrow>
             if block_height blk \<noteq> h + 1 then (Inr False, nd)
             else if (case max_parent_timestamp of
                        None \<Rightarrow> False | Some ts \<Rightarrow> timestamp (header blk) < ts)
             then (Inr False, nd)
             else
               (case tick nd of (i, nd) \<Rightarrow>
                  let now = wall_clock env i
                  in (Inr (\<not> timestamp (header blk) > saturating_add now MAX_FUTURE_DRIFT_SECS),
                      nd))))"

section \<open>Ingestion\<close>

definition ingest_block_only ::
  "('pk, 'sg) environment \<Rightarrow> velo_block \<Rightarrow> 'p node \<Rightarrow> bytes32 \<times> 'p node"
where
  "ingest_block_only env blk nd =
     (let h = calculate_hash (sha3 env) blk;
          dag_data = calculate_ghostdag_data (n_dag nd) blk;
          st = snd (save_block (sled_fault env) (bin env) h blk (n_storage nd));
          st = snd (save_ghostdag_data (sled_fault env) (bin env) h dag_data st)
      in (h, nd\<lparr>n_storage := st,
               n_dag := (n_dag nd)
                 \<lparr>block_store := hm_insert h blk (block_store (n_dag nd)),
                  ghostdag_cache := (ghostdag_cache (n_dag nd))(h \<mapsto> dag_data)\<rparr>,
               n_history := n_history nd @ [blk]\<rparr>))"

text \<open>
  What follows an ingestion: the ledger is replayed and the target recomputed from the
  canonical order.
\<close>

definition settle ::
  "('pk, 'sg) environment \<Rightarrow> bytes32 \<Rightarrow> 'p node \<Rightarrow> 'p outcome"
where
  "settle env ingested_hash nd =
     (let canonical_tip = (case select_canonical_tip (n_dag nd) of
                             Some t \<Rightarrow> t | None \<Rightarrow> ingested_hash)
      in case recompute_ledger (sha3 env) (n_dag nd) canonical_tip of
           None \<Rightarrow> (Inl Diverges, nd)
         | Some replay \<Rightarrow>
             (let nd = (case replay of
                          Inl _ \<Rightarrow> nd
                        | Inr recomputed \<Rightarrow>
                            nd\<lparr>n_ledger := recomputed,
                               n_storage := snd (save_ledger_state (sled_fault env) (bin env)
                                 recomputed (n_storage nd))\<rparr>)
              in case canonical_block_order (n_dag nd) canonical_tip of
                   None \<Rightarrow> (Inl Diverges, nd)
                 | Some canonical_blocks \<Rightarrow>
                     (case calculate_next_target (difficulty_mgr env) canonical_blocks
                             (n_target nd) of
                        None \<Rightarrow> (Inl Panic, nd)
                      | Some t \<Rightarrow> (Inr (), nd\<lparr>n_target := t\<rparr>))))"

end
