(* ===== verification/Node_Ingest.thy ===== *)
theory Node_Ingest
  imports Node_State Replay
begin

text \<open>
  \<^verbatim>\<open>validate_and_ingest\<close> of \<^verbatim>\<open>vdag-node/src/network.rs\<close>: the one path every block from the network
  takes.  Accepting a block revalidates the orphans that waited for it, which may accept them
  in turn: the recursion is bounded by fuel, and \<open>validate_enough_fuel\<close> shows that more fuel than
  buffered orphans is always enough.
\<close>

section \<open>Definitions\<close>

text \<open>\<^verbatim>\<open>for (source, orphan) in ready { validate_and_ingest(..)?; }\<close>\<close>

fun replay_orphans ::
  "(velo_block \<Rightarrow> 'p option \<Rightarrow> 'p node \<Rightarrow> 'p outcome) \<Rightarrow> 'p orphan list \<Rightarrow> 'p node \<Rightarrow> 'p outcome"
where
  "replay_orphans f [] nd = (Inr (), nd)"
| "replay_orphans f ((source, orphan) # ready) nd =
     (case f orphan source nd of
        (Inl e, nd') \<Rightarrow> (Inl e, nd')
      | (Inr _, nd') \<Rightarrow> replay_orphans f ready nd')"

text \<open>The accepting tail: ledger, persistence, DAG, recomputation; then the ready orphans.\<close>

definition accept_block ::
  "('pk, 'sg) environment \<Rightarrow> (velo_block \<Rightarrow> 'p option \<Rightarrow> 'p node \<Rightarrow> 'p outcome) \<Rightarrow>
     velo_block \<Rightarrow> 'p option \<Rightarrow> 'p node \<Rightarrow> 'p outcome"
where
  "accept_block env again blk source nd =
     (case apply_block (sha3 env) (n_ledger nd) blk of
        (Inl _, l) \<Rightarrow> (Inr (), record_violation_and_maybe_ban env source (nd\<lparr>n_ledger := l\<rparr>))
      | (Inr _, l) \<Rightarrow>
          (let nd = nd\<lparr>n_ledger := l\<rparr> in
           case save_ledger_state (sled_fault env) (bin env) l (n_storage nd) of
             (Inl _, st) \<Rightarrow> (Inr (), nd\<lparr>n_storage := st\<rparr>)
           | (Inr _, st) \<Rightarrow>
               (case ingest_block_only env blk (nd\<lparr>n_storage := st\<rparr>) of
                  (ingested_hash, nd) \<Rightarrow>
                    (case settle env ingested_hash nd of
                       (Inl e, nd) \<Rightarrow> (Inl e, nd)
                     | (Inr _, nd) \<Rightarrow>
                         (case take_ready (n_orphans nd) ingested_hash of
                            (ready, pool) \<Rightarrow>
                              replay_orphans again ready (nd\<lparr>n_orphans := pool\<rparr>))))))"

primrec validate_and_ingest ::
  "('pk, 'sg) environment \<Rightarrow> nat \<Rightarrow> velo_block \<Rightarrow> 'p option \<Rightarrow> 'p node \<Rightarrow> 'p outcome"
where
  "validate_and_ingest env 0 = (\<lambda>blk source nd. (Inl Out_Of_Fuel, nd))"
| "validate_and_ingest env (Suc fuel) = (\<lambda>blk source nd.
     (case load_block (sled_fault env) (bin env) (calculate_hash (sha3 env) blk) (n_storage nd) of
        (Inl e, st) \<Rightarrow> (Inl (Storage_Failure e), nd\<lparr>n_storage := st\<rparr>)
      | (Inr (Some _), st) \<Rightarrow> (Inr (), nd\<lparr>n_storage := st\<rparr>)
      | (Inr None, st) \<Rightarrow>
     (let nd = nd\<lparr>n_storage := st\<rparr> in
      if \<not> content_ok env blk then (Inr (), record_violation_and_maybe_ban env source nd)
      else if \<not> work_ok env (n_target nd) blk
      then (Inr (), record_violation_and_maybe_ban env source nd)
      else
        (let nd = (if block_height blk > 0
                   then nd\<lparr>n_log := log_record (n_log nd) (block_height blk) (n_target nd)\<rparr>
                   else nd)
         in case scan_parents (n_dag nd) (block_parents blk) of
              Inl missing \<Rightarrow>
                (Inr (), nd\<lparr>n_orphans := orphan_insert (n_orphans nd) missing source blk\<rparr>)
            | Inr (max_parent_height, max_parent_timestamp) \<Rightarrow>
                (case position_check env blk max_parent_height max_parent_timestamp nd of
                   (Inl e, nd) \<Rightarrow> (Inl e, nd)
                 | (Inr False, nd) \<Rightarrow> (Inr (), record_violation_and_maybe_ban env source nd)
                 | (Inr True, nd) \<Rightarrow>
                     accept_block env (validate_and_ingest env fuel) blk source nd)))))"

section \<open>What each part leaves alone\<close>

text \<open>The part of the node that consensus is about; the clock is read any number of times.\<close>

definition same_chain :: "'p node \<Rightarrow> 'p node \<Rightarrow> bool" where
  "same_chain nd nd' \<longleftrightarrow>
     n_dag nd' = n_dag nd \<and> n_history nd' = n_history nd \<and> n_target nd' = n_target nd \<and>
     blocks_tree (n_storage nd') = blocks_tree (n_storage nd) \<and> n_reads nd \<le> n_reads nd'"

lemma same_chain_refl [simp]: "same_chain nd nd"
  by (simp add: same_chain_def)

lemma same_chain_trans: "same_chain a b \<Longrightarrow> same_chain b c \<Longrightarrow> same_chain a c"
  by (simp add: same_chain_def)

lemma violation_reads [simp]: "n_reads nd \<le> n_reads (record_violation_and_maybe_ban env s nd)"
  by (auto simp: record_violation_and_maybe_ban_def tick_def emit_def Let_def
      split: option.split prod.split)

lemma violation_frame [simp]:
  "n_storage (record_violation_and_maybe_ban env s nd) = n_storage nd"
  "n_dag (record_violation_and_maybe_ban env s nd) = n_dag nd"
  "n_orphans (record_violation_and_maybe_ban env s nd) = n_orphans nd"
  "n_history (record_violation_and_maybe_ban env s nd) = n_history nd"
  "n_log (record_violation_and_maybe_ban env s nd) = n_log nd"
  "n_ledger (record_violation_and_maybe_ban env s nd) = n_ledger nd"
  "n_target (record_violation_and_maybe_ban env s nd) = n_target nd"
  by (auto simp: record_violation_and_maybe_ban_def tick_def emit_def Let_def
      split: option.split prod.split)

lemma position_check_frame:
  assumes "position_check env blk h ts nd = (r, nd')"
  shows "nd' = nd \<or> nd' = nd\<lparr>n_reads := Suc (n_reads nd)\<rparr>"
  using assms by (auto simp: position_check_def tick_def Let_def split: if_splits option.splits)

lemma settle_frame:
  assumes "settle env h nd = (r, nd')"
  shows "n_dag nd' = n_dag nd" "n_history nd' = n_history nd" "n_orphans nd' = n_orphans nd"
    "blocks_tree (n_storage nd') = blocks_tree (n_storage nd)" "n_reads nd' = n_reads nd"
  using assms
  by (auto simp: settle_def Let_def split: option.splits sum.splits)

lemma ingest_frame:
  assumes "ingest_block_only env blk nd = (h, nd')"
  shows "h = calculate_hash (sha3 env) blk" "n_dag nd' = dag_insert (n_dag nd) h blk"
    "n_history nd' = n_history nd @ [blk]" "n_orphans nd' = n_orphans nd"
    "n_ledger nd' = n_ledger nd" "n_target nd' = n_target nd"
    "blocks_tree (n_storage nd') =
       blocks_tree (snd (save_block (sled_fault env) (bin env) h blk (n_storage nd)))"
    "n_reads nd' = n_reads nd"
  using assms by (auto simp: ingest_block_only_def Let_def dag_insert_def)

section \<open>What an accepted block satisfies\<close>

lemma parent_scan:
  assumes "try_fold (parent_step m) (mh, mt) ps = Inr (mh', mt')"
  shows "set ps \<subseteq> dom (hm_get (block_store m))"
    and "mh' = fold (\<lambda>p m'. opt_max m' (block_height (stored_block m p))) ps mh"
    and "mt' = fold (\<lambda>p m'. opt_max m' (timestamp (header (stored_block m p)))) ps mt"
proof -
  have "set ps \<subseteq> dom (hm_get (block_store m)) \<and>
      mh' = fold (\<lambda>p m'. opt_max m' (block_height (stored_block m p))) ps mh \<and>
      mt' = fold (\<lambda>p m'. opt_max m' (timestamp (header (stored_block m p)))) ps mt"
    using assms
  proof (induction ps arbitrary: mh mt)
    case Nil
    then show ?case by simp
  next
    case (Cons p ps)
    show ?case
    proof (cases "hm_get (block_store m) p")
      case None
      then show ?thesis using Cons.prems by (simp add: parent_step_def)
    next
      case (Some pb)
      then show ?thesis
        using Cons.IH Cons.prems by (auto simp: parent_step_def stored_block_def)
    qed
  qed
  then show "set ps \<subseteq> dom (hm_get (block_store m))"
    and "mh' = fold (\<lambda>p m'. opt_max m' (block_height (stored_block m p))) ps mh"
    and "mt' = fold (\<lambda>p m'. opt_max m' (timestamp (header (stored_block m p)))) ps mt" by auto
qed

lemma opt_max_simps [simp]: "opt_max None v = Some v" "opt_max (Some h) v = Some (max h v)"
  by (simp_all add: opt_max_def)

lemma fold_opt_max_Some:
  "fold (\<lambda>p m'. opt_max m' (f p)) ps (Some v) = Some (fold (\<lambda>p x. max x (f p)) ps v)"
  by (induction ps arbitrary: v) simp_all

lemma fold_opt_max:
  "ps \<noteq> [] \<Longrightarrow> fold (\<lambda>p m'. opt_max m' (f p)) ps None = Some (Max (f ` set ps))"
proof -
  have swap: "(\<lambda>p x. max x (f p)) = max \<circ> f" by (intro ext) (simp add: max.commute)
  have fold: "fold (\<lambda>p x. max x (f p)) qs v = Max (insert v (f ` set qs))" for qs v
    using Max.set_eq_fold [of v "map f qs"] by (simp add: swap fold_map)
  assume "ps \<noteq> []"
  then show ?thesis
    by (cases ps) (simp_all add: fold_opt_max_Some fold)
qed

text \<open>
  Everything that is known of a block when it enters the DAG of a node: \<open>block_sound\<close> for
  every block, mined or received, and \<open>block_valid\<close>, with the time check, for received ones.
\<close>

definition parent_heights :: "ghostdag_manager \<Rightarrow> velo_block \<Rightarrow> u64 set" where
  "parent_heights m b = (\<lambda>p. block_height (stored_block m p)) ` set (block_parents b)"

definition parent_times :: "ghostdag_manager \<Rightarrow> velo_block \<Rightarrow> u64 set" where
  "parent_times m b = (\<lambda>p. timestamp (header (stored_block m p))) ` set (block_parents b)"

definition block_sound :: "('pk, 'sg) environment \<Rightarrow> ghostdag_manager \<Rightarrow> velo_block \<Rightarrow> bool" where
  "block_sound env m b \<longleftrightarrow>
     content_ok env b \<and> block_height b \<noteq> 0 \<and>
     calculate_hash (sha3 env) b \<le> difficulty_target (header b) \<and>
     coinbase_dev_address b = DEV_TREASURY_ADDRESS \<and>
     block_parents b \<noteq> [] \<and> set (block_parents b) \<subseteq> dom (hm_get (block_store m)) \<and>
     block_height b = Max (parent_heights m b) + 1"

definition block_valid :: "('pk, 'sg) environment \<Rightarrow> ghostdag_manager \<Rightarrow> velo_block \<Rightarrow> bool" where
  "block_valid env m b \<longleftrightarrow>
     block_sound env m b \<and> Max (parent_times m b) \<le> timestamp (header b)"

text \<open>Not further in the future than allowed, by the clock reading with index \<open>j\<close>.\<close>

definition on_time :: "('pk, 'sg) environment \<Rightarrow> nat \<Rightarrow> velo_block \<Rightarrow> bool" where
  "on_time env j b \<longleftrightarrow>
     timestamp (header b) \<le> saturating_add (wall_clock env j) MAX_FUTURE_DRIFT_SECS"

text \<open>A received block when it is accepted; the last clock reading was made for it.\<close>

definition admissible :: "('pk, 'sg) environment \<Rightarrow> 'p node \<Rightarrow> velo_block \<Rightarrow> bool" where
  "admissible env nd b \<longleftrightarrow>
     blocks_tree (n_storage nd) (calculate_hash (sha3 env) b) = None \<and>
     difficulty_target (header b) = n_target nd \<and> block_valid env (n_dag nd) b \<and>
     (\<exists>j. n_reads nd = Suc j \<and> on_time env j b)"

text \<open>A block of height zero cannot pass both the coinbase check and the ledger.\<close>

lemma height_zero_rejected:
  assumes "verify_coinbase_rewards b" and "block_height b = 0"
  shows "fst (apply_block sha l b) = Inl GenesisSpendable"
proof -
  have "unat (coinbase_miner_output b) + unat (coinbase_dev_output b) = subsidy_total (block_height b)"
    by (rule coinbase_total [OF assms(1)])
  also have "\<dots> = 83238" using assms(2) by (simp add: subsidy_total_eq emission_at_def)
  finally have "coinbase_miner_output b \<noteq> 0 \<or> coinbase_dev_output b \<noteq> 0" by auto
  then show ?thesis using assms(2) by (simp add: apply_block_def)
qed

lemma position_checked:
  assumes scan: "scan_parents (n_dag nd) (block_parents b) = Inr (mh, mt)"
    and pos: "position_check env b mh mt nd = (Inr True, nd')" and h: "block_height b \<noteq> 0"
  shows "block_parents b \<noteq> []" "set (block_parents b) \<subseteq> dom (hm_get (block_store (n_dag nd)))"
    "block_height b = Max (parent_heights (n_dag nd) b) + 1"
    "Max (parent_times (n_dag nd) b) \<le> timestamp (header b)"
    "n_reads nd' = Suc (n_reads nd)" "on_time env (n_reads nd) b"
proof -
  note ps = parent_scan [OF scan [unfolded scan_parents_def]]
  show ne: "block_parents b \<noteq> []"
    using pos h by (auto simp: position_check_def split: if_splits)
  show "set (block_parents b) \<subseteq> dom (hm_get (block_store (n_dag nd)))" by (rule ps(1))
  have m: "mh = Some (Max (parent_heights (n_dag nd) b))" "mt = Some (Max (parent_times (n_dag nd) b))"
    using ps(2,3) fold_opt_max [OF ne] by (simp_all add: parent_heights_def parent_times_def)
  show "block_height b = Max (parent_heights (n_dag nd) b) + 1"
    "Max (parent_times (n_dag nd) b) \<le> timestamp (header b)"
    "n_reads nd' = Suc (n_reads nd)" "on_time env (n_reads nd) b"
    using pos h ne by (auto simp: position_check_def m tick_def Let_def on_time_def split: if_splits)
qed

lemma position_no_panic:
  assumes scan: "scan_parents (n_dag nd) (block_parents b) = Inr (mh, mt)"
  shows "fst (position_check env b mh mt nd) \<noteq> Inl e"
proof -
  note ps = parent_scan [OF scan [unfolded scan_parents_def]]
  have "mh \<noteq> None" if "block_parents b \<noteq> []" using ps(2) fold_opt_max [OF that] by simp
  then show ?thesis
    by (cases mh) (auto simp: position_check_def tick_def Let_def)
qed

lemma accepted_admissible:
  assumes new: "blocks_tree (n_storage nd) (calculate_hash (sha3 env) b) = None"
    and content: "content_ok env b" and work: "work_ok env (n_target nd) b"
    and scan: "scan_parents (n_dag nd) (block_parents b) = Inr (mh, mt)"
    and pos: "position_check env b mh mt nd = (Inr True, nd')"
    and ledger: "apply_block (sha3 env) l b = (Inr r, l')"
  shows "admissible env nd' b" and "n_reads nd' = Suc (n_reads nd)"
proof -
  have h: "block_height b \<noteq> 0"
  proof
    assume "block_height b = 0"
    with height_zero_rejected [OF _ this, of "sha3 env" l] content ledger show False
      by (simp add: content_ok_def)
  qed
  note checked = position_checked [OF scan pos h]
  show "n_reads nd' = Suc (n_reads nd)" by (rule checked(5))
  have nd': "n_dag nd' = n_dag nd" "n_target nd' = n_target nd" "n_storage nd' = n_storage nd"
    using position_check_frame [OF pos] by auto
  note checked
  moreover have "difficulty_target (header b) = n_target nd"
    "calculate_hash (sha3 env) b \<le> difficulty_target (header b)"
    using work h by (auto simp: work_ok_def verify_pow_def pow_new_def word_gt_0)
  moreover have "coinbase_dev_address b = DEV_TREASURY_ADDRESS"
    using apply_block_Inr [OF ledger h] by metis
  ultimately show "admissible env nd' b"
    using new content h by (simp add: admissible_def block_valid_def block_sound_def nd')
qed

section \<open>The books of a node\<close>

text \<open>
  The ledger and its saved snapshot: what leaves them alone, and what an accepted block does to
  them before it is stored.
\<close>

definition same_books :: "'p node \<Rightarrow> 'p node \<Rightarrow> bool" where
  "same_books nd nd' \<longleftrightarrow>
     n_ledger nd' = n_ledger nd \<and> ledger_tree (n_storage nd') = ledger_tree (n_storage nd)"

lemma same_books_refl [simp]: "same_books nd nd"
  by (simp add: same_books_def)

lemma same_books_trans: "same_books a b \<Longrightarrow> same_books b c \<Longrightarrow> same_books a c"
  by (simp add: same_books_def)

definition save_fails :: "('pk, 'sg) environment \<Rightarrow> bool" where
  "save_fails env \<longleftrightarrow>
     (\<exists>l st e st'. save_ledger_state (sled_fault env) (bin env) l st = (Inl e, st'))"

definition booked :: "('pk, 'sg) environment \<Rightarrow> velo_block \<Rightarrow> 'p node \<Rightarrow> 'p node \<Rightarrow> bool" where
  "booked env b nd nd1 \<longleftrightarrow>
     apply_block (sha3 env) (n_ledger nd) b = (Inr (), n_ledger nd1) \<and>
     (\<exists>st. ledger_tree st = ledger_tree (n_storage nd) \<and>
        save_ledger_state (sled_fault env) (bin env) (n_ledger nd1) st = (Inr (), n_storage nd1))"

lemma booked_from: "same_books nd nd5 \<Longrightarrow> booked env b nd5 nd1 \<Longrightarrow> booked env b nd nd1"
  by (simp add: same_books_def booked_def)

section \<open>One level of the recursion\<close>

text \<open>
  The four ways a call ends: it stops without touching chain or pool; it buffers the block
  under a missing parent; it accepts the block and fails while settling; it accepts the block
  and revalidates what waited for it.
\<close>

lemma accept_step:
  assumes call: "accept_block env again blk source nd = (r, nd')"
    and adm: "\<And>l l' u. apply_block (sha3 env) l blk = (Inr u, l') \<Longrightarrow> admissible env nd blk"
  obtains
    (quiet) "same_chain nd nd'" "n_orphans nd' = n_orphans nd" "r = Inr ()"
      "same_books nd nd' \<or> save_fails env"
  | (settling) nd1 h nd2 e where "same_chain nd nd1" "n_orphans nd1 = n_orphans nd"
      "admissible env nd1 blk" "ingest_block_only env blk nd1 = (h, nd2)"
      "settle env h nd2 = (Inl e, nd')" "r = Inl e" "booked env blk nd nd1"
  | (accepted) nd1 h nd2 nd3 ready pool where "same_chain nd nd1" "n_orphans nd1 = n_orphans nd"
      "admissible env nd1 blk" "ingest_block_only env blk nd1 = (h, nd2)"
      "settle env h nd2 = (Inr (), nd3)" "take_ready (n_orphans nd3) h = (ready, pool)"
      "replay_orphans again ready (nd3\<lparr>n_orphans := pool\<rparr>) = (r, nd')" "booked env blk nd nd1"
proof -
  obtain ra l where ap: "apply_block (sha3 env) (n_ledger nd) blk = (ra, l)" by fastforce
  show thesis
  proof (cases ra)
    case (Inl e)
    with ap call show thesis by (intro quiet) (auto simp: accept_block_def same_chain_def same_books_def
          dest: apply_block_atomic)
  next
    case (Inr u)
    note ok = adm [OF ap [unfolded Inr]]
    let ?nd = "nd\<lparr>n_ledger := l\<rparr>"
    obtain rs st where sv: "save_ledger_state (sled_fault env) (bin env) l (n_storage nd) = (rs, st)"
      by fastforce
    have tree: "blocks_tree st = blocks_tree (n_storage nd)"
      using save_ledger_blocks [of "sled_fault env" "bin env" l "n_storage nd"] sv by simp
    show thesis
    proof (cases rs)
      case (Inl e)
      then have "save_fails env" using sv unfolding save_fails_def by blast
      with Inl ap Inr call sv tree show thesis
        by (intro quiet) (auto simp: accept_block_def same_chain_def Let_def)
    next
      case Inr': (Inr u')
      let ?nd1 = "?nd\<lparr>n_storage := st\<rparr>"
      have sc: "same_chain nd ?nd1" using tree by (simp add: same_chain_def)
      have ad: "admissible env ?nd1 blk" using ok tree by (simp add: admissible_def)
      have bk: "booked env blk nd ?nd1" using ap Inr sv Inr' by (auto simp: booked_def)
      obtain h nd2 where ing: "ingest_block_only env blk ?nd1 = (h, nd2)" by fastforce
      obtain rt nd3 where se: "settle env h nd2 = (rt, nd3)" by fastforce
      have c: "(case rt of
            Inl e \<Rightarrow> (Inl e, nd3)
          | Inr _ \<Rightarrow>
              (case take_ready (n_orphans nd3) h of
                 (ready, pool) \<Rightarrow> replay_orphans again ready (nd3\<lparr>n_orphans := pool\<rparr>))) = (r, nd')"
        using call ap Inr sv Inr' ing se by (simp add: accept_block_def)
      show thesis
      proof (cases rt)
        case (Inl e)
        with c have "nd3 = nd'" "r = Inl e" by simp_all
        with se Inl show thesis by (intro settling [OF sc _ ad ing]) (simp_all add: bk)
      next
        case (Inr u'')
        obtain ready pool where tr: "take_ready (n_orphans nd3) h = (ready, pool)" by fastforce
        from c Inr tr have "replay_orphans again ready (nd3\<lparr>n_orphans := pool\<rparr>) = (r, nd')"
          by simp
        with se Inr tr show thesis by (intro accepted [OF sc _ ad ing]) (simp_all add: bk)
      qed
    qed
  qed
qed

lemma validate_step:
  assumes call: "validate_and_ingest env (Suc fuel) blk source nd = (r, nd')"
  obtains
    (quiet) "same_chain nd nd'" "n_orphans nd' = n_orphans nd"
      "r = Inr () \<or> (\<exists>e st. r = Inl (Storage_Failure e) \<and>
         load_block (sled_fault env) (bin env) (calculate_hash (sha3 env) blk) (n_storage nd) = (Inl e, st))"
      "same_books nd nd' \<or> save_fails env"
  | (orphaned) p where "same_chain nd nd'" "r = Inr ()"
      "n_orphans nd' = orphan_insert (n_orphans nd) p source blk" "same_books nd nd'"
  | (settling) nd1 h nd2 e where "same_chain nd nd1" "n_orphans nd1 = n_orphans nd"
      "admissible env nd1 blk" "ingest_block_only env blk nd1 = (h, nd2)"
      "settle env h nd2 = (Inl e, nd')" "r = Inl e" "booked env blk nd nd1"
      "n_reads nd < n_reads nd1"
  | (accepted) nd1 h nd2 nd3 ready pool where "same_chain nd nd1" "n_orphans nd1 = n_orphans nd"
      "admissible env nd1 blk" "ingest_block_only env blk nd1 = (h, nd2)"
      "settle env h nd2 = (Inr (), nd3)" "take_ready (n_orphans nd3) h = (ready, pool)"
      "replay_orphans (validate_and_ingest env fuel) ready (nd3\<lparr>n_orphans := pool\<rparr>) = (r, nd')"
      "booked env blk nd nd1" "n_reads nd < n_reads nd1"
proof -
  let ?h = "calculate_hash (sha3 env) blk"
  obtain rl st where ld: "load_block (sled_fault env) (bin env) ?h (n_storage nd) = (rl, st)"
    by fastforce
  have tree: "blocks_tree st = blocks_tree (n_storage nd)"
    using load_block_trees [of "sled_fault env" "bin env" ?h "n_storage nd"] ld by simp
  have books: "ledger_tree st = ledger_tree (n_storage nd)"
    using load_block_ledger [of "sled_fault env" "bin env" ?h "n_storage nd"] ld by simp
  define nd0 where "nd0 = nd\<lparr>n_storage := st\<rparr>"
  have sc0: "same_chain nd nd0" "n_orphans nd0 = n_orphans nd" "same_books nd nd0"
    using tree books by (simp_all add: same_chain_def same_books_def nd0_def)
  consider e where "rl = Inl e" | b where "rl = Inr (Some b)" | "rl = Inr None"
    by (cases rl) (auto split: option.split)
  then show thesis
  proof cases
    case 1
    with call ld sc0 show thesis by (intro quiet) (auto simp: nd0_def)
  next
    case 2
    with call ld sc0 show thesis by (intro quiet) (auto simp: nd0_def)
  next
    case 3
    have new: "blocks_tree (n_storage nd0) ?h = None"
      using load_block_None [OF ld [unfolded 3]] tree by (simp add: nd0_def)
    note c0 = call [unfolded validate_and_ingest.simps ld 3 Let_def prod.case sum.case option.case,
        folded nd0_def]
    show thesis
    proof (cases "content_ok env blk \<and> work_ok env (n_target nd0) blk")
      case False
      then have "(r, nd') = (Inr (), record_violation_and_maybe_ban env source nd0)"
        using c0 by (auto split: if_splits)
      then show thesis
        using sc0 by (intro quiet) (auto simp: same_chain_def same_books_def intro: le_trans [OF _ violation_reads])
    next
      case True
      define nd4 where "nd4 = (if block_height blk > 0
          then nd0\<lparr>n_log := log_record (n_log nd0) (block_height blk) (n_target nd0)\<rparr> else nd0)"
      have sc4: "same_chain nd nd4" "n_orphans nd4 = n_orphans nd" "n_target nd4 = n_target nd0"
        "n_storage nd4 = n_storage nd0" "n_dag nd4 = n_dag nd0" "same_books nd nd4"
        using sc0 by (simp_all add: nd4_def same_chain_def same_books_def)
      have c4: "(case scan_parents (n_dag nd4) (block_parents blk) of
            Inl missing \<Rightarrow>
              (Inr (), nd4\<lparr>n_orphans := orphan_insert (n_orphans nd4) missing source blk\<rparr>)
          | Inr (max_parent_height, max_parent_timestamp) \<Rightarrow>
              (case position_check env blk max_parent_height max_parent_timestamp nd4 of
                 (Inl e, nd) \<Rightarrow> (Inl e, nd)
               | (Inr False, nd) \<Rightarrow> (Inr (), record_violation_and_maybe_ban env source nd)
               | (Inr True, nd) \<Rightarrow>
                   accept_block env (validate_and_ingest env fuel) blk source nd)) = (r, nd')"
        using c0 True unfolding nd4_def by simp
      show thesis
      proof (cases "scan_parents (n_dag nd4) (block_parents blk)")
        case (Inl p)
        with c4 sc4 show thesis by (intro orphaned [of p]) (auto simp: same_chain_def same_books_def)
      next
        case (Inr ms)
        obtain mh mt where ms: "ms = (mh, mt)" by (cases ms)
        note scan = Inr [unfolded ms]
        obtain rp nd5 where pos: "position_check env blk mh mt nd4 = (rp, nd5)" by fastforce
        have sc5: "same_chain nd nd5" "n_orphans nd5 = n_orphans nd" "same_chain nd4 nd5" "same_books nd nd5"
          using position_check_frame [OF pos] sc4 by (auto simp: same_chain_def same_books_def)
        obtain ok where rp: "rp = Inr ok"
          using position_no_panic [OF scan, of env] pos by (cases rp) auto
        show thesis
        proof (cases ok)
          case False
          with c4 scan pos rp sc5 show thesis
            by (intro quiet) (auto simp: same_chain_def same_books_def intro: le_trans [OF _ violation_reads])
        next
          case ok: True
          have acc: "accept_block env (validate_and_ingest env fuel) blk source nd5 = (r, nd')"
            using c4 scan pos rp ok by simp
          have new4: "blocks_tree (n_storage nd4) (calculate_hash (sha3 env) blk) = None"
            using new sc4 by simp
          have work: "work_ok env (n_target nd4) blk" using True sc4(3) by simp
          have pos': "position_check env blk mh mt nd4 = (Inr True, nd5)" using pos rp ok by simp
          have content: "content_ok env blk" using True by simp
          note adm = accepted_admissible(1) [OF new4 content work scan pos']
          have later: "n_reads nd < n_reads nd1" if "same_chain nd5 nd1" "booked env blk nd5 nd1"
            for nd1 :: "'a node"
          proof -
            have "n_reads nd5 = Suc (n_reads nd4)"
              using that(2) accepted_admissible(2) [OF new4 content work scan pos']
              unfolding booked_def by blast
            then show ?thesis using that(1) sc4(1) by (simp add: same_chain_def)
          qed
          from acc show thesis
          proof (cases rule: accept_step [consumes 1, case_names prem quiet settling accepted])
            case (prem l l' u)
            then show ?case by (rule adm)
          next
            case quiet
            with sc5 show thesis
              by (intro that(1)) (auto intro: same_chain_trans same_books_trans)
          next
            case (settling nd1 h nd2 e)
            with sc5 show thesis by (intro that(3)) (auto intro: same_chain_trans booked_from later)
          next
            case (accepted nd1 h nd2 nd3 ready pool)
            with sc5 show thesis by (intro that(4)) (auto intro: same_chain_trans booked_from later)
          qed
        qed
      qed
    qed
  qed
qed

end
