(* ===== verification/Node_Invariants.thy ===== *)
theory Node_Invariants
  imports Node_Ingest
begin

text \<open>
  What block ingestion keeps: every block in the DAG has passed every check, the DAG is
  well-formed, the disk holds what the DAG holds, the orphan pool stays bounded; and the
  recursion over orphans ends.
\<close>

section \<open>Bookkeeping of blocks\<close>

text \<open>A call adds at most its own block to what is stored or buffered.\<close>

definition dag_size :: "'p node \<Rightarrow> nat" where
  "dag_size nd = length (block_store (n_dag nd))"

lemma ingest_size:
  assumes "ingest_block_only env blk nd = (h, nd')"
  shows "dag_size nd' \<le> Suc (dag_size nd)"
  using ingest_frame(2) [OF assms] by (simp add: dag_size_def dag_insert_def length_hm_insert)

lemma settle_size: "settle env h nd = (r, nd') \<Longrightarrow> dag_size nd' = dag_size nd"
  by (simp add: dag_size_def settle_frame)

lemma same_chain_size: "same_chain nd nd' \<Longrightarrow> dag_size nd' = dag_size nd"
  by (simp add: same_chain_def dag_size_def)

definition load :: "'p node \<Rightarrow> nat" where
  "load nd = dag_size nd + buffered (n_orphans nd)"

text \<open>The pool invariant, and growth by at most one of the pool and of the total.\<close>

definition bounded_step :: "(velo_block \<Rightarrow> 'p option \<Rightarrow> 'p node \<Rightarrow> 'p outcome) \<Rightarrow> bool" where
  "bounded_step f \<longleftrightarrow>
     (\<forall>blk source nd r nd'. f blk source nd = (r, nd') \<longrightarrow> orphan_pool_inv (n_orphans nd) \<longrightarrow>
        orphan_pool_inv (n_orphans nd') \<and>
        max_size (n_orphans nd') = max_size (n_orphans nd) \<and>
        buffered (n_orphans nd') \<le> Suc (buffered (n_orphans nd)) \<and>
        load nd' \<le> Suc (load nd))"

lemma bounded_stepD:
  assumes "bounded_step f" "f blk source nd = (r, nd')" "orphan_pool_inv (n_orphans nd)"
  shows "orphan_pool_inv (n_orphans nd')" "max_size (n_orphans nd') = max_size (n_orphans nd)"
    "buffered (n_orphans nd') \<le> Suc (buffered (n_orphans nd))" "load nd' \<le> Suc (load nd)"
  using assms unfolding bounded_step_def by blast+

lemma replay_bounded:
  assumes "bounded_step f" "replay_orphans f ready nd = (r, nd')" "orphan_pool_inv (n_orphans nd)"
  shows "orphan_pool_inv (n_orphans nd') \<and> max_size (n_orphans nd') = max_size (n_orphans nd) \<and>
    buffered (n_orphans nd') \<le> buffered (n_orphans nd) + length ready \<and>
    load nd' \<le> load nd + length ready"
  using assms(2,3)
proof (induction ready arbitrary: nd)
  case Nil
  then show ?case by simp
next
  case (Cons orph ready)
  obtain source orphan where orph: "orph = (source, orphan)" by (cases orph)
  obtain r1 nd1 where f: "f orphan source nd = (r1, nd1)" by fastforce
  note b = bounded_stepD [OF assms(1) f Cons.prems(2)]
  show ?case
  proof (cases r1)
    case (Inl e)
    then show ?thesis using Cons.prems b f orph by simp
  next
    case (Inr u)
    then have "replay_orphans f ready nd1 = (r, nd')" using Cons.prems(1) f orph by simp
    from Cons.IH [OF this b(1)] b show ?thesis by simp
  qed
qed

lemma orphan_insert_sizes:
  "orphan_pool_inv pool \<Longrightarrow> orphan_pool_inv (orphan_insert pool p s b) \<and>
     max_size (orphan_insert pool p s b) = max_size pool \<and>
     buffered (orphan_insert pool p s b) \<le> Suc (buffered pool)"
  using orphan_pool_inv_insert [of pool p s b] by (auto simp: orphan_insert_def orphan_pool_inv_def)

lemma take_ready_sizes:
  "orphan_pool_inv pool \<Longrightarrow> take_ready pool h = (ready, pool') \<Longrightarrow>
     orphan_pool_inv pool' \<and> max_size pool' = max_size pool \<and>
     buffered pool' + length ready = buffered pool"
  using orphan_pool_inv_take [of pool h ready pool'] by (auto simp: take_ready_eq)

text \<open>What precedes the replay of ready orphans, measured.\<close>

lemma accepted_sizes:
  assumes "same_chain nd nd1" "n_orphans nd1 = n_orphans nd"
    and "ingest_block_only env blk nd1 = (h, nd2)" and "settle env h nd2 = (rs, nd3)"
  shows "n_orphans nd3 = n_orphans nd" "dag_size nd3 \<le> Suc (dag_size nd)"
    "load nd3 \<le> Suc (load nd)"
proof -
  show o3: "n_orphans nd3 = n_orphans nd"
    using assms(2) ingest_frame(4) [OF assms(3)] settle_frame(3) [OF assms(4)] by simp
  show s3: "dag_size nd3 \<le> Suc (dag_size nd)"
    using ingest_size [OF assms(3)] settle_size [OF assms(4)] same_chain_size [OF assms(1)] by simp
  show "load nd3 \<le> Suc (load nd)" using o3 s3 by (simp add: load_def)
qed

lemma validate_bounded:
  fixes env :: "('pk, 'sg) environment"
  shows "bounded_step (validate_and_ingest env fuel ::
    velo_block \<Rightarrow> 'p option \<Rightarrow> 'p node \<Rightarrow> 'p outcome)"
proof (induction fuel)
  case 0
  then show ?case by (simp add: bounded_step_def)
next
  case (Suc fuel)
  show ?case
    unfolding bounded_step_def
  proof (intro allI impI)
    fix blk and source :: "'p option" and nd r nd'
    assume call: "validate_and_ingest env (Suc fuel) blk source nd = (r, nd')"
      and inv: "orphan_pool_inv (n_orphans nd)"
    let ?goal = "orphan_pool_inv (n_orphans nd') \<and>
        max_size (n_orphans nd') = max_size (n_orphans nd) \<and>
        buffered (n_orphans nd') \<le> Suc (buffered (n_orphans nd)) \<and> load nd' \<le> Suc (load nd)"
    from call show ?goal
    proof (cases rule: validate_step)
      case quiet
      then show ?thesis using inv by (simp add: load_def same_chain_size)
    next
      case (orphaned p)
      then show ?thesis
        using orphan_insert_sizes [OF inv, of p source blk] by (simp add: load_def same_chain_size)
    next
      case (settling nd1 h nd2 e)
      from accepted_sizes [OF settling(1,2,4,5)] show ?thesis using inv by simp
    next
      case (accepted nd1 h nd2 nd3 ready pool)
      note a = accepted_sizes [OF accepted(1,2,4,5)]
      note t = take_ready_sizes [OF inv, of h ready pool]
      have t: "orphan_pool_inv pool" "max_size pool = max_size (n_orphans nd)"
        "buffered pool + length ready = buffered (n_orphans nd)"
        using t accepted(6) a(1) by simp_all
      from replay_bounded [OF Suc.IH accepted(7)] t
      have "orphan_pool_inv (n_orphans nd') \<and> max_size (n_orphans nd') = max_size pool \<and>
          buffered (n_orphans nd') \<le> buffered pool + length ready \<and>
          load nd' \<le> load (nd3\<lparr>n_orphans := pool\<rparr>) + length ready" by simp
      moreover have "load (nd3\<lparr>n_orphans := pool\<rparr>) + length ready \<le> Suc (load nd)"
        using a t by (simp add: load_def dag_size_def)
      ultimately show ?thesis using t by linarith
    qed
  qed
qed

section \<open>Enough fuel\<close>

lemma replay_fuel:
  assumes "\<And>b s n r n'. f b s n = (r, n') \<Longrightarrow> orphan_pool_inv (n_orphans n) \<Longrightarrow>
      buffered (n_orphans n) < fuel \<Longrightarrow> r \<noteq> Inl Out_Of_Fuel"
    and "bounded_step f" and "replay_orphans f ready nd = (r, nd')"
    and "orphan_pool_inv (n_orphans nd)" and "buffered (n_orphans nd) + length ready \<le> fuel"
  shows "r \<noteq> Inl Out_Of_Fuel"
  using assms(3-5)
proof (induction ready arbitrary: nd)
  case Nil
  then show ?case by auto
next
  case (Cons orph ready)
  obtain source orphan where orph: "orph = (source, orphan)" by (cases orph)
  obtain r1 nd1 where f: "f orphan source nd = (r1, nd1)" by fastforce
  note b = bounded_stepD [OF assms(2) f Cons.prems(2)]
  show ?case
  proof (cases r1)
    case (Inl e)
    then have "r = r1" using Cons.prems(1) f orph by simp
    moreover have "r1 \<noteq> Inl Out_Of_Fuel"
      by (rule assms(1) [OF f Cons.prems(2)]) (use Cons.prems(3) in simp)
    ultimately show ?thesis by simp
  next
    case (Inr u)
    then have "replay_orphans f ready nd1 = (r, nd')" using Cons.prems(1) f orph by simp
    then show ?thesis by (rule Cons.IH) (use b Cons.prems(3) in simp_all)
  qed
qed

lemma settle_no_fuel: "settle env h nd = (Inl e, nd') \<Longrightarrow> e \<noteq> Out_Of_Fuel"
  by (auto simp: settle_def Let_def split: option.splits)

lemma validate_enough_fuel:
  fixes nd :: "'a node"
  shows "validate_and_ingest env fuel blk source nd = (r, nd') \<Longrightarrow> orphan_pool_inv (n_orphans nd) \<Longrightarrow>
     buffered (n_orphans nd) < fuel \<Longrightarrow> r \<noteq> Inl Out_Of_Fuel"
proof (induction fuel arbitrary: blk source nd r nd')
  case 0
  then show ?case by simp
next
  case (Suc fuel)
  from Suc.prems(1) show ?case
  proof (cases rule: validate_step)
    case quiet
    then show ?thesis by auto
  next
    case (orphaned p)
    then show ?thesis by auto
  next
    case (settling nd1 h nd2 e)
    then show ?thesis using settle_no_fuel [OF settling(5)] by simp
  next
    case (accepted nd1 h nd2 nd3 ready pool)
    have o3: "n_orphans nd3 = n_orphans nd"
      using accepted_sizes(1) [OF accepted(1,2,4,5)] .
    have t: "orphan_pool_inv pool" "buffered pool + length ready = buffered (n_orphans nd)"
      using take_ready_sizes [OF Suc.prems(2), of h ready pool] accepted(6) o3 by simp_all
    show ?thesis
    proof (rule replay_fuel [OF _ validate_bounded accepted(7)])
      show "r \<noteq> Inl Out_Of_Fuel"
        if "validate_and_ingest env fuel b s n = (r, n')" "orphan_pool_inv (n_orphans n)"
          "buffered (n_orphans n) < fuel" for b s r n' and n :: "'a node"
        using Suc.IH [OF that] .
    qed (use t Suc.prems(3) in simp_all)
  qed
qed

section \<open>Invariants of the stored chain\<close>

text \<open>
  The contract of a property of what a node stores (\<open>chain_invariant\<close>): it does not depend on
  anything else, and the ingestion of an admissible block keeps it.  Every call of
  \<open>validate_and_ingest\<close> keeps it.
\<close>

definition same_store :: "'p node \<Rightarrow> 'p node \<Rightarrow> bool" where
  "same_store nd nd' \<longleftrightarrow>
     n_dag nd' = n_dag nd \<and> n_history nd' = n_history nd \<and>
     blocks_tree (n_storage nd') = blocks_tree (n_storage nd)"

lemma same_chain_store: "same_chain nd nd' \<Longrightarrow> same_store nd nd'"
  by (simp add: same_chain_def same_store_def)

lemma settle_store: "settle env h nd = (r, nd') \<Longrightarrow> same_store nd nd'"
  by (simp add: same_store_def settle_frame)

text \<open>
  More generally, a property of the stored chain, the current target and the books, and of how
  often the clock was read.  It may assume that saving a ledger never fails: otherwise it must not
  depend on the books.
\<close>

locale state_invariant =
  fixes env :: "('pk, 'sg) environment"
    and P :: "'p node \<Rightarrow> bool"
  assumes frame: "same_chain nd nd' \<Longrightarrow> same_books nd nd' \<or> save_fails env \<Longrightarrow> P nd \<Longrightarrow> P nd'"
    and accept: "P nd \<Longrightarrow> same_chain nd nd1 \<Longrightarrow> n_reads nd < n_reads nd1 \<Longrightarrow> booked env blk nd nd1 \<Longrightarrow>
      admissible env nd1 blk \<Longrightarrow> ingest_block_only env blk nd1 = (h, nd2) \<Longrightarrow> settle env h nd2 = (r, nd3) \<Longrightarrow> P nd3"
begin

lemma replay_keeps:
  assumes "\<And>b s n r n'. f b s n = (r, n') \<Longrightarrow> P n \<Longrightarrow> P n'"
    and "replay_orphans f ready nd = (r, nd')" and "P nd"
  shows "P nd'"
  using assms(2,3)
proof (induction ready arbitrary: nd)
  case Nil
  then show ?case by simp
next
  case (Cons orph ready)
  obtain source orphan where orph: "orph = (source, orphan)" by (cases orph)
  obtain r1 nd1 where f: "f orphan source nd = (r1, nd1)" by fastforce
  have "P nd1" using assms(1) [OF f Cons.prems(2)] .
  then show ?case using Cons f orph by (cases r1) auto
qed

lemma validate_keeps:
  "validate_and_ingest env fuel blk source nd = (r, nd') \<Longrightarrow> P nd \<Longrightarrow> P nd'"
proof (induction fuel arbitrary: blk source nd r nd')
  case 0
  then show ?case by simp
next
  case (Suc fuel)
  from Suc.prems(1) show ?case
  proof (cases rule: validate_step)
    case quiet
    then show ?thesis using frame Suc.prems(2) by blast
  next
    case (orphaned p)
    then show ?thesis using frame Suc.prems(2) by blast
  next
    case (settling nd1 h nd2 e)
    from accept [OF Suc.prems(2) settling(1,8,7,3-5)] show ?thesis .
  next
    case (accepted nd1 h nd2 nd3 ready pool)
    from accept [OF Suc.prems(2) accepted(1,9,8,3-5)] have "P nd3" .
    then have "P (nd3\<lparr>n_orphans := pool\<rparr>)"
      by (rule frame [rotated 2]) (simp_all add: same_chain_def same_books_def)
    then show ?thesis using replay_keeps [OF _ accepted(7)] Suc.IH by blast
  qed
qed

end

locale chain_invariant =
  fixes env :: "('pk, 'sg) environment"
    and P :: "'p node \<Rightarrow> bool"
  assumes stored_only: "same_store nd nd' \<Longrightarrow> P nd \<Longrightarrow> P nd'"
    and ingest: "P nd \<Longrightarrow> admissible env nd blk \<Longrightarrow> ingest_block_only env blk nd = (h, nd') \<Longrightarrow> P nd'"

sublocale chain_invariant \<subseteq> state_invariant env P
proof
  show "P nd'" if "same_chain nd nd'" "P nd" for nd nd' :: "'p node"
    by (rule stored_only [OF same_chain_store [OF that(1)] that(2)])
  show "P nd3" if "P nd" "same_chain nd nd1" "admissible env nd1 blk"
      "ingest_block_only env blk nd1 = (h, nd2)" "settle env h nd2 = (r, nd3)"
    for nd nd1 nd2 nd3 :: "'p node" and blk h r
    using stored_only [OF settle_store [OF that(5)] ingest [OF stored_only [OF same_chain_store [OF that(2)] that(1)] that(3,4)]] .
qed

section \<open>The invariant of a node\<close>

text \<open>What the environment promises: a database that works and a faithful block codec.\<close>

definition reliable :: "('pk, 'sg) environment \<Rightarrow> bool" where
  "reliable env \<longleftrightarrow> reliable_db (sled_fault env) \<and> block_codec_ok (bin env)"

text \<open>
  \<open>g\<close> is the hash of the genesis block, which is installed at startup and not validated.
  Disk and DAG hold the same blocks under the same hashes.
\<close>

definition node_inv :: "('pk, 'sg) environment \<Rightarrow> bytes32 \<Rightarrow> 'p node \<Rightarrow> bool" where
  "node_inv env g nd \<longleftrightarrow>
     dag_reachable 3 (n_dag nd) \<and>
     n_history nd = map snd (block_store (n_dag nd)) \<and>
     (\<exists>gb. hm_get (block_store (n_dag nd)) g = Some gb \<and> block_height gb = 0 \<and>
        block_parents gb = [] \<and> g = calculate_hash (sha3 env) gb) \<and>
     (\<forall>h. rel_option (\<lambda>bytes b. de_block (bin env) bytes = Some b)
        (blocks_tree (n_storage nd) h) (hm_get (block_store (n_dag nd)) h)) \<and>
     (\<forall>h b. hm_get (block_store (n_dag nd)) h = Some b \<longrightarrow> h \<noteq> g \<longrightarrow>
        h = calculate_hash (sha3 env) b \<and> block_sound env (n_dag nd) b)"

lemma node_inv_dag: "node_inv env g nd \<Longrightarrow> dag_inv (n_dag nd)"
  unfolding node_inv_def using dag_reachable_inv by blast

lemma node_inv_store: "same_store nd nd' \<Longrightarrow> node_inv env g nd \<Longrightarrow> node_inv env g nd'"
  by (simp add: node_inv_def same_store_def)

lemma block_grows:
  assumes "hm_get (block_store m) h = None" and "block_sound env m b"
  shows "block_sound env (dag_insert m h blk) b"
    and "parent_times (dag_insert m h blk) b = parent_times m b"
proof -
  have par: "p \<noteq> h" if "p \<in> set (block_parents b)" for p
    using assms that by (auto simp: block_sound_def)
  have same: "stored_block (dag_insert m h blk) p = stored_block m p"
    if "p \<in> set (block_parents b)" for p
    using par [OF that] by (simp add: stored_block_def)
  have eq: "parent_heights (dag_insert m h blk) b = parent_heights m b"
    "parent_times (dag_insert m h blk) b = parent_times m b"
    unfolding parent_heights_def parent_times_def using same by (auto intro!: image_cong)
  have "set (block_parents b) \<subseteq> dom (hm_get (block_store (dag_insert m h blk)))"
    using assms(2) by (auto simp: block_sound_def)
  then show "block_sound env (dag_insert m h blk) b"
    using assms(2) unfolding block_sound_def eq by blast
  show "parent_times (dag_insert m h blk) b = parent_times m b" by (rule eq(2))
qed

text \<open>A new sound block is added to DAG, history and disk.\<close>

lemma node_inv_add:
  assumes rel: "reliable env" and inv: "node_inv env g nd" and sound: "block_sound env (n_dag nd) blk"
    and h: "h = calculate_hash (sha3 env) blk" and fresh: "hm_get (block_store (n_dag nd)) h = None"
    and dag: "n_dag nd' = dag_insert (n_dag nd) h blk" and hist: "n_history nd' = n_history nd @ [blk]"
    and disk: "blocks_tree (n_storage nd') =
      blocks_tree (snd (save_block (sled_fault env) (bin env) h blk (n_storage nd)))"
    and size: "dag_size nd' < 2 ^ 32"
  shows "node_inv env g nd'"
proof -
  have store: "block_store (n_dag nd') = block_store (n_dag nd) @ [(h, blk)]"
    using dag fresh by (simp add: dag_insert_def hm_insert_fresh)
  have "dag_reachable 3 (n_dag nd')"
    unfolding dag
  proof (rule dag_reachable.insert [OF _ fresh])
    show "dag_reachable 3 (n_dag nd)" using inv by (simp add: node_inv_def)
    show "set (block_parents blk) \<subseteq> dom (hm_get (block_store (n_dag nd)))"
      using sound by (simp add: block_sound_def)
    show "Suc (length (block_store (n_dag nd))) < 2 ^ 32"
      using size store by (simp add: dag_size_def)
  qed
  moreover have "n_history nd' = map snd (block_store (n_dag nd'))"
    using inv hist store by (simp add: node_inv_def)
  moreover have "\<exists>gb. hm_get (block_store (n_dag nd')) g = Some gb \<and> block_height gb = 0 \<and>
      block_parents gb = [] \<and> g = calculate_hash (sha3 env) gb"
  proof -
    obtain gb where "hm_get (block_store (n_dag nd)) g = Some gb" "block_height gb = 0"
      "block_parents gb = []" "g = calculate_hash (sha3 env) gb"
      using inv unfolding node_inv_def by blast
    moreover from this(1) fresh have "g \<noteq> h" by auto
    ultimately show ?thesis using dag by auto
  qed
  moreover have "rel_option (\<lambda>bytes b. de_block (bin env) bytes = Some b)
      (blocks_tree (n_storage nd') x) (hm_get (block_store (n_dag nd')) x)" for x
  proof -
    obtain bytes where bytes: "de_block (bin env) bytes = Some blk"
      "blocks_tree (snd (save_block (sled_fault env) (bin env) h blk (n_storage nd))) =
         (blocks_tree (n_storage nd))(h \<mapsto> bytes)"
      using save_block_reliable [of "sled_fault env" "bin env" blk h "n_storage nd"] rel
      by (auto simp: reliable_def)
    have old: "rel_option (\<lambda>bytes b. de_block (bin env) bytes = Some b)
        (blocks_tree (n_storage nd) x) (hm_get (block_store (n_dag nd)) x)"
      using inv unfolding node_inv_def by blast
    show ?thesis using old dag disk bytes by (cases "x = h") simp_all
  qed
  moreover have "x = calculate_hash (sha3 env) b \<and> block_sound env (n_dag nd') b"
    if "hm_get (block_store (n_dag nd')) x = Some b" "x \<noteq> g" for x b
  proof (cases "x = h")
    case True
    then have "b = blk" using that dag by simp
    then show ?thesis using True h dag block_grows(1) [OF fresh sound] by simp
  next
    case False
    then have "hm_get (block_store (n_dag nd)) x = Some b" using that dag by simp
    then show ?thesis
      using inv that(2) block_grows(1) [OF fresh] unfolding dag node_inv_def by blast
  qed
  ultimately show ?thesis unfolding node_inv_def by blast
qed

lemma ingest_fresh:
  assumes inv: "node_inv env g nd" and adm: "admissible env nd blk"
    and ing: "ingest_block_only env blk nd = (h, nd')"
  shows "hm_get (block_store (n_dag nd)) h = None"
proof -
  have "rel_option (\<lambda>bytes b. de_block (bin env) bytes = Some b)
      (blocks_tree (n_storage nd) h) (hm_get (block_store (n_dag nd)) h)"
    using inv unfolding node_inv_def by blast
  then show ?thesis using adm ingest_frame(1) [OF ing] by (simp add: admissible_def)
qed

lemma node_inv_ingest:
  assumes "reliable env" and inv: "node_inv env g nd" and adm: "admissible env nd blk"
    and ing: "ingest_block_only env blk nd = (h, nd')" and "dag_size nd' < 2 ^ 32"
  shows "node_inv env g nd'"
proof -
  note fr = ingest_frame [OF ing]
  have "block_sound env (n_dag nd) blk" using adm by (simp add: admissible_def block_valid_def)
  from node_inv_add [OF assms(1) inv this fr(1) ingest_fresh [OF inv adm ing] fr(2,3,7) assms(5)]
  show ?thesis .
qed

text \<open>
  As long as there are fewer than \<open>2 ^ 32\<close> blocks: \<open>node_sound\<close> for every node, \<open>node_strict\<close>
  for one that does not mine.
\<close>

definition node_sound :: "('pk, 'sg) environment \<Rightarrow> bytes32 \<Rightarrow> 'p node \<Rightarrow> bool" where
  "node_sound env g nd \<longleftrightarrow> (reliable env \<longrightarrow> dag_size nd < 2 ^ 32 \<longrightarrow> node_inv env g nd)"

definition times_ordered :: "bytes32 \<Rightarrow> ghostdag_manager \<Rightarrow> bool" where
  "times_ordered g m \<longleftrightarrow>
     (\<forall>h b. hm_get (block_store m) h = Some b \<longrightarrow> h \<noteq> g \<longrightarrow>
        Max (parent_times m b) \<le> timestamp (header b))"

definition node_strict :: "('pk, 'sg) environment \<Rightarrow> bytes32 \<Rightarrow> 'p node \<Rightarrow> bool" where
  "node_strict env g nd \<longleftrightarrow>
     (reliable env \<longrightarrow> dag_size nd < 2 ^ 32 \<longrightarrow> node_inv env g nd \<and> times_ordered g (n_dag nd))"

lemma ingest_size_mono:
  "ingest_block_only env blk nd = (h, nd') \<Longrightarrow> dag_size nd \<le> dag_size nd'"
  using ingest_frame(2) [of env blk nd h nd'] by (simp add: dag_size_def dag_insert_def length_hm_insert)

lemma times_ordered_add:
  assumes "node_inv env g nd" and "times_ordered g (n_dag nd)"
    and fresh: "hm_get (block_store (n_dag nd)) h = None" and valid: "block_valid env (n_dag nd) blk"
  shows "times_ordered g (dag_insert (n_dag nd) h blk)"
  unfolding times_ordered_def
proof (intro allI impI)
  fix x b
  assume x: "hm_get (block_store (dag_insert (n_dag nd) h blk)) x = Some b" "x \<noteq> g"
  show "Max (parent_times (dag_insert (n_dag nd) h blk) b) \<le> timestamp (header b)"
  proof (cases "x = h")
    case True
    have sound: "block_sound env (n_dag nd) blk" using valid by (simp add: block_valid_def)
    have "b = blk" using x True by simp
    then show ?thesis using valid block_grows(2) [OF fresh sound] by (simp add: block_valid_def)
  next
    case False
    then have old: "hm_get (block_store (n_dag nd)) x = Some b" using x by simp
    then have "block_sound env (n_dag nd) b" using assms(1) x(2) unfolding node_inv_def by blast
    from block_grows(2) [OF fresh this] show ?thesis
      using assms(2) old x(2) unfolding times_ordered_def by metis
  qed
qed

interpretation sound_chain: chain_invariant env "node_sound env g" for env g
proof
  show "node_sound env g nd'" if "same_store nd nd'" "node_sound env g nd" for nd nd'
    using that node_inv_store [OF that(1), of env g] by (simp add: node_sound_def same_store_def dag_size_def)
  show "node_sound env g nd'"
    if "node_sound env g nd" "admissible env nd blk" "ingest_block_only env blk nd = (h, nd')"
    for nd blk h nd'
    using that node_inv_ingest [OF _ _ that(2,3)] ingest_size_mono [OF that(3)]
    by (simp add: node_sound_def)
qed

interpretation strict_chain: chain_invariant env "node_strict env g" for env g
proof
  show "node_strict env g nd'" if "same_store nd nd'" "node_strict env g nd" for nd nd'
    using that node_inv_store [OF that(1), of env g] by (simp add: node_strict_def same_store_def dag_size_def)
  show "node_strict env g nd'"
    if "node_strict env g nd" "admissible env nd blk" "ingest_block_only env blk nd = (h, nd')"
    for nd blk h nd'
    unfolding node_strict_def
  proof (intro impI)
    assume r: "reliable env" "dag_size nd' < 2 ^ 32"
    have old: "node_inv env g nd" "times_ordered g (n_dag nd)"
      using that(1) r ingest_size_mono [OF that(3)] by (simp_all add: node_strict_def)
    show "node_inv env g nd' \<and> times_ordered g (n_dag nd')"
      using node_inv_ingest [OF r(1) old(1) that(2,3) r(2)]
        times_ordered_add [OF old ingest_fresh [OF old(1) that(2,3)]] that(2)
      by (simp add: ingest_frame(2) [OF that(3)] admissible_def)
  qed
qed

section \<open>A call returns\<close>

text \<open>Any result other than success, fuel aside: an endless loop, a panic, a storage error.\<close>

definition crash :: "(node_error, unit) result \<Rightarrow> bool" where
  "crash r \<longleftrightarrow> r \<noteq> Inr () \<and> r \<noteq> Inl Out_Of_Fuel"

lemma get_linear_sort_total: "dag_inv m \<Longrightarrow> \<exists>order. get_linear_sort m h = Some order"
  using linear_loop_total [of m "[]" h] by (auto simp: get_linear_sort_def)

lemma next_target_total:
  "0 < window_size dm \<Longrightarrow> \<exists>t. calculate_next_target dm bs c = Some t"
  using calculate_next_target_eq [of dm bs c]
  by (cases "length bs < window_size dm") (auto simp: calculate_next_target_def)

text \<open>Settling takes ledger and target from the canonical order of the tip.\<close>

lemma settle_result:
  assumes inv: "dag_inv (n_dag nd)" and win: "0 < window_size (difficulty_mgr env)"
    and tip: "tip = (case select_canonical_tip (n_dag nd) of Some t \<Rightarrow> t | None \<Rightarrow> h)"
    and call: "settle env h nd = (r, nd')"
  shows "r = Inr ()"
    and "recompute_ledger (sha3 env) (n_dag nd) tip = Some (Inr l) \<Longrightarrow> n_ledger nd' = l"
    and "recompute_ledger (sha3 env) (n_dag nd) tip = Some (Inl e) \<Longrightarrow> n_ledger nd' = n_ledger nd"
    and "canonical_block_order (n_dag nd) tip = Some bs \<Longrightarrow>
      calculate_next_target (difficulty_mgr env) bs (n_target nd) = Some (n_target nd')"
proof -
  obtain order where order: "get_linear_sort (n_dag nd) tip = Some order"
    using get_linear_sort_total [OF inv] by blast
  define replay where "replay = try_fold (replay_step (sha3 env) (n_dag nd)) ledger_default order"
  define blocks where "blocks = List.map_filter (hm_get (block_store (n_dag nd))) order"
  have rec: "recompute_ledger (sha3 env) (n_dag nd) tip = Some replay"
    and ord: "canonical_block_order (n_dag nd) tip = Some blocks"
    by (simp_all add: recompute_ledger_def canonical_block_order_def order replay_def blocks_def)
  define nd1 where "nd1 = (case replay of Inl _ \<Rightarrow> nd | Inr recomputed \<Rightarrow>
      nd\<lparr>n_ledger := recomputed, n_storage := snd (save_ledger_state (sled_fault env) (bin env)
        recomputed (n_storage nd))\<rparr>)"
  have nd1: "n_dag nd1 = n_dag nd" "n_target nd1 = n_target nd"
    "n_ledger nd1 = (case replay of Inl _ \<Rightarrow> n_ledger nd | Inr l \<Rightarrow> l)"
    by (simp_all add: nd1_def split: sum.split)
  obtain t where t: "calculate_next_target (difficulty_mgr env) blocks (n_target nd) = Some t"
    using next_target_total [OF win] by blast
  have "settle env h nd = (Inr (), nd1\<lparr>n_target := t\<rparr>)"
    unfolding settle_def Let_def tip [symmetric] rec option.case nd1_def [symmetric]
    by (simp add: nd1 ord t)
  with call have res: "r = Inr ()" "nd' = nd1\<lparr>n_target := t\<rparr>" by simp_all
  show "r = Inr ()" by (rule res(1))
  show "recompute_ledger (sha3 env) (n_dag nd) tip = Some (Inr l) \<Longrightarrow> n_ledger nd' = l"
    "recompute_ledger (sha3 env) (n_dag nd) tip = Some (Inl e) \<Longrightarrow> n_ledger nd' = n_ledger nd"
    using rec res nd1(3) by simp_all
  show "calculate_next_target (difficulty_mgr env) bs (n_target nd) = Some (n_target nd')"
    if "canonical_block_order (n_dag nd) tip = Some bs"
    using that ord t res by simp
qed

lemma settle_returns:
  assumes "dag_inv (n_dag nd)" and "0 < window_size (difficulty_mgr env)"
    and "settle env h nd = (r, nd')"
  shows "r = Inr ()"
  by (rule settle_result(1) [OF assms(1,2) refl assms(3)])

lemma load_size: "dag_size nd \<le> load nd"
  by (simp add: load_def)

lemma replay_no_crash:
  assumes f: "\<And>b s n r n'. f b s n = (r, n') \<Longrightarrow> node_sound env g n \<Longrightarrow>
      orphan_pool_inv (n_orphans n) \<Longrightarrow> Suc (load n) < 2 ^ 32 \<Longrightarrow>
      \<not> crash r \<and> node_sound env g n'"
    and "bounded_step f" and "replay_orphans f ready nd = (r, nd')"
    and "node_sound env g nd" and "orphan_pool_inv (n_orphans nd)"
    and "load nd + length ready < 2 ^ 32"
  shows "\<not> crash r"
  using assms(3-6)
proof (induction ready arbitrary: nd)
  case Nil
  then show ?case by (auto simp: crash_def)
next
  case (Cons orph ready)
  obtain source orphan where orph: "orph = (source, orphan)" by (cases orph)
  obtain r1 nd1 where call: "f orphan source nd = (r1, nd1)" by fastforce
  have ok: "\<not> crash r1" "node_sound env g nd1"
    using f [OF call Cons.prems(2,3)] Cons.prems(4) by simp_all
  note b = bounded_stepD [OF assms(2) call Cons.prems(3)]
  show ?case
  proof (cases r1)
    case (Inl e)
    then show ?thesis using ok Cons.prems(1) call orph by simp
  next
    case (Inr u)
    then have "replay_orphans f ready nd1 = (r, nd')" using Cons.prems(1) call orph by simp
    then show ?thesis by (rule Cons.IH) (use ok b Cons.prems(4) in simp_all)
  qed
qed

lemma load_block_reliable:
  assumes "reliable env" and "node_inv env g nd"
  shows "load_block (sled_fault env) (bin env) h (n_storage nd) \<noteq> (Inl e, st)"
proof -
  have "rel_option (\<lambda>bytes b. de_block (bin env) bytes = Some b)
      (blocks_tree (n_storage nd) h) (hm_get (block_store (n_dag nd)) h)"
    using assms(2) unfolding node_inv_def by blast
  then show ?thesis
    using assms(1)
    by (cases "blocks_tree (n_storage nd) h"; cases "hm_get (block_store (n_dag nd)) h")
      (simp_all add: load_block_def read_entry_def db_op_def Let_def reliable_def reliable_db_def)
qed

lemma validate_no_crash:
  fixes nd :: "'p node"
  assumes rel: "reliable env" and win: "0 < window_size (difficulty_mgr env)"
  shows "validate_and_ingest env fuel blk source nd = (r, nd') \<Longrightarrow> node_sound env g nd \<Longrightarrow>
    orphan_pool_inv (n_orphans nd) \<Longrightarrow> Suc (load nd) < 2 ^ 32 \<Longrightarrow> \<not> crash r"
proof (induction fuel arbitrary: blk source nd r nd')
  case 0
  then show ?case by (auto simp: crash_def)
next
  case (Suc fuel)
  have settled: "rs = Inr ()" if c: "same_chain nd nd1" "n_orphans nd1 = n_orphans nd"
      "admissible env nd1 blk" "ingest_block_only env blk nd1 = (h, nd2)" "settle env h nd2 = (rs, nd3)"
    for nd1 h and nd2 nd3 :: "'p node" and rs
  proof -
    have "node_sound env g nd1"
      by (rule sound_chain.stored_only [OF same_chain_store [OF c(1)] Suc.prems(2)])
    then have "node_sound env g nd2" using c(3,4) by (rule sound_chain.ingest)
    moreover have "dag_size nd2 < 2 ^ 32"
      using ingest_size [OF c(4)] same_chain_size [OF c(1)] load_size [of nd] Suc.prems(4) by simp
    ultimately have "dag_inv (n_dag nd2)" using rel by (auto simp: node_sound_def intro: node_inv_dag)
    from settle_returns [OF this win c(5)] show ?thesis .
  qed
  have inv: "node_inv env g nd"
    using Suc.prems(2,4) rel load_size [of nd] by (simp add: node_sound_def)
  from Suc.prems(1) show ?case
  proof (cases rule: validate_step)
    case quiet
    then show ?thesis using load_block_reliable [OF rel inv] by (auto simp: crash_def)
  next
    case (orphaned p)
    then show ?thesis by (simp add: crash_def)
  next
    case (settling nd1 h nd2 e)
    from settled [OF settling(1-5)] show ?thesis by simp
  next
    case (accepted nd1 h nd2 nd3 ready pool)
    note a = accepted_sizes [OF accepted(1,2,4,5)]
    have t: "orphan_pool_inv pool" "buffered pool + length ready = buffered (n_orphans nd)"
      using take_ready_sizes [OF Suc.prems(3), of h ready pool] accepted(6) a(1) by simp_all
    have s1: "node_sound env g nd1"
      by (rule sound_chain.stored_only [OF same_chain_store [OF accepted(1)] Suc.prems(2)])
    have "node_sound env g nd2" using s1 accepted(3,4) by (rule sound_chain.ingest)
    then have "node_sound env g nd3"
      by (rule sound_chain.stored_only [OF settle_store [OF accepted(5)]])
    then have s3: "node_sound env g (nd3\<lparr>n_orphans := pool\<rparr>)"
      by (rule sound_chain.stored_only [rotated]) (simp add: same_store_def)
    show ?thesis
    proof (rule replay_no_crash [OF _ validate_bounded accepted(7) s3])
      show "\<not> crash r \<and> node_sound env g n'"
        if "validate_and_ingest env fuel b s n = (r, n')" "node_sound env g n"
          "orphan_pool_inv (n_orphans n)" "Suc (load n) < 2 ^ 32"
        for b s r n' and n :: "'p node"
        using Suc.IH [OF that] sound_chain.validate_keeps [OF that(1,2)] by simp
      show "load (nd3\<lparr>n_orphans := pool\<rparr>) + length ready < 2 ^ 32"
        using a t Suc.prems(4) by (simp add: load_def dag_size_def)
    qed (use t in simp)
  qed
qed

end
