(* ===== verification/Node_Events.thy ===== *)
theory Node_Events
  imports Node_Invariants
begin

text \<open>
  The event handlers of \<^verbatim>\<open>vdag-node/src/network.rs\<close> around \<^verbatim>\<open>validate_and_ingest\<close>: gossip,
  synchronisation and connections.  The swarm is the outbox of the node.  The fuel of a call is
  one more than the capacity of the orphan pool.
\<close>

record gossip_message =
  gm_topic :: string
  gm_data :: "u8 list"

text \<open>
  The events of the swarm that the dispatcher matches, in its order.  A topic hash of
  \<^verbatim>\<open>IdentTopic\<close> is the topic string itself.
\<close>

datatype 'p swarm_event =
    Gossip_Message 'p gossip_message
  | Mdns_Discovered "('p \<times> multiaddr) list"
  | Mdns_Expired "('p \<times> multiaddr) list"
  | Sync_Request 'p nat sync_request
  | Sync_Response 'p sync_response
  | Sync_Outbound_Failure 'p
  | New_Listen_Addr multiaddr
  | Connection_Established 'p multiaddr
  | Connection_Closed 'p multiaddr
  | Other_Event

definition ingest_fuel :: "'p node \<Rightarrow> nat" where
  "ingest_fuel nd = Suc (max_size (n_orphans nd))"

definition validate :: "('pk, 'sg) environment \<Rightarrow> velo_block \<Rightarrow> 'p option \<Rightarrow> 'p node \<Rightarrow> 'p outcome" where
  "validate env blk source nd = validate_and_ingest env (ingest_fuel nd) blk source nd"

definition handle_gossip_block ::
  "('pk, 'sg) environment \<Rightarrow> gossip_message \<Rightarrow> 'p \<Rightarrow> 'p node \<Rightarrow> 'p outcome"
where
  "handle_gossip_block env message propagation_source nd =
     (if gm_topic message \<noteq> GOSSIP_TOPIC then (Inr (), nd)
      else if length (gm_data message) > MAX_GOSSIP_MESSAGE_BYTES
      then (Inr (), record_violation_and_maybe_ban env (Some propagation_source) nd)
      else
        (case de_block (bin env) (gm_data message) of
           None \<Rightarrow> (Inr (), record_violation_and_maybe_ban env (Some propagation_source) nd)
         | Some incoming_block \<Rightarrow> validate env incoming_block (Some propagation_source) nd))"

definition build_sync_response ::
  "sync_request \<Rightarrow> bytes32 \<Rightarrow> velo_block list \<Rightarrow> u64 \<Rightarrow> sync_response"
where
  "build_sync_response request genesis_hash history local_network_id =
     (if rq_network_id request \<noteq> local_network_id \<or> rq_genesis_hash request \<noteq> genesis_hash
      then GenesisMismatch
      else Blocks (take MAX_SYNC_BLOCKS
             (filter (\<lambda>b. block_height b > rq_since_height request) history)))"

fun sync_blocks ::
  "('pk, 'sg) environment \<Rightarrow> 'p \<Rightarrow> velo_block list \<Rightarrow> 'p node \<Rightarrow> 'p outcome"
where
  "sync_blocks env peer [] nd = (Inr (), nd)"
| "sync_blocks env peer (b # bs) nd =
     (case validate env b (Some peer) nd of
        (Inl e, nd') \<Rightarrow> (Inl e, nd')
      | (Inr _, nd') \<Rightarrow> sync_blocks env peer bs nd')"

definition handle_sync_response ::
  "('pk, 'sg) environment \<Rightarrow> 'p \<Rightarrow> sync_response \<Rightarrow> 'p node \<Rightarrow> 'p outcome"
where
  "handle_sync_response env peer response nd =
     (case response of
        Blocks bs \<Rightarrow> sync_blocks env peer bs nd
      | GenesisMismatch \<Rightarrow> (Inr (), emit (DisconnectPeer peer) nd))"

definition highest :: "velo_block list \<Rightarrow> u64" where
  "highest history = (case map block_height history of [] \<Rightarrow> 0 | h # hs \<Rightarrow> foldl max h hs)"

definition handle_connection_established ::
  "('pk, 'sg) environment \<Rightarrow> bytes32 \<Rightarrow> u64 \<Rightarrow> 'p \<Rightarrow> multiaddr \<Rightarrow> 'p node \<Rightarrow> 'p outcome"
where
  "handle_connection_established env genesis_hash local_network_id peer addr nd =
     (case tick nd of (i, nd) \<Rightarrow>
      case on_connection_established (mono_clock env i) (n_guard nd) peer (extract_ip addr) of
        (decision, g) \<Rightarrow>
          (let nd = nd\<lparr>n_guard := g\<rparr> in
           if decision \<noteq> Allow then (Inr (), emit (DisconnectPeer peer) nd)
           else
             (Inr (), emit (SendSyncRequest peer
                \<lparr>rq_network_id = local_network_id, rq_genesis_hash = genesis_hash,
                 rq_since_height = highest (n_history nd)\<rparr>) (nd\<lparr>n_sync_pending := True\<rparr>))))"

definition handle_p2p_events ::
  "('pk, 'sg) environment \<Rightarrow> bytes32 \<Rightarrow> u64 \<Rightarrow> 'p swarm_event \<Rightarrow> 'p node \<Rightarrow> 'p outcome"
where
  "handle_p2p_events env genesis_hash local_network_id event nd =
     (case event of
        Gossip_Message source message \<Rightarrow> handle_gossip_block env message source nd
      | Mdns_Discovered found \<Rightarrow>
          (Inr (), foldl (\<lambda>nd (peer, addr). emit (DialAddress addr) (emit (AddExplicitPeer peer) nd))
             nd found)
      | Mdns_Expired lost \<Rightarrow>
          (Inr (), foldl (\<lambda>nd (peer, addr). emit (RemoveExplicitPeer peer) nd) nd lost)
      | Sync_Request peer channel request \<Rightarrow>
          (Inr (), emit (SendSyncResponse channel
             (build_sync_response request genesis_hash (n_history nd) local_network_id)) nd)
      | Sync_Response peer response \<Rightarrow>
          (case handle_sync_response env peer response nd of
             (Inl e, nd') \<Rightarrow> (Inl e, nd')
           | (Inr _, nd') \<Rightarrow> (Inr (), nd'\<lparr>n_sync_pending := False\<rparr>))
      | Sync_Outbound_Failure peer \<Rightarrow> (Inr (), nd\<lparr>n_sync_pending := False\<rparr>)
      | New_Listen_Addr addr \<Rightarrow> (Inr (), nd)
      | Connection_Established peer addr \<Rightarrow>
          handle_connection_established env genesis_hash local_network_id peer addr nd
      | Connection_Closed peer addr \<Rightarrow>
          (Inr (), nd\<lparr>n_guard := on_connection_closed (n_guard nd) peer (extract_ip addr)\<rparr>)
      | Other_Event \<Rightarrow> (Inr (), nd))"

section \<open>Every event keeps the invariants\<close>

lemma emit_frame [simp]:
  "n_dag (emit a nd) = n_dag nd" "n_history (emit a nd) = n_history nd"
  "n_storage (emit a nd) = n_storage nd" "n_orphans (emit a nd) = n_orphans nd"
  "n_guard (emit a nd) = n_guard nd" "n_ledger (emit a nd) = n_ledger nd"
  "n_target (emit a nd) = n_target nd" "n_reads (emit a nd) = n_reads nd"
  by (simp_all add: emit_def)

lemma mdns_reads [simp]:
  "n_reads (foldl (\<lambda>nd (peer, addr). emit (DialAddress addr) (emit (AddExplicitPeer peer) nd)) nd ps) =
     n_reads nd"
  "n_reads (foldl (\<lambda>nd (peer, addr). emit (RemoveExplicitPeer peer) nd) nd ps) = n_reads nd"
  by (induction ps arbitrary: nd) auto

lemma mdns_frame:
  fixes nd :: "'p node" and ps :: "('p \<times> multiaddr) list"
  shows "same_chain nd (foldl (\<lambda>nd (peer, addr). emit (DialAddress addr) (emit (AddExplicitPeer peer) nd)) nd ps)"
    and "same_chain nd (foldl (\<lambda>nd (peer, addr). emit (RemoveExplicitPeer peer) nd) nd ps)"
    and "n_orphans (foldl (\<lambda>nd (peer, addr). emit (DialAddress addr) (emit (AddExplicitPeer peer) nd)) nd ps) =
      n_orphans nd"
    and "n_orphans (foldl (\<lambda>nd (peer, addr). emit (RemoveExplicitPeer peer) nd) nd ps) = n_orphans nd"
    and "same_books nd (foldl (\<lambda>nd (peer, addr). emit (DialAddress addr) (emit (AddExplicitPeer peer) nd)) nd ps)"
    and "same_books nd (foldl (\<lambda>nd (peer, addr). emit (RemoveExplicitPeer peer) nd) nd ps)"
  by (induction ps arbitrary: nd) (auto simp: same_chain_def same_books_def)

lemma established_frame:
  assumes "handle_connection_established env gh net peer addr nd = (r, nd')"
  shows "n_dag nd' = n_dag nd" "n_history nd' = n_history nd" "n_storage nd' = n_storage nd"
    "n_orphans nd' = n_orphans nd" "n_ledger nd' = n_ledger nd"
    "n_target nd' = n_target nd" "n_reads nd \<le> n_reads nd'"
  using assms
  by (auto simp: handle_connection_established_def tick_def Let_def split: prod.splits if_splits)

text \<open>
  What is common to all handlers: what the node stores changes by validated blocks only, and
  the orphan pool keeps its bound.
\<close>

definition guarded :: "('p node \<Rightarrow> bool) \<Rightarrow> 'p node \<Rightarrow> bool" where
  "guarded P nd \<longleftrightarrow>
     P nd \<and> orphan_pool_inv (n_orphans nd) \<and> max_size (n_orphans nd) = ORPHAN_POOL_MAX"

context state_invariant
begin

lemma guarded_store:
  "guarded P nd \<Longrightarrow> same_chain nd nd' \<Longrightarrow> same_books nd nd' \<Longrightarrow> n_orphans nd' = n_orphans nd \<Longrightarrow>
     guarded P nd'"
  using frame [of nd nd'] by (simp add: guarded_def)

lemma guarded_frame:
  "guarded P nd \<Longrightarrow> n_dag nd' = n_dag nd \<Longrightarrow> n_history nd' = n_history nd \<Longrightarrow>
     n_storage nd' = n_storage nd \<Longrightarrow> n_orphans nd' = n_orphans nd \<Longrightarrow> n_ledger nd' = n_ledger nd \<Longrightarrow>
     n_target nd' = n_target nd \<Longrightarrow> n_reads nd \<le> n_reads nd' \<Longrightarrow> guarded P nd'"
  by (erule guarded_store) (simp_all add: same_chain_def same_books_def)

lemma validate_guarded:
  "validate env blk source nd = (r, nd') \<Longrightarrow> guarded P nd \<Longrightarrow> guarded P nd'"
  using validate_keeps [of "ingest_fuel nd" blk source nd r nd']
    bounded_stepD(1,2) [OF validate_bounded [of env "ingest_fuel nd"], of blk source nd r nd']
  by (simp add: validate_def guarded_def)

lemma violation_guarded:
  "guarded P nd \<Longrightarrow> guarded P (record_violation_and_maybe_ban env s nd)"
  by (erule guarded_frame) simp_all

lemma gossip_guarded:
  "handle_gossip_block env msg source nd = (r, nd') \<Longrightarrow> guarded P nd \<Longrightarrow> guarded P nd'"
  by (auto simp: handle_gossip_block_def violation_guarded intro: validate_guarded
      split: if_splits option.splits)

lemma sync_blocks_guarded:
  "sync_blocks env peer bs nd = (r, nd') \<Longrightarrow> guarded P nd \<Longrightarrow> guarded P nd'"
proof (induction bs arbitrary: nd)
  case Nil
  then show ?case by simp
next
  case (Cons b bs)
  obtain r1 nd1 where v: "validate env b (Some peer) nd = (r1, nd1)" by fastforce
  have "guarded P nd1" by (rule validate_guarded [OF v Cons.prems(2)])
  then show ?case using Cons v by (cases r1) auto
qed

lemma sync_response_guarded:
  "handle_sync_response env peer response nd = (r, nd') \<Longrightarrow> guarded P nd \<Longrightarrow> guarded P nd'"
  by (cases response)
    (auto simp: handle_sync_response_def intro: sync_blocks_guarded guarded_frame)

lemma event_guarded:
  assumes call: "handle_p2p_events env gh net event nd = (r, nd')" and safe: "guarded P nd"
  shows "guarded P nd'"
proof (cases event)
  case (Gossip_Message source message)
  then show ?thesis using call safe gossip_guarded by (simp add: handle_p2p_events_def)
next
  case (Mdns_Discovered found)
  then have eq: "nd' = foldl (\<lambda>nd (peer, addr). emit (DialAddress addr) (emit (AddExplicitPeer peer) nd))
      nd found" using call by (simp add: handle_p2p_events_def)
  show ?thesis unfolding eq by (rule guarded_store [OF safe mdns_frame(1) mdns_frame(5) mdns_frame(3)])
next
  case (Mdns_Expired lost)
  then have eq: "nd' = foldl (\<lambda>nd (peer, addr). emit (RemoveExplicitPeer peer) nd) nd lost"
    using call by (simp add: handle_p2p_events_def)
  show ?thesis unfolding eq by (rule guarded_store [OF safe mdns_frame(2) mdns_frame(6) mdns_frame(4)])
next
  case (Sync_Response peer response)
  obtain r1 nd1 where h: "handle_sync_response env peer response nd = (r1, nd1)" by fastforce
  have s1: "guarded P nd1" by (rule sync_response_guarded [OF h safe])
  then show ?thesis
    using call Sync_Response h
    by (cases r1) (auto simp: handle_p2p_events_def intro: guarded_frame [OF s1])
next
  case (Connection_Established peer addr)
  then have "handle_connection_established env gh net peer addr nd = (r, nd')"
    using call by (simp add: handle_p2p_events_def)
  from established_frame [OF this] show ?thesis by (intro guarded_frame [OF safe])
qed (use call safe in \<open>auto simp: handle_p2p_events_def intro: guarded_frame\<close>)

end

section \<open>Sync answers\<close>

lemma build_sync_response_blocks:
  "build_sync_response rq gh history net = Blocks bs \<Longrightarrow>
     rq_network_id rq = net \<and> rq_genesis_hash rq = gh \<and> length bs \<le> 500 \<and>
     set bs \<subseteq> set history \<and> (\<forall>b \<in> set bs. rq_since_height rq < block_height b)"
  by (auto simp: build_sync_response_def MAX_SYNC_BLOCKS_def split: if_splits dest!: in_set_takeD)

end
