(* ===== verification/Node_Startup.thy ===== *)
theory Node_Startup
  imports Node_Events
begin

text \<open>
  Startup of the node (\<^verbatim>\<open>main\<close> of \<^verbatim>\<open>vdag-node/src/main.rs\<close>, sections 3 and 4): a fresh database
  gets the network's fixed genesis block, an existing one is loaded block by block in height
  order, and the ledger is replayed from the canonical order.  An \<^verbatim>\<open>unwrap\<close> that fails is the
  result \<^const>\<open>Panic\<close>.
\<close>

section \<open>Definitions\<close>

definition base_node :: "blockchain_storage \<Rightarrow> 'p node" where
  "base_node st =
     \<lparr>n_guard = peer_guard_new, n_storage = st, n_dag = ghostdag_new 3,
      n_orphans = orphan_pool_new ORPHAN_POOL_MAX, n_history = [], n_log = difficulty_log_new,
      n_ledger = ledger_default, n_target = fill 15, n_sync_pending = False, n_reads = 0,
      n_outbox = []\<rparr>"

text \<open>\<^verbatim>\<open>x.unwrap()\<close> on a storage operation.\<close>

definition unwrapped ::
  "(storage_error, unit) result \<times> blockchain_storage \<Rightarrow>
     (blockchain_storage \<Rightarrow> (node_error, 'a) result) \<Rightarrow> (node_error, 'a) result"
where
  "unwrapped io k = (case io of (Inl _, st) \<Rightarrow> Inl Panic | (Inr _, st) \<Rightarrow> k st)"

definition start_fresh ::
  "('pk, 'sg) environment \<Rightarrow> u64 \<Rightarrow> 'p node \<Rightarrow> (node_error, 'p node) result"
where
  "start_fresh env network_id nd =
     (let genesis_block = fixed_genesis_block_for_network network_id;
          genesis_hash = fixed_genesis_hash_for_network (sha3 env) network_id
      in case apply_block (sha3 env) (n_ledger nd) genesis_block of
           (Inl _, l) \<Rightarrow> Inl Panic
         | (Inr _, l) \<Rightarrow>
             (let data = calculate_ghostdag_data (n_dag nd) genesis_block in
              unwrapped (save_block (sled_fault env) (bin env) genesis_hash genesis_block (n_storage nd)) (\<lambda>st.
              unwrapped (save_ghostdag_data (sled_fault env) (bin env) genesis_hash data st) (\<lambda>st.
              unwrapped (save_ledger_state (sled_fault env) (bin env) l st) (\<lambda>st.
                Inr (nd\<lparr>n_ledger := l, n_storage := st,
                        n_dag := dag_insert (n_dag nd) genesis_hash genesis_block,
                        n_history := [genesis_block]\<rparr>))))))"

definition resume_step :: "digest \<Rightarrow> 'p node \<Rightarrow> velo_block \<Rightarrow> 'p node" where
  "resume_step sha nd blk =
     (if block_height blk = 0 then nd
      else nd\<lparr>n_dag := dag_insert (n_dag nd) (calculate_hash sha blk) blk,
              n_history := n_history nd @ [blk]\<rparr>)"

definition fall_back :: "ledger_state option \<Rightarrow> 'p node \<Rightarrow> 'p node" where
  "fall_back persisted nd = (case persisted of None \<Rightarrow> nd | Some l \<Rightarrow> nd\<lparr>n_ledger := l\<rparr>)"

definition resume_ledger ::
  "('pk, 'sg) environment \<Rightarrow> ledger_state option \<Rightarrow> 'p node \<Rightarrow> (node_error, 'p node) result"
where
  "resume_ledger env persisted nd =
     (case select_canonical_tip (n_dag nd) of
        None \<Rightarrow> Inr (fall_back persisted nd)
      | Some canonical_tip \<Rightarrow>
          (case recompute_ledger (sha3 env) (n_dag nd) canonical_tip of
             None \<Rightarrow> Inl Diverges
           | Some (Inl _) \<Rightarrow> Inr (fall_back persisted nd)
           | Some (Inr recomputed) \<Rightarrow>
               Inr (nd\<lparr>n_ledger := recomputed,
                       n_storage := snd (save_ledger_state (sled_fault env) (bin env) recomputed
                         (n_storage nd))\<rparr>)))"

definition start_resumed ::
  "('pk, 'sg) environment \<Rightarrow> bytes32 \<Rightarrow> velo_block \<Rightarrow> ledger_state option \<Rightarrow> 'p node \<Rightarrow>
     (node_error, 'p node) result"
where
  "start_resumed env genesis_hash genesis_blk persisted nd =
     (let nd = nd\<lparr>n_dag := dag_insert (n_dag nd) genesis_hash genesis_blk,
                  n_history := [genesis_blk]\<rparr>
      in case load_all_blocks (sled_fault env) (bin env) (n_storage nd) of
           (Inl _, st) \<Rightarrow> resume_ledger env persisted (nd\<lparr>n_storage := st\<rparr>)
         | (Inr stored_blocks, st) \<Rightarrow>
             resume_ledger env persisted
               (foldl (resume_step (sha3 env)) (nd\<lparr>n_storage := st\<rparr>) stored_blocks))"

definition start_node ::
  "('pk, 'sg) environment \<Rightarrow> u64 \<Rightarrow> blockchain_storage \<Rightarrow> (node_error, 'p node) result"
where
  "start_node env network_id st =
     (let genesis_hash = fixed_genesis_hash_for_network (sha3 env) network_id in
      case load_ledger_state (sled_fault env) (bin env) st of (rl, st) \<Rightarrow>
      let persisted = (case rl of Inl _ \<Rightarrow> None | Inr s \<Rightarrow> s) in
      case load_block (sled_fault env) (bin env) genesis_hash st of (rb, st) \<Rightarrow>
      case (case rb of
              Inl _ \<Rightarrow> Inr (base_node st)
            | Inr None \<Rightarrow> start_fresh env network_id (base_node st)
            | Inr (Some genesis_blk) \<Rightarrow>
                start_resumed env genesis_hash genesis_blk persisted (base_node st)) of
        Inl e \<Rightarrow> Inl e
      | Inr nd \<Rightarrow>
          Inr (if n_history nd = [] then nd
               else nd\<lparr>n_target := difficulty_target (header (last (n_history nd)))\<rparr>))"

section \<open>A fresh node\<close>

lemma genesis_sels [simp]:
  "block_parents (fixed_genesis_block_for_network i) = []"
  "block_height (fixed_genesis_block_for_network i) = 0"
  "transactions (fixed_genesis_block_for_network i) = []"
  "coinbase_miner_output (fixed_genesis_block_for_network i) = 0"
  "coinbase_dev_output (fixed_genesis_block_for_network i) = 0"
  "difficulty_target (header (fixed_genesis_block_for_network i)) = fill 15"
  by (simp_all add: fixed_genesis_block_for_network_def)

lemma genesis_applies: "apply_block sha l (fixed_genesis_block_for_network i) = (Inr (), l)"
  by (simp add: apply_block_def)

lemma write_entry_ok:
  "write_entry fault ser put st = (Inr r, st') \<Longrightarrow> \<exists>bytes. ser = Some bytes"
  by (auto simp: write_entry_def split: option.splits)

text \<open>What a successful start on an empty database holds.\<close>

lemma start_fresh_shape:
  assumes "start_fresh env i (base_node st) = Inr nd"
  shows "n_dag nd = dag_insert (ghostdag_new 3) (fixed_genesis_hash_for_network (sha3 env) i)
      (fixed_genesis_block_for_network i)"
    and "n_history nd = [fixed_genesis_block_for_network i]"
    and "n_orphans nd = orphan_pool_new ORPHAN_POOL_MAX"
    and "n_ledger nd = ledger_default" and "n_guard nd = peer_guard_new"
    and "\<exists>st' u. save_block (sled_fault env) (bin env) (fixed_genesis_hash_for_network (sha3 env) i)
        (fixed_genesis_block_for_network i) st = (Inr u, st') \<and>
      blocks_tree (n_storage nd) = blocks_tree st'"
proof -
  let ?g = "fixed_genesis_block_for_network i" and ?h = "fixed_genesis_hash_for_network (sha3 env) i"
  let ?f = "sled_fault env" and ?b = "bin env"
  let ?d = "calculate_ghostdag_data (ghostdag_new 3) ?g"
  obtain r1 st1 where s1: "save_block ?f ?b ?h ?g st = (r1, st1)" by fastforce
  obtain r2 st2 where s2: "save_ghostdag_data ?f ?b ?h ?d st1 = (r2, st2)" by fastforce
  obtain r3 st3 where s3: "save_ledger_state ?f ?b ledger_default st2 = (r3, st3)" by fastforce
  have tree: "blocks_tree st3 = blocks_tree st1"
    using save_data_blocks [of ?f ?b ?h ?d st1] save_ledger_blocks [of ?f ?b ledger_default st2]
      s2 s3 by simp
  from assms have "r1 = Inr () \<and> nd = (base_node st)\<lparr>n_ledger := ledger_default, n_storage := st3,
      n_dag := dag_insert (ghostdag_new 3) ?h ?g, n_history := [?g]\<rparr>"
    by (auto simp: start_fresh_def Let_def base_node_def genesis_applies unwrapped_def s1 s2 s3
        split: sum.splits)
  then have r1: "r1 = Inr ()" and nd: "nd = (base_node st)\<lparr>n_ledger := ledger_default,
      n_storage := st3, n_dag := dag_insert (ghostdag_new 3) ?h ?g, n_history := [?g]\<rparr>" by auto
  show "n_dag nd = dag_insert (ghostdag_new 3) ?h ?g" "n_history nd = [?g]"
    "n_orphans nd = orphan_pool_new ORPHAN_POOL_MAX" "n_ledger nd = ledger_default"
    "n_guard nd = peer_guard_new"
    by (simp_all add: nd base_node_def)
  show "\<exists>st' u. save_block ?f ?b ?h ?g st = (Inr u, st') \<and> blocks_tree (n_storage nd) = blocks_tree st'"
    using s1 r1 tree by (auto simp: nd)
qed

text \<open>A database without blocks: the node starts in a state that satisfies the invariants.\<close>

lemma start_node_fresh:
  assumes "blocks_tree st = Map.empty" and "start_node env i st = Inr nd" and "reliable env"
  obtains st1 nd0 where "start_fresh env i (base_node st1) = Inr nd0"
    "blocks_tree st1 = Map.empty"
    "nd = nd0\<lparr>n_target := fill 15\<rparr>"
proof -
  let ?h = "fixed_genesis_hash_for_network (sha3 env) i"
  obtain rl st1 where l: "load_ledger_state (sled_fault env) (bin env) st = (rl, st1)" by fastforce
  obtain rb st2 where b: "load_block (sled_fault env) (bin env) ?h st1 = (rb, st2)" by fastforce
  have t1: "blocks_tree st1 = Map.empty"
    using l assms(1) read_entry_trees(1) [of "sled_fault env" "\<lambda>s. ledger_tree s ''current''"
        "de_ledger (bin env)" st] by (simp add: load_ledger_state_def)
  then have t2: "blocks_tree st2 = Map.empty"
    using b load_block_trees [of "sled_fault env" "bin env" ?h st1] by simp
  have rb: "rb = Inr None"
    using b t1 assms(3) by (auto simp: load_block_def read_entry_def db_op_def Let_def reliable_def
        reliable_db_def)
  from assms(2) obtain nd0 where nd0: "start_fresh env i (base_node st2) = Inr nd0"
    "nd = (if n_history nd0 = [] then nd0
       else nd0\<lparr>n_target := difficulty_target (header (last (n_history nd0)))\<rparr>)"
    by (auto simp: start_node_def Let_def l b rb split: sum.splits)
  show thesis
    by (rule that [OF nd0(1) t2]) (use nd0(2) start_fresh_shape(2) [OF nd0(1)] in simp)
qed

lemma resume_frame:
  "n_orphans (foldl (resume_step sha) nd bs) = n_orphans nd"
  "n_guard (foldl (resume_step sha) nd bs) = n_guard nd"
  by (induction bs arbitrary: nd) (simp_all add: resume_step_def)

lemma resume_ledger_frame:
  "resume_ledger env persisted nd = Inr nd' \<Longrightarrow> n_orphans nd' = n_orphans nd \<and> n_guard nd' = n_guard nd"
  by (auto simp: resume_ledger_def fall_back_def split: option.splits sum.splits)

text \<open>Orphans and connections are not kept across restarts.\<close>

lemma start_node_pool:
  assumes "start_node env i st = Inr nd"
  shows "n_orphans nd = orphan_pool_new ORPHAN_POOL_MAX \<and> n_guard nd = peer_guard_new"
proof -
  have base: "n_orphans (base_node s) = orphan_pool_new ORPHAN_POOL_MAX"
    "n_guard (base_node s) = peer_guard_new" for s :: blockchain_storage
    by (simp_all add: base_node_def)
  have fresh: "n_orphans nd1 = n_orphans nd0 \<and> n_guard nd1 = n_guard nd0"
    if "start_fresh env i nd0 = Inr nd1" for nd0 nd1 :: "'a node"
    using that by (auto simp: start_fresh_def Let_def unwrapped_def split: prod.splits sum.splits)
  have resumed: "n_orphans nd1 = n_orphans nd0 \<and> n_guard nd1 = n_guard nd0"
    if "start_resumed env h b p nd0 = Inr nd1" for nd0 nd1 :: "'a node" and h b p
    using that
    by (auto simp: start_resumed_def Let_def resume_frame split: prod.splits sum.splits
        dest!: resume_ledger_frame)
  show ?thesis
    using assms
    by (auto simp: start_node_def Let_def base split: prod.splits sum.splits option.splits
        dest!: fresh resumed)
qed

lemma start_node_capacity:
  assumes "start_node env i st = Inr nd"
  shows "orphan_pool_inv (n_orphans nd) \<and> max_size (n_orphans nd) = ORPHAN_POOL_MAX"
  using start_node_pool [OF assms] orphan_pool_inv_new [of ORPHAN_POOL_MAX]
  by (simp add: orphan_pool_new_def)

lemma start_node_guarded:
  assumes "blocks_tree st = Map.empty" and "start_node env i st = Inr nd" and rel: "reliable env"
  shows "guarded (node_strict env (fixed_genesis_hash_for_network (sha3 env) i)) nd"
proof -
  let ?g = "fixed_genesis_block_for_network i" and ?h = "fixed_genesis_hash_for_network (sha3 env) i"
  obtain st1 nd0 where s: "start_fresh env i (base_node st1) = Inr nd0"
    "blocks_tree st1 = Map.empty" "nd = nd0\<lparr>n_target := fill 15\<rparr>"
    by (rule start_node_fresh [OF assms])
  note shape = start_fresh_shape [OF s(1)]
  obtain bytes where bytes: "de_block (bin env) bytes = Some ?g"
    "blocks_tree (snd (save_block (sled_fault env) (bin env) ?h ?g st1)) = (blocks_tree st1)(?h \<mapsto> bytes)"
    using save_block_reliable [of "sled_fault env" "bin env" ?g ?h st1] rel
    by (auto simp: reliable_def)
  then have tree: "blocks_tree (n_storage nd0) = [?h \<mapsto> bytes]"
    using shape(6) s(2) by auto
  have "dag_reachable 3 (n_dag nd0)"
    unfolding shape(1) by (rule dag_reachable.insert [OF dag_reachable.empty])
      (simp_all add: ghostdag_new_def)
  then have "node_inv env ?h nd0"
    using tree bytes(1)
    by (simp add: node_inv_def shape(1,2) dag_insert_def ghostdag_new_def
        fixed_genesis_hash_for_network_def)
  then have "node_inv env ?h nd" using node_inv_store [of nd0 nd] by (simp add: s(3) same_store_def)
  moreover have "times_ordered ?h (n_dag nd)"
    by (simp add: times_ordered_def s(3) shape(1) ghostdag_new_def)
  moreover have "orphan_pool_inv (n_orphans nd) \<and> max_size (n_orphans nd) = ORPHAN_POOL_MAX"
    by (rule start_node_capacity [OF assms(2)])
  ultimately show ?thesis by (simp add: guarded_def node_strict_def)
qed

end
