(* ===== verification/Node_Restart.thy ===== *)
theory Node_Restart
  imports Node_Startup Replay
begin

text \<open>
  A restart from disk rebuilds the DAG: loading the stored blocks in height order puts every
  block after its parents, and the result holds the same blocks, colours and canonical tip as
  the node that wrote them.
\<close>

section \<open>Heights grow along edges\<close>

lemma block_sound_parent_height:
  assumes "block_sound env m b" and "p \<in> set (block_parents b)"
  shows "block_height (stored_block m p) < block_height b"
proof -
  let ?M = "Max (parent_heights m b)"
  have "block_height (stored_block m p) \<le> ?M"
    using assms(2) by (intro Max_ge) (auto simp: parent_heights_def)
  moreover have "?M < ?M + 1"
  proof -
    have "block_height b = ?M + 1" "block_height b \<noteq> 0"
      using assms(1) unfolding block_sound_def by blast+
    then have "unat (1 + ?M) = Suc (unat ?M)" by (intro unatSuc) (simp add: add.commute)
    then show ?thesis by (simp add: word_less_nat_alt add.commute)
  qed
  moreover have "block_height b = ?M + 1" using assms(1) unfolding block_sound_def by blast
  ultimately show ?thesis by simp
qed

lemma store_length:
  "dag_inv m \<Longrightarrow> length (block_store m) = card (dom (hm_get (block_store m)))"
  using distinct_card [OF hm.distinct_enum [of "block_store m"]] dag_inv_simps(7) [of m]
    hm.set_enum [of "block_store m"] by (simp add: hm_keys_def)

section \<open>Reading everything back\<close>

lemma load_entries_reliable:
  assumes "reliable env" and "\<forall>h \<in> set hs. \<exists>bytes. blocks_tree st h = Some bytes \<and>
      de_block (bin env) bytes = Some (f h)"
  shows "\<exists>st'. load_entries (sled_fault env) (bin env) hs st = (Inr (map f hs), st') \<and>
    blocks_tree st' = blocks_tree st"
  using assms(2)
proof (induction hs arbitrary: st)
  case Nil
  then show ?case by simp
next
  case (Cons h hs)
  obtain bytes where "blocks_tree st h = Some bytes" "de_block (bin env) bytes = Some (f h)"
    using Cons.prems by auto
  then obtain st1 where st1: "load_block (sled_fault env) (bin env) h st = (Inr (Some (f h)), st1)"
    "blocks_tree st1 = blocks_tree st"
    using assms(1) by (simp add: load_block_def read_entry_def db_op_def Let_def reliable_def
        reliable_db_def)
  obtain st2 where "load_entries (sled_fault env) (bin env) hs st1 = (Inr (map f hs), st2)"
    "blocks_tree st2 = blocks_tree st1"
    using Cons.IH [of st1] Cons.prems st1(2) by auto
  then show ?case using st1 by simp
qed

lemma load_all_reliable:
  assumes rel: "reliable env" and tree: "\<forall>h. rel_option (\<lambda>bytes b. de_block (bin env) bytes = Some b)
      (blocks_tree st h) (hm_get (block_store m) h)"
  obtains bs st' where "load_all_blocks (sled_fault env) (bin env) st = (Inr bs, st')"
    "blocks_tree st' = blocks_tree st" "sorted (map block_height bs)"
    "mset bs = mset (map (stored_block m) (sorted_list_of_set (dom (hm_get (block_store m)))))"
proof -
  let ?hs = "sorted_list_of_set (dom (blocks_tree st))"
  have dom: "dom (blocks_tree st) = dom (hm_get (block_store m))"
  proof (rule set_eqI)
    fix h show "h \<in> dom (blocks_tree st) \<longleftrightarrow> h \<in> dom (hm_get (block_store m))"
      using spec [OF tree, of h] by (auto simp: domIff option_rel_Some1 option_rel_Some2
          elim!: option.rel_cases)
  qed
  have "\<forall>h \<in> set ?hs. \<exists>bytes. blocks_tree st h = Some bytes \<and>
      de_block (bin env) bytes = Some (stored_block m h)"
  proof
    fix h assume "h \<in> set ?hs"
    then obtain bytes where bytes: "blocks_tree st h = Some bytes" by auto
    then obtain b where "hm_get (block_store m) h = Some b" "de_block (bin env) bytes = Some b"
      using spec [OF tree, of h] by (auto simp: option_rel_Some1)
    with bytes show "\<exists>bytes. blocks_tree st h = Some bytes \<and>
        de_block (bin env) bytes = Some (stored_block m h)" by (simp add: stored_block_def)
  qed
  from load_entries_reliable [OF rel this] obtain st' where
    "load_entries (sled_fault env) (bin env) ?hs st = (Inr (map (stored_block m) ?hs), st')"
    "blocks_tree st' = blocks_tree st" by blast
  then show thesis
    by (intro that [of "sort_key block_height (map (stored_block m) ?hs)" st'])
      (simp_all add: load_all_blocks_def dom)
qed

section \<open>Rebuilding the DAG\<close>

lemma resume_step_dag:
  "n_dag (resume_step sha nd b) =
     (if block_height b = 0 then n_dag nd else dag_insert (n_dag nd) (calculate_hash sha b) b)"
  by (simp add: resume_step_def)

lemma resume_step_skip: "block_height b = 0 \<Longrightarrow> resume_step sha nd b = nd"
  by (simp add: resume_step_def)

text \<open>The part of the store that a prefix of the loaded blocks accounts for.\<close>

definition rebuilt ::
  "digest \<Rightarrow> bytes32 \<Rightarrow> ghostdag_manager \<Rightarrow> velo_block list \<Rightarrow> bytes32 \<Rightarrow> velo_block option"
where
  "rebuilt sha g m ps h =
     (if h = g \<or> (\<exists>b \<in> set ps. block_height b \<noteq> 0 \<and> h = calculate_hash sha b)
      then hm_get (block_store m) h else None)"

lemma resume_prefix:
  fixes nd0 :: "'p node"
  assumes inv: "node_inv env g nd" and m: "m = n_dag nd"
    and bs: "mset bs = mset (map (stored_block m) (sorted_list_of_set (dom (hm_get (block_store m)))))"
    and sorted: "sorted (map block_height bs)"
    and nd0: "n_dag nd0 = dag_insert (ghostdag_new 3) g gb" "hm_get (block_store m) g = Some gb"
      "block_parents gb = []" "block_height gb = 0" "n_history nd0 = [gb]"
  shows "bs = ps @ qs \<Longrightarrow>
    dag_reachable 3 (n_dag (foldl (resume_step (sha3 env)) nd0 ps)) \<and>
    n_history (foldl (resume_step (sha3 env)) nd0 ps) =
      map snd (block_store (n_dag (foldl (resume_step (sha3 env)) nd0 ps))) \<and>
    hm_get (block_store (n_dag (foldl (resume_step (sha3 env)) nd0 ps))) = rebuilt (sha3 env) g m ps"
proof (induction ps arbitrary: qs rule: rev_induct)
  case Nil
  have "dag_reachable 3 (n_dag nd0)"
    unfolding nd0(1) by (rule dag_reachable.insert [OF dag_reachable.empty])
      (simp_all add: ghostdag_new_def nd0(3))
  moreover have "n_history nd0 = map snd (block_store (n_dag nd0))"
    by (simp add: nd0 dag_insert_def ghostdag_new_def)
  ultimately show ?case using nd0 by (auto simp: rebuilt_def ghostdag_new_def)
next
  case (snoc b ps)
  let ?h = "calculate_hash (sha3 env) b" and ?S = "hm_get (block_store m)"
  let ?nd = "foldl (resume_step (sha3 env)) nd0 ps"
  have IH: "dag_reachable 3 (n_dag ?nd)"
    "n_history ?nd = map snd (block_store (n_dag ?nd))" "hm_get (block_store (n_dag ?nd)) = rebuilt (sha3 env) g m ps"
    using snoc.IH [of "b # qs"] snoc.prems by simp_all
  show ?case
  proof (cases "block_height b = 0")
    case True
    then have "rebuilt (sha3 env) g m (ps @ [b]) = rebuilt (sha3 env) g m ps"
      by (intro ext) (auto simp: rebuilt_def)
    with IH True show ?thesis by (simp add: resume_step_skip)
  next
    case False
    have minv: "dag_inv m" using node_inv_dag [OF inv] m by simp
    have valid: "x = calculate_hash (sha3 env) c \<and> block_sound env m c"
      if "?S x = Some c" "block_height c \<noteq> 0" for x c
    proof -
      have "x \<noteq> g" using that nd0(2,4) by auto
      then show ?thesis using inv that(1) m unfolding node_inv_def by blast
    qed
    have stored: "\<exists>x. ?S x = Some c" if "c \<in> set bs" for c
    proof -
      have "set bs = stored_block m ` dom ?S"
        using arg_cong [OF bs, of set_mset] by simp
      with that show ?thesis by (auto simp: stored_block_def dom_def)
    qed
    from stored [of b] snoc.prems obtain x where x: "?S x = Some b" by auto
    with valid [OF x False] have hb: "?S ?h = Some b" and bv: "block_sound env m b" by auto
    have hg: "?h \<noteq> g" using hb nd0(2,4) False by auto
    \<comment> \<open>the block is new\<close>
    have dist: "distinct bs"
    proof -
      have "inj_on (stored_block m) (dom ?S)"
      proof (rule inj_onI)
        fix x y assume xy: "x \<in> dom ?S" "y \<in> dom ?S" "stored_block m x = stored_block m y"
        then obtain c where c: "?S x = Some c" "?S y = Some c" by (auto simp: stored_block_def)
        show "x = y"
        proof (cases "block_height c = 0")
          case False
          then show ?thesis using valid c by metis
        next
          case True
          have "z = g" if "?S z = Some c" for z
            using inv that True m unfolding node_inv_def block_sound_def by blast
          then show ?thesis using c by metis
        qed
      qed
      then have "distinct (map (stored_block m) (sorted_list_of_set (dom ?S)))"
        by (simp add: distinct_map)
      then show ?thesis by (metis bs mset_eq_imp_distinct_iff)
    qed
    have fresh: "rebuilt (sha3 env) g m ps ?h = None"
    proof -
      have "?h \<noteq> calculate_hash (sha3 env) c" if "c \<in> set ps" "block_height c \<noteq> 0" for c
      proof
        assume eq: "?h = calculate_hash (sha3 env) c"
        have "c \<in> set bs" using \<open>c \<in> set ps\<close> snoc.prems by simp
        from stored [OF this] obtain y where "?S y = Some c" by blast
        then have "?S ?h = Some c" using valid that(2) eq by metis
        with hb have "c = b" by simp
        with that(1) dist snoc.prems show False by simp
      qed
      then show ?thesis using hg by (auto simp: rebuilt_def)
    qed
    \<comment> \<open>its parents are there\<close>
    have par: "set (block_parents b) \<subseteq> dom (rebuilt (sha3 env) g m ps)"
    proof
      fix p assume p: "p \<in> set (block_parents b)"
      then obtain c where c: "?S p = Some c" using bv by (auto simp: block_sound_def)
      show "p \<in> dom (rebuilt (sha3 env) g m ps)"
      proof (cases "p = g")
        case True
        then show ?thesis using c by (auto simp: rebuilt_def)
      next
        case pg: False
        then have cv: "p = calculate_hash (sha3 env) c" "block_sound env m c"
          using inv c m unfolding node_inv_def by blast+
        have "c \<in> set bs"
        proof -
          have "set bs = stored_block m ` dom ?S" using arg_cong [OF bs, of set_mset] by simp
          moreover have "stored_block m p = c" using c by (simp add: stored_block_def)
          ultimately show ?thesis using c by blast
        qed
        moreover have lt: "block_height c < block_height b"
          using block_sound_parent_height [OF bv p] c by (simp add: stored_block_def)
        ultimately have "c \<in> set ps"
          using sorted snoc.prems by (auto simp: sorted_append)
        moreover have "block_height c \<noteq> 0" using cv(2) unfolding block_sound_def by blast
        ultimately have "rebuilt (sha3 env) g m ps p = Some c"
          using cv(1) c by (auto simp: rebuilt_def)
        then show ?thesis by blast
      qed
    qed
    have step: "rebuilt (sha3 env) g m (ps @ [b]) = (rebuilt (sha3 env) g m ps)(?h \<mapsto> b)"
      using hb False by (intro ext) (auto simp: rebuilt_def)
    have size: "Suc (length (block_store (n_dag ?nd))) < 2 ^ 32"
    proof -
      have "dom (rebuilt (sha3 env) g m ps) \<subset> dom ?S"
        using fresh hb by (auto simp: rebuilt_def dom_def split: if_splits)
      then have "card (dom (rebuilt (sha3 env) g m ps)) < card (dom ?S)"
        by (rule psubset_card_mono [OF finite])
      then have "Suc (length (block_store (n_dag ?nd))) \<le> length (block_store m)"
        using store_length [OF dag_reachable_inv [OF IH(1)]] store_length [OF minv] IH(3) by simp
      then show ?thesis using dag_inv_simps(6) [OF minv] by simp
    qed
    have "dag_reachable 3 (dag_insert (n_dag ?nd) ?h b)"
      by (rule dag_reachable.insert [OF IH(1) _ _ size]) (use fresh par IH(3) in simp_all)
    moreover have "hm_get (block_store (dag_insert (n_dag ?nd) ?h b)) =
        rebuilt (sha3 env) g m (ps @ [b])"
      by (rule ext) (simp add: step IH(3))
    moreover have "n_history (resume_step (sha3 env) ?nd b) =
        map snd (block_store (dag_insert (n_dag ?nd) ?h b))"
      using IH(2,3) fresh False
      by (simp add: resume_step_def dag_insert_def hm_insert_fresh)
    ultimately show ?thesis using False by (simp add: resume_step_dag)
  qed
qed

lemma resume_prefix_all:
  fixes nd0 :: "'p node"
  assumes inv: "node_inv env g nd" and m: "m = n_dag nd"
    and bs: "mset bs = mset (map (stored_block m) (sorted_list_of_set (dom (hm_get (block_store m)))))"
    and sorted: "sorted (map block_height bs)"
    and nd0: "n_dag nd0 = dag_insert (ghostdag_new 3) g gb" "hm_get (block_store m) g = Some gb"
      "block_parents gb = []" "block_height gb = 0" "n_history nd0 = [gb]"
  shows "dag_reachable 3 (n_dag (foldl (resume_step (sha3 env)) nd0 bs))"
    and "n_history (foldl (resume_step (sha3 env)) nd0 bs) =
      map snd (block_store (n_dag (foldl (resume_step (sha3 env)) nd0 bs)))"
    and "hm_get (block_store (n_dag (foldl (resume_step (sha3 env)) nd0 bs))) = hm_get (block_store m)"
proof -
  note all = resume_prefix [OF assms, of bs "[]"]
  show "dag_reachable 3 (n_dag (foldl (resume_step (sha3 env)) nd0 bs))"
    "n_history (foldl (resume_step (sha3 env)) nd0 bs) =
      map snd (block_store (n_dag (foldl (resume_step (sha3 env)) nd0 bs)))" using all by simp_all
  have "rebuilt (sha3 env) g m bs x = hm_get (block_store m) x" for x
  proof (cases "hm_get (block_store m) x")
    case (Some c)
    have "set bs = stored_block m ` dom (hm_get (block_store m))"
      using arg_cong [OF bs, of set_mset] by simp
    moreover have "stored_block m x = c" using Some by (simp add: stored_block_def)
    ultimately have "c \<in> set bs" using Some by blast
    moreover have "x = g \<or> x = calculate_hash (sha3 env) c \<and> block_height c \<noteq> 0"
      using inv Some m unfolding node_inv_def block_sound_def by blast
    ultimately show ?thesis by (auto simp: rebuilt_def)
  qed (simp add: rebuilt_def)
  then have "rebuilt (sha3 env) g m bs = hm_get (block_store m)" by (rule ext)
  then show "hm_get (block_store (n_dag (foldl (resume_step (sha3 env)) nd0 bs))) =
      hm_get (block_store m)" using all by simp
qed

lemma resume_storage:
  "n_storage (foldl (resume_step sha) nd bs) = n_storage nd"
  by (induction bs arbitrary: nd) (simp_all add: resume_step_def)

lemma resume_ledger_dag:
  assumes "dag_inv (n_dag nd)"
  obtains nd' where "resume_ledger env persisted nd = Inr nd'" "n_dag nd' = n_dag nd"
    "n_history nd' = n_history nd" "blocks_tree (n_storage nd') = blocks_tree (n_storage nd)"
    "\<And>t l. select_canonical_tip (n_dag nd) = Some t \<Longrightarrow>
      recompute_ledger (sha3 env) (n_dag nd) t = Some (Inr l) \<Longrightarrow> n_ledger nd' = l"
proof (cases "select_canonical_tip (n_dag nd)")
  case None
  then show thesis
    by (intro that [of "fall_back persisted nd"])
      (simp_all add: resume_ledger_def fall_back_def split: option.split)
next
  case (Some t)
  obtain order where "get_linear_sort (n_dag nd) t = Some order"
    using get_linear_sort_total [OF assms] by blast
  then obtain replay where r: "recompute_ledger (sha3 env) (n_dag nd) t = Some replay"
    by (simp add: recompute_ledger_def)
  show thesis
  proof (cases replay)
    case (Inl e)
    then show thesis using Some r
      by (intro that [of "fall_back persisted nd"])
        (simp_all add: resume_ledger_def fall_back_def split: option.split)
  next
    case (Inr l)
    then show thesis using Some r
      by (intro that [of "nd\<lparr>n_ledger := l, n_storage := snd (save_ledger_state (sled_fault env)
            (bin env) l (n_storage nd))\<rparr>"])
        (simp_all add: resume_ledger_def)
  qed
qed

section \<open>The restarted node\<close>

lemma block_sound_get:
  "hm_get (block_store m) = hm_get (block_store m') \<Longrightarrow> block_sound env m b = block_sound env m' b"
  by (simp add: block_sound_def parent_heights_def stored_block_def)

lemma restart_same:
  fixes nd :: "'p node"
  assumes rel: "reliable env"
    and inv: "node_inv env (fixed_genesis_hash_for_network (sha3 env) i) nd"
  obtains nd' :: "'p node" where "start_node env i (n_storage nd) = Inr nd'"
    "node_inv env (fixed_genesis_hash_for_network (sha3 env) i) nd'"
    "hm_get (block_store (n_dag nd')) = hm_get (block_store (n_dag nd))"
    "\<forall>t l. select_canonical_tip (n_dag nd') = Some t \<longrightarrow>
      recompute_ledger (sha3 env) (n_dag nd') t = Some (Inr l) \<longrightarrow> n_ledger nd' = l"
proof -
  let ?g = "fixed_genesis_hash_for_network (sha3 env) i" and ?m = "n_dag nd"
  let ?f = "sled_fault env" and ?b = "bin env"
  have tree: "\<forall>h. rel_option (\<lambda>bytes b. de_block ?b bytes = Some b)
      (blocks_tree (n_storage nd) h) (hm_get (block_store ?m) h)"
    and gen: "\<exists>gb. hm_get (block_store ?m) ?g = Some gb \<and> block_height gb = 0 \<and>
      block_parents gb = [] \<and> ?g = calculate_hash (sha3 env) gb"
    using inv unfolding node_inv_def by blast+
  from gen obtain gb where gb: "hm_get (block_store ?m) ?g = Some gb" "block_height gb = 0"
    "block_parents gb = []" by blast
  obtain rl st1 where l: "load_ledger_state ?f ?b (n_storage nd) = (rl, st1)" by fastforce
  have t1: "blocks_tree st1 = blocks_tree (n_storage nd)"
    using l read_entry_trees(1) [of ?f "\<lambda>s. ledger_tree s ''current''" "de_ledger ?b" "n_storage nd"]
    by (simp add: load_ledger_state_def)
  obtain bytes where bytes: "blocks_tree (n_storage nd) ?g = Some bytes" "de_block ?b bytes = Some gb"
    using spec [OF tree, of ?g] gb(1) by (auto simp: option_rel_Some2)
  obtain st2 where b: "load_block ?f ?b ?g st1 = (Inr (Some gb), st2)" "blocks_tree st2 = blocks_tree st1"
    using bytes t1 rel by (simp add: load_block_def read_entry_def db_op_def Let_def reliable_def
        reliable_db_def)
  have tree2: "\<forall>h. rel_option (\<lambda>bytes b. de_block ?b bytes = Some b)
      (blocks_tree st2 h) (hm_get (block_store ?m) h)" using tree t1 b(2) by simp
  obtain bs st3 where all: "load_all_blocks ?f ?b st2 = (Inr bs, st3)"
    "blocks_tree st3 = blocks_tree st2" "sorted (map block_height bs)"
    "mset bs = mset (map (stored_block ?m) (sorted_list_of_set (dom (hm_get (block_store ?m)))))"
    by (rule load_all_reliable [OF rel tree2])
  define nd0 :: "'p node" where "nd0 = (base_node st2)\<lparr>n_dag := dag_insert (ghostdag_new 3) ?g gb,
      n_history := [gb], n_storage := st3\<rparr>"
  define nd1 where "nd1 = foldl (resume_step (sha3 env)) nd0 bs"
  have nd0: "n_dag nd0 = dag_insert (ghostdag_new 3) ?g gb" "n_history nd0 = [gb]"
    by (simp_all add: nd0_def)
  note dag = resume_prefix_all [OF inv refl all(4,3) nd0(1) gb(1,3,2) nd0(2), folded nd1_def]
  have st1: "blocks_tree (n_storage nd1) = blocks_tree (n_storage nd)"
    using all(2) b(2) t1 by (simp add: nd1_def resume_storage nd0_def)
  define persisted where "persisted = (case rl of Inl _ \<Rightarrow> None | Inr s \<Rightarrow> s)"
  obtain nd2 where nd2: "resume_ledger env persisted nd1 = Inr nd2" "n_dag nd2 = n_dag nd1"
    "n_history nd2 = n_history nd1" "blocks_tree (n_storage nd2) = blocks_tree (n_storage nd1)"
    "\<And>t l. select_canonical_tip (n_dag nd1) = Some t \<Longrightarrow>
      recompute_ledger (sha3 env) (n_dag nd1) t = Some (Inr l) \<Longrightarrow> n_ledger nd2 = l"
    by (rule resume_ledger_dag [OF dag_reachable_inv [OF dag(1)], of env persisted]) blast
  have "start_resumed env ?g gb persisted (base_node st2) = Inr nd2"
    using all(1) nd2(1)
    by (simp add: start_resumed_def Let_def base_node_def nd0_def nd1_def)
  then have start: "start_node env i (n_storage nd) = Inr (if n_history nd2 = [] then nd2
      else nd2\<lparr>n_target := difficulty_target (header (last (n_history nd2)))\<rparr>)"
    by (simp add: start_node_def Let_def l b(1) persisted_def)
  define nd3 where "nd3 = (if n_history nd2 = [] then nd2
      else nd2\<lparr>n_target := difficulty_target (header (last (n_history nd2)))\<rparr>)"
  have nd3: "n_dag nd3 = n_dag nd1" "n_ledger nd3 = n_ledger nd2" "n_history nd3 = n_history nd1"
    "blocks_tree (n_storage nd3) = blocks_tree (n_storage nd)"
    by (simp_all add: nd3_def nd2(2,3,4) st1)
  show thesis
  proof (rule that [OF start [folded nd3_def]])
    show get: "hm_get (block_store (n_dag nd3)) = hm_get (block_store ?m)" using dag(3) nd3(1) by simp
    have sound: "block_sound env (n_dag nd3) = block_sound env ?m"
      using block_sound_get [OF get] by (intro ext)
    show "node_inv env ?g nd3"
      using inv dag(1,2) nd3(1,3,4) unfolding node_inv_def get sound by simp
    show "\<forall>t l. select_canonical_tip (n_dag nd3) = Some t \<longrightarrow>
        recompute_ledger (sha3 env) (n_dag nd3) t = Some (Inr l) \<longrightarrow> n_ledger nd3 = l"
      using nd2(5) nd3 by simp
  qed
qed

text \<open>The whole of what a restart keeps, on any database with the same blocks.\<close>

lemma restart_chain:
  fixes nd :: "'p node"
  assumes rel: "reliable env"
    and inv: "node_inv env (fixed_genesis_hash_for_network (sha3 env) i) nd"
    and tree: "blocks_tree st = blocks_tree (n_storage nd)"
  shows "\<exists>nd' :: 'p node. start_node env i st = Inr nd' \<and>
    hm_get (block_store (n_dag nd')) = hm_get (block_store (n_dag nd)) \<and>
    ghostdag_cache (n_dag nd') = ghostdag_cache (n_dag nd) \<and>
    select_canonical_tip (n_dag nd') = select_canonical_tip (n_dag nd) \<and>
    (\<forall>t. get_linear_sort (n_dag nd') t = get_linear_sort (n_dag nd) t) \<and>
    (\<forall>t l. select_canonical_tip (n_dag nd) = Some t \<longrightarrow>
       recompute_ledger (sha3 env) (n_dag nd) t = Some (Inr l) \<longrightarrow> n_ledger nd' = l)"
proof -
  let ?g = "fixed_genesis_hash_for_network (sha3 env) i" and ?nd = "nd\<lparr>n_storage := st\<rparr>"
  have inv1: "node_inv env ?g ?nd" using inv tree by (simp add: node_inv_def)
  obtain nd' :: "'p node" where nd': "start_node env i st = Inr nd'" "node_inv env ?g nd'"
    and get: "hm_get (block_store (n_dag nd')) = hm_get (block_store (n_dag nd))"
    and ledger: "\<forall>t l. select_canonical_tip (n_dag nd') = Some t \<longrightarrow>
      recompute_ledger (sha3 env) (n_dag nd') t = Some (Inr l) \<longrightarrow> n_ledger nd' = l"
    using restart_same [OF rel inv1] by auto
  have "gd_k (n_dag nd') = gd_k (n_dag nd)"
    using inv nd'(2) dag_reachable_k unfolding node_inv_def by metis
  then have same: "same_blocks (n_dag nd') (n_dag nd)" using get by (simp add: same_blocks_def)
  note invs = node_inv_dag [OF nd'(2)] node_inv_dag [OF inv]
  note eq = same_cache [OF invs same] same_canonical_tip [OF invs same] same_order [OF invs same]
  have "recompute_ledger (sha3 env) (n_dag nd') t = recompute_ledger (sha3 env) (n_dag nd) t" for t
    using eq(3) same_replay [OF same] by (simp add: recompute_ledger_def)
  then show ?thesis using nd'(1) get ledger eq by auto
qed

lemma restart_guarded:
  fixes nd nd' :: "'p node"
  assumes rel: "reliable env" and size: "dag_size nd < 2 ^ 32"
    and old: "guarded (node_sound env (fixed_genesis_hash_for_network (sha3 env) i)) nd"
    and start: "start_node env i (n_storage nd) = Inr nd'"
  shows "guarded (node_sound env (fixed_genesis_hash_for_network (sha3 env) i)) nd'"
    and "dag_size nd' = dag_size nd"
    and "times_ordered g (n_dag nd') = times_ordered g (n_dag nd)"
proof -
  let ?g = "fixed_genesis_hash_for_network (sha3 env) i"
  have inv: "node_inv env ?g nd" using rel size old by (simp add: guarded_def node_sound_def)
  obtain nd1 :: "'p node" where nd1: "start_node env i (n_storage nd) = Inr nd1" "node_inv env ?g nd1"
    and get: "hm_get (block_store (n_dag nd1)) = hm_get (block_store (n_dag nd))"
    by (rule restart_same [OF rel inv])
  have eq: "nd1 = nd'" using start nd1(1) by simp
  show "guarded (node_sound env ?g) nd'"
    using nd1(2) start_node_capacity [OF start] by (simp add: guarded_def node_sound_def eq)
  show "dag_size nd' = dag_size nd"
    using store_length [OF node_inv_dag [OF nd1(2)]] store_length [OF node_inv_dag [OF inv]] get
    by (simp add: dag_size_def eq)
  show "times_ordered g (n_dag nd') = times_ordered g (n_dag nd)"
    using get by (simp add: times_ordered_def parent_times_def stored_block_def eq)
qed

section \<open>A block that does not decode\<close>

text \<open>One stored entry that does not decode makes the loading of all blocks fail.\<close>

lemma load_entries_bad:
  assumes "reliable_db fault" and "h \<in> set hs" and "blocks_tree st h = Some bad" and "de_block bc bad = None"
  shows "\<exists>e st'. load_entries fault bc hs st = (Inl e, st') \<and> blocks_tree st' = blocks_tree st"
  using assms(2,3)
proof (induction hs arbitrary: st)
  case (Cons x hs)
  obtain r st1 where l: "load_block fault bc x st = (r, st1)" by fastforce
  then have t: "blocks_tree st1 = blocks_tree st" using load_block_trees [of fault bc x st] by simp
  show ?case
  proof (cases r)
    case (Inl e)
    then show ?thesis using l t by simp
  next
    case (Inr found)
    then have "x \<noteq> h" using l assms(1,4) Cons.prems(2)
      by (auto simp: load_block_def read_entry_def db_op_def Let_def reliable_db_def)
    then have "h \<in> set hs" using Cons.prems(1) by simp
    from Cons.IH [OF this, of st1] obtain e st2 where
      "load_entries fault bc hs st1 = (Inl e, st2)" "blocks_tree st2 = blocks_tree st"
      using t Cons.prems(2) by auto
    then show ?thesis using l Inr by (cases found) auto
  qed
qed simp

text \<open>A DAG of the genesis block alone.\<close>

lemma single_block_dag:
  assumes "block_parents gb = []"
  shows "dag_reachable k (dag_insert (ghostdag_new k) g gb)"
    and "select_canonical_tip (dag_insert (ghostdag_new k) g gb) = Some g"
    and "get_linear_sort (dag_insert (ghostdag_new k) g gb) g = Some [g]"
proof -
  let ?m = "dag_insert (ghostdag_new k) g gb"
  show reach: "dag_reachable k ?m"
    by (rule dag_reachable.insert [OF dag_reachable.empty]) (simp_all add: ghostdag_new_def assms)
  have store: "block_store ?m = [(g, gb)]" by (simp add: dag_insert_def ghostdag_new_def)
  have cached: "ghostdag_cache ?m g = Some (calculate_ghostdag_data (ghostdag_new k) gb)" by simp
  have "referenced_as_parent ?m = {}" by (simp add: referenced_as_parent_def store assms)
  then have "compute_tips ?m = [g]" by (simp add: compute_tips_def store hm_keys_def)
  then show "select_canonical_tip ?m = Some g"
    by (simp add: select_canonical_tip_def select_best_tip_def scored_def List.map_filter_def cached)
  have "parents_of ?m g = []" by (simp add: parents_of_def store assms)
  then have past: "get_past_set ?m g = {}" by (subst past_unfold) simp
  from get_linear_sort_spec [OF dag_reachable_inv [OF reach] cached] obtain order where
    "get_linear_sort ?m g = Some order" "distinct order" "set order = insert g (get_past_set ?m g)" by blast
  moreover from this have "order = [g]" using past
    by (cases order) (auto simp: subset_singleton_iff)
  ultimately show "get_linear_sort ?m g = Some [g]" by simp
qed

text \<open>Started on a database with such an entry, the node comes up with its genesis block alone.\<close>

lemma corrupt_block_start:
  assumes db: "reliable_db (sled_fault env)" and fin: "finite (dom (blocks_tree st))"
    and gen: "blocks_tree st (fixed_genesis_hash_for_network (sha3 env) i) = Some gbytes"
      "de_block (bin env) gbytes = Some (fixed_genesis_block_for_network i)"
    and bad: "blocks_tree st h = Some bad" "de_block (bin env) bad = None"
  obtains nd :: "'p node" where "start_node env i st = Inr nd"
    "n_history nd = [fixed_genesis_block_for_network i]"
    "n_dag nd = dag_insert (ghostdag_new 3) (fixed_genesis_hash_for_network (sha3 env) i)
       (fixed_genesis_block_for_network i)"
    "n_ledger nd = ledger_default" "n_target nd = fill 15" "blocks_tree (n_storage nd) = blocks_tree st"
proof -
  let ?g = "fixed_genesis_hash_for_network (sha3 env) i" and ?gb = "fixed_genesis_block_for_network i"
  let ?f = "sled_fault env" and ?b = "bin env"
  let ?m = "dag_insert (ghostdag_new 3) ?g ?gb"
  obtain rl st1 where l: "load_ledger_state ?f ?b st = (rl, st1)" by fastforce
  have t1: "blocks_tree st1 = blocks_tree st"
    using l read_entry_trees(1) [of ?f "\<lambda>s. ledger_tree s ''current''" "de_ledger ?b" st]
    by (simp add: load_ledger_state_def)
  obtain rb st2 where b: "load_block ?f ?b ?g st1 = (rb, st2)" by fastforce
  have t2: "blocks_tree st2 = blocks_tree st" using b t1 load_block_trees [of ?f ?b ?g st1] by simp
  have rb: "rb = Inr (Some ?gb)" using b t1 gen db
    by (auto simp: load_block_def read_entry_def db_op_def Let_def reliable_db_def)
  have mem: "h \<in> set (sorted_list_of_set (dom (blocks_tree st2)))" using fin bad(1) t2 by auto
  have "blocks_tree st2 h = Some bad" using bad(1) t2 by simp
  from load_entries_bad [OF db mem this bad(2)] t2 obtain e st3 where
    "load_entries ?f ?b (sorted_list_of_set (dom (blocks_tree st2))) st2 = (Inl e, st3)"
    and t3: "blocks_tree st3 = blocks_tree st" by auto
  then have all: "load_all_blocks ?f ?b st2 = (Inl e, st3)" by (simp add: load_all_blocks_def)
  define nd0 :: "'p node" where "nd0 = (base_node st3)\<lparr>n_dag := ?m, n_history := [?gb]\<rparr>"
  have m: "n_dag nd0 = ?m" by (simp add: nd0_def)
  note single = single_block_dag [OF genesis_sels(1) [of i], of 3 ?g]
  have inv: "dag_inv (n_dag nd0)" using single(1) m dag_reachable_inv by simp
  define persisted where "persisted = (case rl of Inl _ \<Rightarrow> None | Inr s \<Rightarrow> s)"
  have "recompute_ledger (sha3 env) ?m ?g = Some (Inr ledger_default)"
    by (simp add: recompute_ledger_def single(3) replay_step_def ledger_step_def genesis_applies)
  then have tip: "select_canonical_tip (n_dag nd0) = Some ?g"
    and replay: "recompute_ledger (sha3 env) (n_dag nd0) ?g = Some (Inr ledger_default)"
    using single(2) by (simp_all add: m)
  obtain nd' :: "'p node" where res: "resume_ledger env persisted nd0 = Inr nd'" "n_dag nd' = n_dag nd0"
      "n_history nd' = n_history nd0" "blocks_tree (n_storage nd') = blocks_tree (n_storage nd0)"
    and led: "\<And>t l. select_canonical_tip (n_dag nd0) = Some t \<Longrightarrow>
      recompute_ledger (sha3 env) (n_dag nd0) t = Some (Inr l) \<Longrightarrow> n_ledger nd' = l"
    by (rule resume_ledger_dag [OF inv, of env persisted]) blast
  note nd' = res [unfolded m] led [OF tip replay]
  have "start_node env i st = Inr (nd'\<lparr>n_target := fill 15\<rparr>)"
    using nd' all by (simp add: start_node_def Let_def l b rb start_resumed_def base_node_def nd0_def
        persisted_def)
  then show thesis by (rule that) (use nd' t3 in \<open>simp_all add: nd0_def base_node_def\<close>)
qed

end
