(* ===== verification/Rpc.thy ===== *)
theory Rpc
  imports Mempool Crypto
begin

text \<open>
  The RPC server's request path (\<^verbatim>\<open>vdag-node/src/rpc.rs\<close>): the rate limiter of a connection, the
  construction of a transaction from its parameters, and the dispatcher.

  JSON and hexadecimal decoding are third-party crates: they are the fields of \<open>rpc_codec\<close>, over
  an abstract type of JSON values.  Responses are values; their rendering is not modelled.
  \<^verbatim>\<open>Instant::now()\<close> is an argument, a natural number of nanoseconds.
\<close>

definition MAX_REQUESTS_PER_SECOND_PER_CONNECTION :: u32 where
  "MAX_REQUESTS_PER_SECOND_PER_CONNECTION = 50"

section \<open>The rate limiter\<close>

record rate_limiter =
  window_start :: nat
  rl_count :: u32
  max_per_second :: u32

definition rate_limiter_new :: "nat \<Rightarrow> u32 \<Rightarrow> rate_limiter" where
  "rate_limiter_new now limit = \<lparr>window_start = now, rl_count = 0, max_per_second = limit\<rparr>"

definition rate_check :: "nat \<Rightarrow> rate_limiter \<Rightarrow> bool \<times> rate_limiter" where
  "rate_check now rl =
     (let rl = (if now - window_start rl \<ge> 1000000000
                then rl\<lparr>window_start := now, rl_count := 0\<rparr> else rl);
          rl = rl\<lparr>rl_count := rl_count rl + 1\<rparr>
      in (rl_count rl \<le> max_per_second rl, rl))"

section \<open>Requests\<close>

record submit_transaction_params =
  sp_sender :: string
  sp_recipient :: string
  sp_amount :: u64
  sp_nonce :: u64
  sp_public_key :: string
  sp_signature :: string

record 'j rpc_request =
  rq_id :: "'j option"
  rq_method :: string
  rq_params :: "'j option"
  rq_token :: "string option"

record 'j rpc_codec =
  unhex :: "string \<Rightarrow> u8 list option"
  submit_params :: "'j \<Rightarrow> submit_transaction_params option"
  address_param :: "'j \<Rightarrow> string option"
  tx_id_param :: "'j \<Rightarrow> string option"

datatype rpc_error =
    Unauthorized
  | InvalidParameters
  | MissingParameters
  | AmountNotPositive
  | InvalidHex string
  | WrongLength string
  | InvalidSignature
  | DuplicateTransaction
  | UnknownMethod string
  | RateLimited
  | InvalidRequest
  | FramingFailed

datatype tx_status = Confirmed | Pending | Unknown

datatype rpc_response =
    RpcVersion
  | Accepted bytes32
  | MempoolSize nat
  | Balance u64
  | Status tx_status
  | RpcError rpc_error

definition parse_fixed_bytes ::
  "'j rpc_codec \<Rightarrow> string \<Rightarrow> string \<Rightarrow> (rpc_error, bytes32) result"
where
  "parse_fixed_bytes codec text field =
     (case unhex codec text of
        None \<Rightarrow> Inl (InvalidHex field)
      | Some bytes \<Rightarrow>
          if length bytes = 32 then Inr (Bytes32 bytes) else Inl (WrongLength field))"

definition build_transaction ::
  "('pk, 'sg) dilithium \<Rightarrow> digest \<Rightarrow> 'j rpc_codec \<Rightarrow> submit_transaction_params \<Rightarrow>
     (rpc_error, transaction) result"
where
  "build_transaction lib sha codec params =
     (if sp_amount params = 0 then Inl AmountNotPositive else
      case parse_fixed_bytes codec (sp_sender params) ''sender'' of
        Inl e \<Rightarrow> Inl e
      | Inr from \<Rightarrow>
     (case parse_fixed_bytes codec (sp_recipient params) ''recipient'' of
        Inl e \<Rightarrow> Inl e
      | Inr to \<Rightarrow>
     (case unhex codec (sp_public_key params) of
        None \<Rightarrow> Inl (InvalidHex ''public_key'')
      | Some pk \<Rightarrow>
     (case unhex codec (sp_signature params) of
        None \<Rightarrow> Inl (InvalidHex ''signature'')
      | Some sg \<Rightarrow>
          if \<not> verify_transaction_signature lib sha from to (sp_amount params) (sp_nonce params) pk sg
          then Inl InvalidSignature
          else Inr \<lparr>sender = from, recipient = to, amount = sp_amount params,
                    tx_nonce = sp_nonce params, public_key = pk, signature = sg\<rparr>))))"

text \<open>
  The dispatcher.  It returns the identifier to echo, the response, and the mempool; the ledger
  is only read.
\<close>

definition dispatch ::
  "('pk, 'sg) dilithium \<Rightarrow> digest \<Rightarrow> 'j rpc_codec \<Rightarrow> string option \<Rightarrow> ledger_state \<Rightarrow>
     'j rpc_request \<Rightarrow> mempool \<Rightarrow> ('j option \<times> rpc_response) \<times> mempool"
where
  "dispatch lib sha codec auth_token ledger request pool =
     (let answer = (\<lambda>response. ((rq_id request, response), pool)) in
      if rq_method request \<noteq> ''version'' \<and> auth_token \<noteq> None \<and> rq_token request \<noteq> auth_token
      then answer (RpcError Unauthorized)
      else if rq_method request = ''version'' then answer RpcVersion
      else if rq_method request = ''submit_transaction'' then
        (case rq_params request of
           None \<Rightarrow> answer (RpcError MissingParameters)
         | Some j \<Rightarrow>
        (case submit_params codec j of
           None \<Rightarrow> answer (RpcError InvalidParameters)
         | Some params \<Rightarrow>
        (case build_transaction lib sha codec params of
           Inl e \<Rightarrow> answer (RpcError e)
         | Inr tx \<Rightarrow>
             (case add_transaction sha pool tx of
                (True, pool') \<Rightarrow> ((rq_id request, Accepted (transaction_id sha tx)), pool')
              | (False, pool') \<Rightarrow> ((rq_id request, RpcError DuplicateTransaction), pool')))))
      else if rq_method request = ''mempool_size'' then
        answer (MempoolSize (length (pending_transactions pool)))
      else if rq_method request = ''get_balance'' then
        (case rq_params request of
           None \<Rightarrow> answer (RpcError MissingParameters)
         | Some j \<Rightarrow>
        (case address_param codec j of
           None \<Rightarrow> answer (RpcError InvalidParameters)
         | Some text \<Rightarrow>
        (case parse_fixed_bytes codec text ''address'' of
           Inl e \<Rightarrow> answer (RpcError e)
         | Inr a \<Rightarrow> answer (Balance (ledger_balance ledger a)))))
      else if rq_method request = ''transaction_status'' then
        (case rq_params request of
           None \<Rightarrow> answer (RpcError MissingParameters)
         | Some j \<Rightarrow>
        (case tx_id_param codec j of
           None \<Rightarrow> answer (RpcError InvalidParameters)
         | Some text \<Rightarrow>
        (case parse_fixed_bytes codec text ''tx_id'' of
           Inl e \<Rightarrow> answer (RpcError e)
         | Inr i \<Rightarrow>
             answer (Status
               (if has_confirmed ledger i then Confirmed
                else if hm_get (pending_transactions pool) i \<noteq> None then Pending
                else Unknown)))))
      else answer (RpcError (UnknownMethod (rq_method request))))"

section \<open>What gets into the mempool\<close>

definition mempool_signed :: "('pk, 'sg) dilithium \<Rightarrow> digest \<Rightarrow> mempool \<Rightarrow> bool" where
  "mempool_signed lib sha p \<longleftrightarrow>
     mempool_inv sha p \<and>
     (\<forall>(i, tx) \<in> set (pending_transactions p). tx_signed lib sha tx \<and> amount tx \<noteq> 0)"

lemma build_transaction_signed:
  "build_transaction lib sha codec params = Inr tx \<Longrightarrow> tx_signed lib sha tx \<and> amount tx \<noteq> 0"
  by (auto simp: build_transaction_def tx_signed_def split: if_splits option.splits sum.splits)

lemma add_signed:
  assumes "mempool_signed lib sha p" and "tx_signed lib sha tx" and "amount tx \<noteq> 0"
    and "add_transaction sha p tx = (r, p')"
  shows "mempool_signed lib sha p'"
proof -
  have "set (pending_transactions p') \<subseteq>
      insert (transaction_id sha tx, tx) (set (pending_transactions p))"
    using assms(4) by (auto simp: add_transaction_def Let_def hm_insert_fresh split: if_splits)
  then show ?thesis
    using assms mempool_inv_add unfolding mempool_signed_def by fastforce
qed

lemma dispatch_signed:
  assumes "mempool_signed lib sha p" and "dispatch lib sha codec token l rq p = (r, p')"
  shows "mempool_signed lib sha p'"
proof -
  have "p' = p \<or> (\<exists>params tx acc. build_transaction lib sha codec params = Inr tx \<and>
      add_transaction sha p tx = (acc, p'))"
    using assms(2)
    by (auto simp: dispatch_def Let_def split: if_splits option.splits sum.splits prod.splits bool.splits)
  then show ?thesis using assms(1) build_transaction_signed add_signed by blast
qed

text \<open>A drained batch consists of signed transactions, and leaves the rest signed.\<close>

lemma drain_signed:
  assumes "mempool_signed lib sha p" and "drain_to_batch p n = (batch, p')"
  shows "mempool_signed lib sha p'" and "list_all (tx_signed lib sha) batch" and "length batch \<le> n"
proof -
  have wf: "hm_wf (pending_transactions p)" using assms(1)
    by (simp add: mempool_signed_def mempool_inv_def)
  have eq: "batch = map snd (take n (pending_transactions p))"
    "pending_transactions p' = drop n (pending_transactions p)"
    using assms(2) drain_keys_prefix [OF wf, of n] by (auto simp: drain_to_batch_def Let_def)
  show "mempool_signed lib sha p'"
    using assms mempool_inv_drain [of sha p n batch p'] set_drop_subset [of n "pending_transactions p"]
    unfolding mempool_signed_def eq(2) by fastforce
  show "list_all (tx_signed lib sha) batch"
    using assms(1) set_take_subset [of n "pending_transactions p"]
    unfolding mempool_signed_def eq(1) by (fastforce simp: list_all_iff)
  show "length batch \<le> n" by (simp add: eq(1))
qed

end
