(* ===== verification/Node_Mining.thy ===== *)
theory Node_Mining
  imports Node_Restart Rpc
begin

text \<open>
  The mining tick of the main loop (\<^verbatim>\<open>vdag-node/src/main.rs\<close>), and the runs of a whole node: its
  event loop alternates between ticks and network events while RPC requests reach the mempool,
  and the node may stop and start again on its database.
\<close>

section \<open>The tick\<close>

definition create_block ::
  "block_hash list \<Rightarrow> u64 \<Rightarrow> address \<Rightarrow> u64 \<Rightarrow> address \<Rightarrow> u64 \<Rightarrow> velo_block"
where
  "create_block parent_hashes h miner_address miner_out dev_address dev_out =
     \<lparr>header =
        \<lparr>timestamp = 0, parents = parent_hashes, tx_merkle_root = fill 0, nonce = 0, height = h,
         difficulty_target = fill 0x0f\<rparr>,
      transactions = [], coinbase_miner_address = miner_address,
      coinbase_miner_output = miner_out, coinbase_dev_address = dev_address,
      coinbase_dev_output = dev_out\<rparr>"

text \<open>The tip that mining builds on.\<close>

definition mining_tip :: "bytes32 \<Rightarrow> ghostdag_manager \<Rightarrow> bytes32" where
  "mining_tip genesis_hash m =
     (case select_canonical_tip m of None \<Rightarrow> genesis_hash | Some t \<Rightarrow> t)"

text \<open>The block before mining: its transactions are the affordable part of the drained batch.\<close>

definition block_template ::
  "('pk, 'sg) environment \<Rightarrow> bytes32 \<Rightarrow> address \<Rightarrow> u64 \<Rightarrow> transaction list \<Rightarrow> 'p node \<Rightarrow> velo_block"
where
  "block_template env genesis_hash miner_address now candidate_txs nd =
     (let selected_tip = mining_tip genesis_hash (n_dag nd);
          tip_height = (case hm_get (block_store (n_dag nd)) selected_tip of
                          None \<Rightarrow> 0 | Some b \<Rightarrow> block_height b);
          next_height = tip_height + 1
      in case calculate_subsidy_split next_height of (miner_reward, dev_reward) \<Rightarrow>
         (let b = create_block [selected_tip] next_height miner_address miner_reward
                    DEV_TREASURY_ADDRESS dev_reward;
              txs = fst (select_affordable (sha3 env) (n_ledger nd) candidate_txs miner_address
                           DEV_TREASURY_ADDRESS)
          in b\<lparr>header := (header b)\<lparr>timestamp := now, difficulty_target := n_target nd,
                                    tx_merkle_root := transaction_merkle_root (sha3 env) txs\<rparr>,
               transactions := txs\<rparr>))"

text \<open>Storing and publishing what was mined; the colours are saved only if the block was.\<close>

definition store_mined ::
  "('pk, 'sg) environment \<Rightarrow> bytes32 \<Rightarrow> velo_block \<Rightarrow> 'p node \<Rightarrow> 'p node"
where
  "store_mined env h blk nd =
     (let data = calculate_ghostdag_data (n_dag nd) blk;
          nd = nd\<lparr>n_dag := dag_insert (n_dag nd) h blk, n_history := n_history nd @ [blk]\<rparr>
      in case save_block (sled_fault env) (bin env) h blk (n_storage nd) of
           (Inl _, st) \<Rightarrow> nd\<lparr>n_storage := st\<rparr>
         | (Inr _, st) \<Rightarrow>
             (let st = snd (save_ghostdag_data (sled_fault env) (bin env) h data st);
                  nd = nd\<lparr>n_storage := st\<rparr>
              in case ser_block (bin env) blk of
                   None \<Rightarrow> nd
                 | Some payload \<Rightarrow> emit (PublishBlock payload) nd))"

text \<open>
  A tick up to the call of \<^verbatim>\<open>mine_block\<close>: the node that goes on without mining, or the block to mine
  and the node while it is mined.
\<close>

definition begin_mining ::
  "('pk, 'sg) environment \<Rightarrow> bytes32 \<Rightarrow> address \<Rightarrow> 'p node \<Rightarrow> mempool \<Rightarrow>
     ('p node, velo_block \<times> 'p node) result \<times> mempool"
where
  "begin_mining env genesis_hash miner_address nd pool =
     (if n_sync_pending nd then (Inl nd, pool) else
      case tick nd of (i, nd) \<Rightarrow>
      case drain_to_batch pool 10 of (candidate_txs, pool) \<Rightarrow>
      let blk = block_template env genesis_hash miner_address (wall_clock env i) candidate_txs nd in
      if \<not> verify_coinbase_rewards blk then (Inl nd, pool) else
      case apply_block (sha3 env) (n_ledger nd) blk of
        (Inl _, l) \<Rightarrow> (Inl (nd\<lparr>n_ledger := l\<rparr>), pool)
      | (Inr _, l) \<Rightarrow>
          (let nd = nd\<lparr>n_ledger := l\<rparr> in
           case save_ledger_state (sled_fault env) (bin env) l (n_storage nd) of
             (Inl _, st) \<Rightarrow> (Inl (nd\<lparr>n_storage := st\<rparr>), pool)
           | (Inr _, st) \<Rightarrow>
               (Inr (blk, nd\<lparr>n_storage := st,
                  n_log := log_record (n_log nd) (block_height blk) (n_target nd)\<rparr>), pool)))"

definition mining_tick ::
  "('pk, 'sg) environment \<Rightarrow> bytes32 \<Rightarrow> address \<Rightarrow> 'p node \<Rightarrow> mempool \<Rightarrow> 'p outcome \<times> mempool"
where
  "mining_tick env genesis_hash miner_address nd pool =
     (case begin_mining env genesis_hash miner_address nd pool of
        (Inl nd, pool) \<Rightarrow> ((Inr (), nd), pool)
      | (Inr (blk, nd), pool) \<Rightarrow>
          (case mine_block (sha3 env) (pow_new (n_target nd)) blk of
             None \<Rightarrow> ((Inl Diverges, nd), pool)
           | Some (h, mined) \<Rightarrow> (settle env h (store_mined env h mined nd), pool)))"

section \<open>What is mined is sound\<close>

lemma mining_tip_stored:
  assumes "node_inv env g nd"
  shows "mining_tip g (n_dag nd) \<in> dom (hm_get (block_store (n_dag nd)))"
    and "mining_tip g (n_dag nd) \<notin> set (parents_of (n_dag nd) x)"
proof -
  let ?m = "n_dag nd"
  note inv = node_inv_dag [OF assms]
  have tips: "set (compute_tips ?m) =
      {h \<in> dom (hm_get (block_store ?m)). \<forall>g. h \<notin> set (parents_of ?m g)}"
    by (rule set_compute_tips [OF dag_inv_simps(7) [OF inv]])
  have "g \<in> dom (hm_get (block_store ?m))" using assms unfolding node_inv_def by blast
  from tip_above [OF inv this] obtain t0 where t0: "t0 \<in> set (compute_tips ?m)" by blast
  obtain d0 where "ghostdag_cache ?m t0 = Some d0"
    using t0 tips dag_inv_simps(1) [OF inv] by blast
  with t0 have "(t0, blue_score d0) \<in> set (scored ?m (compute_tips ?m))" by (simp add: mem_scored)
  then have "scored ?m (compute_tips ?m) \<noteq> []" by auto
  then obtain t where t: "select_best_tip ?m (compute_tips ?m) = Some t"
    by (cases "max_by tip_le (scored ?m (compute_tips ?m))") (simp_all add: select_best_tip_def)
  then have "mining_tip g ?m = t" by (simp add: mining_tip_def select_canonical_tip_def)
  moreover have "t \<in> set (compute_tips ?m)" by (rule select_best_tip_Some [OF t])
  ultimately show "mining_tip g ?m \<in> dom (hm_get (block_store ?m))"
    "mining_tip g ?m \<notin> set (parents_of ?m x)" using tips by auto
qed

lemma template_sels [simp]:
  fixes env :: "('pk, 'sg) environment" and nd :: "'p node"
  defines "b \<equiv> \<lambda>g m now txs. block_template env g m now txs nd"
  shows "block_parents (b g m now txs) = [mining_tip g (n_dag nd)]"
    and "difficulty_target (header (b g m now txs)) = n_target nd"
    and "timestamp (header (b g m now txs)) = now"
    and "coinbase_dev_address (b g m now txs) = DEV_TREASURY_ADDRESS"
    and "coinbase_miner_address (b g m now txs) = m"
    and "transactions (b g m now txs) =
      fst (select_affordable (sha3 env) (n_ledger nd) txs m DEV_TREASURY_ADDRESS)"
    and "tx_merkle_root (header (b g m now txs)) =
      transaction_merkle_root (sha3 env) (transactions (b g m now txs))"
    and "block_height (b g m now txs) =
      (case hm_get (block_store (n_dag nd)) (mining_tip g (n_dag nd)) of
         None \<Rightarrow> 0 | Some b \<Rightarrow> block_height b) + 1"
  by (simp_all add: b_def block_template_def create_block_def Let_def split_beta)

text \<open>The coinbase check of the tick cannot fail.\<close>

lemma template_coinbase: "verify_coinbase_rewards (block_template env g m now txs nd)"
  by (simp add: verify_coinbase_rewards_def block_template_def create_block_def Let_def split_beta)

lemma selected_txs:
  assumes "list_all P cands"
  shows "list_all P (fst (select_affordable sha l cands m d))"
    and "length (fst (select_affordable sha l cands m d)) \<le> length cands"
proof -
  obtain acc rej where sel: "select_loop sha m d (scratch_of l) cands = (acc, rej)" by fastforce
  have part: "mset acc + mset (map fst rej) = mset cands" by (rule select_loop_partition [OF sel])
  have "set acc \<subseteq> set cands" using arg_cong [OF part, of set_mset] by auto
  then show "list_all P (fst (select_affordable sha l cands m d))"
    using assms sel by (auto simp: select_affordable_def list_all_iff)
  show "length (fst (select_affordable sha l cands m d)) \<le> length cands"
    using arg_cong [OF part, of size] sel by (simp add: select_affordable_def)
qed

lemma template_content:
  assumes "mempool_signed (dili env) (sha3 env) pool" and "drain_to_batch pool 10 = (txs, pool')"
  shows "content_ok env (with_nonce (block_template env g m now txs nd) n)"
proof -
  note d = drain_signed [OF assms]
  note sel = selected_txs [OF d(2), of "sha3 env" "n_ledger nd" m DEV_TREASURY_ADDRESS]
  have "verify_coinbase_rewards (with_nonce (block_template env g m now txs nd) n)"
    using template_coinbase [of env g m now txs nd] by (simp add: verify_coinbase_rewards_def)
  then show ?thesis
    using sel d(3)
    by (simp add: content_ok_def verify_transaction_merkle_root_def MAX_TRANSACTIONS_PER_BLOCK_def)
qed

lemma template_sound:
  assumes inv: "node_inv env g nd"
    and pool: "mempool_signed (dili env) (sha3 env) pool" "drain_to_batch pool 10 = (txs, pool')"
    and b: "b = with_nonce (block_template env g m now txs nd) n"
    and pow: "calculate_hash (sha3 env) b \<le> n_target nd" and h: "block_height b \<noteq> 0"
  shows "block_sound env (n_dag nd) b"
proof -
  let ?t = "mining_tip g (n_dag nd)"
  obtain tb where tb: "hm_get (block_store (n_dag nd)) ?t = Some tb"
    using mining_tip_stored(1) [OF inv] by blast
  have "parent_heights (n_dag nd) b = {block_height tb}"
    by (simp add: parent_heights_def b stored_block_def tb)
  then have "block_height b = Max (parent_heights (n_dag nd) b) + 1" by (simp add: b tb)
  moreover have "content_ok env b" unfolding b by (rule template_content [OF pool])
  ultimately show ?thesis using pow h tb by (auto simp: block_sound_def b)
qed

section \<open>One tick\<close>

lemma store_mined_frame:
  "n_dag (store_mined env h b nd) = dag_insert (n_dag nd) h b"
  "n_history (store_mined env h b nd) = n_history nd @ [b]"
  "n_orphans (store_mined env h b nd) = n_orphans nd"
  "blocks_tree (n_storage (store_mined env h b nd)) =
     blocks_tree (snd (save_block (sled_fault env) (bin env) h b (n_storage nd)))"
  by (auto simp: store_mined_def Let_def emit_def split: prod.split sum.split option.split)

text \<open>The ledger does not look at the nonce.\<close>

lemma apply_block_nonce: "apply_block sha l (with_nonce b n) = apply_block sha l b"
  by (simp add: apply_block_def verify_coinbase_rewards_def split: sum.split option.split)

text \<open>
  The first half: either the chain stays as it was, or a block is booked and about to be mined.
\<close>

lemma begin_step:
  fixes nd :: "'p node"
  assumes call: "begin_mining env g miner nd pool = (res, pool')"
  obtains (idle) nd' :: "'p node" where "res = Inl nd'" "same_chain nd nd'" "n_orphans nd' = n_orphans nd"
      "pool' = pool \<or> (\<exists>txs. drain_to_batch pool 10 = (txs, pool'))"
      "same_books nd nd' \<or> save_fails env"
  | (job) b and nd1 nd2 :: "'p node" and txs where "res = Inr (b, nd1)" "same_chain nd nd1"
      "n_orphans nd1 = n_orphans nd" "same_chain nd nd2" "n_ledger nd2 = n_ledger nd"
      "drain_to_batch pool 10 = (txs, pool')"
      "b = block_template env g miner (wall_clock env (n_reads nd)) txs nd2"
      "block_height b \<noteq> 0" "booked env b nd nd1" "n_outbox nd1 = n_outbox nd"
      "n_reads nd1 = Suc (n_reads nd)"
proof (cases "n_sync_pending nd")
  case True
  with call show thesis by (intro idle) (auto simp: begin_mining_def)
next
  case False
  define nd2 where "nd2 = nd\<lparr>n_reads := Suc (n_reads nd)\<rparr>"
  obtain txs pool2 where dr: "drain_to_batch pool 10 = (txs, pool2)" by fastforce
  define b where "b = block_template env g miner (wall_clock env (n_reads nd)) txs nd2"
  obtain ra l where ap: "apply_block (sha3 env) (n_ledger nd2) b = (ra, l)" by fastforce
  have cb: "verify_coinbase_rewards b" unfolding b_def by (rule template_coinbase)
  obtain rs st where sv: "save_ledger_state (sled_fault env) (bin env) l (n_storage nd2) = (rs, st)"
    by fastforce
  have tree: "blocks_tree st = blocks_tree (n_storage nd2)"
    using save_ledger_blocks [of "sled_fault env" "bin env" l "n_storage nd2"] sv by simp
  define nd1 where "nd1 = nd2\<lparr>n_ledger := l, n_storage := st,
      n_log := log_record (n_log nd2) (block_height b) (n_target nd2)\<rparr>"
  have body: "begin_mining env g miner nd pool =
      (case ra of
         Inl _ \<Rightarrow> (Inl (nd2\<lparr>n_ledger := l\<rparr>), pool2)
       | Inr _ \<Rightarrow>
           (case rs of
              Inl _ \<Rightarrow> (Inl (nd2\<lparr>n_ledger := l, n_storage := st\<rparr>), pool2)
            | Inr _ \<Rightarrow> (Inr (b, nd1), pool2)))"
    unfolding nd1_def
    using False cb ap sv
    by (cases ra; cases rs)
      (simp_all add: begin_mining_def tick_def dr Let_def nd2_def [symmetric] b_def [symmetric])
  have sc: "same_chain nd nd1" "same_chain nd (nd2\<lparr>n_ledger := l\<rparr>)" "same_chain nd nd2"
    "same_chain nd (nd2\<lparr>n_ledger := l, n_storage := st\<rparr>)"
    "n_orphans nd1 = n_orphans nd" "n_orphans nd2 = n_orphans nd"
    using tree by (simp_all add: same_chain_def nd1_def nd2_def)
  consider e where "ra = Inl e" | u e where "ra = Inr u" "rs = Inl e" | u v where "ra = Inr u" "rs = Inr v"
    by (cases ra; cases rs) auto
  then show thesis
  proof cases
    case 1
    then have "same_books nd (nd2\<lparr>n_ledger := l\<rparr>)"
      using ap by (auto simp: same_books_def nd2_def dest: apply_block_atomic)
    with 1 call body sc dr show thesis by (intro idle [of "nd2\<lparr>n_ledger := l\<rparr>"]) auto
  next
    case 2
    then have "save_fails env" using sv unfolding save_fails_def by blast
    with 2 call body sc dr show thesis
      by (intro idle [of "nd2\<lparr>n_ledger := l, n_storage := st\<rparr>"]) auto
  next
    case 3
    then have "booked env b nd nd1" using ap sv by (auto simp: booked_def nd1_def nd2_def)
    moreover have "block_height b \<noteq> 0"
      using height_zero_rejected [OF cb, of "sha3 env" "n_ledger nd2"] ap 3(1) by auto
    ultimately show thesis
      using 3 call body sc dr b_def by (intro job [of b nd1 nd2 txs]) (simp_all add: nd1_def nd2_def)
  qed
qed

text \<open>The second half: the nonce that was found makes the booked block a valid one.\<close>

lemma mined_nonce:
  assumes "mine_block (sha3 env) (pow_new t) b = Some (h, mined)"
  obtains n where "mined = with_nonce b n" "h = calculate_hash (sha3 env) mined" "h \<le> t"
  using mine_block_sound [OF assms] by (auto simp: verify_pow_def pow_new_def)

lemma booked_nonce: "booked env b nd nd1 \<Longrightarrow> booked env (with_nonce b n) nd nd1"
  by (simp add: booked_def apply_block_nonce)

lemma mining_step:
  fixes nd nd' :: "'p node"
  assumes call: "mining_tick env g miner nd pool = ((r, nd'), pool')"
  obtains (idle) "same_store nd nd'" "n_orphans nd' = n_orphans nd"
      "pool' = pool \<or> (\<exists>txs. drain_to_batch pool 10 = (txs, pool'))" "r = Inr () \<or> r = Inl Diverges"
      "r = Inr () \<Longrightarrow> same_books nd nd' \<or> save_fails env"
  | (mined) nd1 nd2 :: "'p node" and txs b n where "same_store nd nd1" "n_orphans nd1 = n_orphans nd"
      "same_store nd nd2" "n_target nd2 = n_target nd" "n_ledger nd2 = n_ledger nd"
      "drain_to_batch pool 10 = (txs, pool')"
      "b = with_nonce (block_template env g miner (wall_clock env (n_reads nd)) txs nd2) n"
      "calculate_hash (sha3 env) b \<le> n_target nd" "block_height b \<noteq> 0"
      "settle env (calculate_hash (sha3 env) b)
         (store_mined env (calculate_hash (sha3 env) b) b nd1) = (r, nd')"
      "apply_block (sha3 env) (n_ledger nd) b = (Inr (), n_ledger nd1)" "n_target nd1 = n_target nd"
      "n_outbox nd1 = n_outbox nd" "n_reads nd1 = Suc (n_reads nd)" "booked env b nd nd1"
proof -
  obtain res pool2 where bm: "begin_mining env g miner nd pool = (res, pool2)" by fastforce
  from bm show thesis
  proof (cases rule: begin_step)
    case (idle nd')
    with call bm show thesis by (intro that(1)) (auto simp: mining_tick_def same_chain_store)
  next
    case (job b nd1 nd2 txs)
    show thesis
    proof (cases "mine_block (sha3 env) (pow_new (n_target nd1)) b")
      case None
      with call bm job show thesis by (intro that(1)) (auto simp: mining_tick_def same_chain_store)
    next
      case (Some hm)
      then obtain h mined where hm: "mine_block (sha3 env) (pow_new (n_target nd1)) b = Some (h, mined)"
        by (cases hm) auto
      from mined_nonce [OF hm] obtain n where n: "mined = with_nonce b n"
        "h = calculate_hash (sha3 env) mined" "h \<le> n_target nd1" by blast
      have bk: "booked env mined nd nd1" using booked_nonce [OF job(9)] n(1) by simp
      then have "apply_block (sha3 env) (n_ledger nd) mined = (Inr (), n_ledger nd1)"
        unfolding booked_def by blast
      with call bm job hm n bk show thesis
        by (intro that(2) [of nd1 nd2 txs mined n])
          (auto simp: mining_tick_def same_chain_store, auto simp: same_chain_def)
    qed
  qed
qed

end
