(* ===== verification/Node_Runs.thy ===== *)
theory Node_Runs
  imports Node_Mining
begin

text \<open>
  The runs of a whole node: a start on a database without blocks, then any interleaving of
  network events, RPC requests, mining ticks and restarts on its own database.  What holds in
  every state of every run is proved here once, from the invariants of the components.
\<close>

section \<open>Runs\<close>

text \<open>
  A tick is two steps.  It drains the mempool, builds a block, books it in the ledger and saves
  the ledger; then \<^verbatim>\<open>mine_block\<close> searches a nonce on the thread of the main loop, during which the
  RPC tasks go on with the ledger that is booked already, and no network event is handled.  The
  search ends or the process is stopped; a search without end is a state without an end step.
  The state \<open>job\<close> is the block that is being mined, if any; \<open>lost\<close> collects the blocks of the
  searches that a stop cut off.

  Errors of the event handler are dropped by the main loop.  A block is mined under the
  assumption that the digest has no collision among the blocks the node then holds; a restart
  loses the mempool.  The flag tells whether the run may contain mining ticks.
\<close>

inductive node_run ::
  "('pk, 'sg) environment \<Rightarrow> 'j rpc_codec \<Rightarrow> string option \<Rightarrow> u64 \<Rightarrow> address \<Rightarrow> bool \<Rightarrow>
     velo_block option \<Rightarrow> velo_block list \<Rightarrow> 'p node \<Rightarrow> mempool \<Rightarrow> bool"
  for env codec token i miner mining
where
  start: "blocks_tree st = Map.empty \<Longrightarrow> start_node env i st = Inr nd \<Longrightarrow>
    node_run env codec token i miner mining None [] nd mempool_new"
| event: "node_run env codec token i miner mining None lost nd pool \<Longrightarrow>
    handle_p2p_events env (fixed_genesis_hash_for_network (sha3 env) i) i ev nd = (r, nd') \<Longrightarrow>
    node_run env codec token i miner mining None lost nd' pool"
| request: "node_run env codec token i miner mining job lost nd pool \<Longrightarrow>
    dispatch (dili env) (sha3 env) codec token (n_ledger nd) rq pool = (answer, pool') \<Longrightarrow>
    node_run env codec token i miner mining job lost nd pool'"
| idle: "node_run env codec token i miner mining None lost nd pool \<Longrightarrow> mining \<Longrightarrow>
    begin_mining env (fixed_genesis_hash_for_network (sha3 env) i) miner nd pool = (Inl nd', pool') \<Longrightarrow>
    node_run env codec token i miner mining None lost nd' pool'"
| book: "node_run env codec token i miner mining None lost nd pool \<Longrightarrow> mining \<Longrightarrow>
    begin_mining env (fixed_genesis_hash_for_network (sha3 env) i) miner nd pool = (Inr (b, nd'), pool') \<Longrightarrow>
    node_run env codec token i miner mining (Some b) lost nd' pool'"
| mined: "node_run env codec token i miner mining (Some b) lost nd pool \<Longrightarrow>
    mine_block (sha3 env) (pow_new (n_target nd)) b = Some (h, blk) \<Longrightarrow>
    settle env h (store_mined env h blk nd) = (r, nd') \<Longrightarrow>
    inj_on (sha3 env) (block_preimage ` set (n_history nd')) \<Longrightarrow>
    node_run env codec token i miner mining None lost nd' pool"
| restart: "node_run env codec token i miner mining job lost nd pool \<Longrightarrow> dag_size nd < 2 ^ 32 \<Longrightarrow>
    start_node env i (n_storage nd) = Inr nd' \<Longrightarrow>
    node_run env codec token i miner mining None
      (case job of None \<Rightarrow> lost | Some b \<Rightarrow> lost @ [b]) nd' mempool_new"

text \<open>A tick that nothing interrupts takes these steps.\<close>

lemma node_run_tick:
  assumes run: "node_run env codec token i miner mining None lost nd pool" and "mining"
    and tick: "mining_tick env (fixed_genesis_hash_for_network (sha3 env) i) miner nd pool = ((r, nd'), pool')"
    and r: "r \<noteq> Inl Diverges"
    and inj: "inj_on (sha3 env) (block_preimage ` set (n_history nd'))"
  shows "node_run env codec token i miner mining None lost nd' pool'"
proof -
  let ?g = "fixed_genesis_hash_for_network (sha3 env) i"
  obtain res pool2 where bm: "begin_mining env ?g miner nd pool = (res, pool2)" by fastforce
  show ?thesis
  proof (cases res)
    case (Inl nd1)
    with tick bm have "begin_mining env ?g miner nd pool = (Inl nd', pool')" by (simp add: mining_tick_def)
    from node_run.idle [OF run \<open>mining\<close> this] show ?thesis .
  next
    case (Inr bn)
    obtain b nd1 where bn: "bn = (b, nd1)" by (cases bn)
    note job = node_run.book [OF run \<open>mining\<close> bm [unfolded Inr bn]]
    show ?thesis
    proof (cases "mine_block (sha3 env) (pow_new (n_target nd1)) b")
      case None
      with tick bm Inr bn r show ?thesis by (simp add: mining_tick_def)
    next
      case (Some hm)
      obtain h blk where hm: "hm = (h, blk)" by (cases hm)
      from tick bm Inr bn Some hm have "settle env h (store_mined env h blk nd1) = (r, nd')" "pool2 = pool'"
        by (simp_all add: mining_tick_def)
      with node_run.mined [OF job Some [unfolded hm] this(1) inj] show ?thesis by simp
    qed
  qed
qed

text \<open>
  How an invariant of a run is shown: a state between two steps of the main loop has it, and one
  in which a block is mined is what begun in such a state.
\<close>

definition mining_from ::
  "('pk, 'sg) environment \<Rightarrow> 'j rpc_codec \<Rightarrow> string option \<Rightarrow> u64 \<Rightarrow> address \<Rightarrow> bool \<Rightarrow>
     (velo_block list \<Rightarrow> 'p node \<Rightarrow> bool) \<Rightarrow> velo_block \<Rightarrow> velo_block list \<Rightarrow> 'p node \<Rightarrow> bool"
where
  "mining_from env codec token i miner mining Q b lost nd \<longleftrightarrow>
     mining \<and>
     (\<exists>nd0 pool0 pool1. node_run env codec token i miner mining None lost nd0 pool0 \<and> Q lost nd0 \<and>
        begin_mining env (fixed_genesis_hash_for_network (sha3 env) i) miner nd0 pool0 =
          (Inr (b, nd), pool1))"

lemma node_run_states:
  fixes nd :: "'p node" and Q :: "velo_block list \<Rightarrow> 'p node \<Rightarrow> bool"
  assumes run: "node_run env codec token i miner mining job lost nd pool"
    and start: "\<And>st nd. blocks_tree st = Map.empty \<Longrightarrow> start_node env i st = Inr nd \<Longrightarrow> Q [] nd"
    and event: "\<And>lost nd pool ev r nd'. node_run env codec token i miner mining None lost nd pool \<Longrightarrow> Q lost nd \<Longrightarrow>
      handle_p2p_events env (fixed_genesis_hash_for_network (sha3 env) i) i ev nd = (r, nd') \<Longrightarrow> Q lost nd'"
    and idle: "\<And>lost nd pool nd' pool'. node_run env codec token i miner mining None lost nd pool \<Longrightarrow> mining \<Longrightarrow>
      Q lost nd \<Longrightarrow>
      begin_mining env (fixed_genesis_hash_for_network (sha3 env) i) miner nd pool = (Inl nd', pool') \<Longrightarrow> Q lost nd'"
    and tick: "\<And>lost nd pool b nd1 pool' h blk r nd'.
      node_run env codec token i miner mining None lost nd pool \<Longrightarrow> mining \<Longrightarrow> Q lost nd \<Longrightarrow>
      begin_mining env (fixed_genesis_hash_for_network (sha3 env) i) miner nd pool = (Inr (b, nd1), pool') \<Longrightarrow>
      mine_block (sha3 env) (pow_new (n_target nd1)) b = Some (h, blk) \<Longrightarrow>
      settle env h (store_mined env h blk nd1) = (r, nd') \<Longrightarrow>
      inj_on (sha3 env) (block_preimage ` set (n_history nd')) \<Longrightarrow> Q lost nd'"
    and restart: "\<And>lost nd pool nd'. node_run env codec token i miner mining None lost nd pool \<Longrightarrow> Q lost nd \<Longrightarrow>
      dag_size nd < 2 ^ 32 \<Longrightarrow> start_node env i (n_storage nd) = Inr nd' \<Longrightarrow> Q lost nd'"
    and stop: "\<And>lost nd pool b nd1 pool' nd'. node_run env codec token i miner mining None lost nd pool \<Longrightarrow>
      mining \<Longrightarrow> Q lost nd \<Longrightarrow>
      begin_mining env (fixed_genesis_hash_for_network (sha3 env) i) miner nd pool = (Inr (b, nd1), pool') \<Longrightarrow>
      dag_size nd1 < 2 ^ 32 \<Longrightarrow> start_node env i (n_storage nd1) = Inr nd' \<Longrightarrow> Q (lost @ [b]) nd'"
  shows "case job of None \<Rightarrow> Q lost nd | Some b \<Rightarrow> mining_from env codec token i miner mining Q b lost nd"
  using run
proof (induction rule: node_run.induct)
  case (start st nd)
  then show ?case using assms(2) by simp
next
  case (event lost nd pool ev r nd')
  then show ?case using assms(3) by simp
next
  case (request job lost nd pool rq answer pool')
  then show ?case by simp
next
  case (idle lost nd pool nd' pool')
  then show ?case using assms(4) by simp
next
  case (book lost nd pool b nd' pool')
  then show ?case by (auto simp: mining_from_def)
next
  case (mined b lost nd pool h blk r nd')
  then obtain nd0 :: "'p node" and pool0 pool1 where
    "node_run env codec token i miner mining None lost nd0 pool0" "mining" "Q lost nd0"
    "begin_mining env (fixed_genesis_hash_for_network (sha3 env) i) miner nd0 pool0 = (Inr (b, nd), pool1)"
    by (auto simp: mining_from_def)
  from tick [OF this mined.hyps(2-4)] show ?case by simp
next
  case (restart job lost nd pool nd')
  show ?case
  proof (cases job)
    case None
    then show ?thesis using restart assms(6) by simp
  next
    case (Some b)
    then obtain nd0 :: "'p node" and pool0 pool1 where
      "node_run env codec token i miner mining None lost nd0 pool0" "mining" "Q lost nd0"
      "begin_mining env (fixed_genesis_hash_for_network (sha3 env) i) miner nd0 pool0 = (Inr (b, nd), pool1)"
      using restart.IH by (auto simp: mining_from_def)
    from stop [OF this restart.hyps(2,3)] Some show ?thesis by simp
  qed
qed

section \<open>A tick keeps the invariants\<close>

text \<open>A mined block is new: it names a parent that nothing else names.\<close>

lemma mined_fresh:
  assumes inv: "node_inv env g nd" and par: "block_parents b = [mining_tip g (n_dag nd)]"
    and inj: "inj_on (sha3 env) (block_preimage ` insert b (set (n_history nd)))"
  shows "hm_get (block_store (n_dag nd)) (calculate_hash (sha3 env) b) = None"
proof (rule ccontr)
  let ?h = "calculate_hash (sha3 env) b" and ?m = "n_dag nd"
  assume "hm_get (block_store ?m) ?h \<noteq> None"
  then obtain c where c: "hm_get (block_store ?m) ?h = Some c" by blast
  have hist: "c \<in> set (n_history nd)"
  proof -
    have "(?h, c) \<in> set (block_store ?m)" using c by (simp add: hm_get_def map_of_SomeD)
    then have "c \<in> set (map snd (block_store ?m))" by force
    then show ?thesis using inv by (simp add: node_inv_def)
  qed
  have "?h = calculate_hash (sha3 env) c"
    using inv c unfolding node_inv_def by (metis option.inject)
  then have "sha3 env (block_preimage b) = sha3 env (block_preimage c)"
    by (simp add: calculate_hash_def)
  from inj_onD [OF inj this] hist have "block_preimage b = block_preimage c" by simp
  from block_preimage_inject [OF this] par have "block_parents c = [mining_tip g ?m]" by simp
  then have "mining_tip g ?m \<in> set (parents_of ?m ?h)" by (simp add: parents_of_def c)
  then show False using mining_tip_stored(2) [OF inv] by blast
qed

lemma mined_history:
  assumes "settle env h (store_mined env h b nd1) = (r, nd')"
  shows "n_history nd' = n_history nd1 @ [b]" "n_dag nd' = dag_insert (n_dag nd1) h b"
    "n_orphans nd' = n_orphans nd1"
    "blocks_tree (n_storage nd') =
       blocks_tree (snd (save_block (sled_fault env) (bin env) h b (n_storage nd1)))"
  using settle_frame [OF assms] by (simp_all add: store_mined_frame)

text \<open>What a tick adds, in terms of the state it began in.\<close>

lemma mined_step:
  fixes nd nd' :: "'p node"
  assumes bm: "begin_mining env g miner nd pool = (Inr (b, nd1), pool')"
    and mb: "mine_block (sha3 env) (pow_new (n_target nd1)) b = Some (h, blk)"
    and se: "settle env h (store_mined env h blk nd1) = (r, nd')"
    and signed: "mempool_signed (dili env) (sha3 env) pool"
    and inj: "inj_on (sha3 env) (block_preimage ` set (n_history nd'))"
    and inv: "node_inv env g nd"
  obtains n where "blk = with_nonce b n" "h = calculate_hash (sha3 env) blk" "h \<le> n_target nd"
    "same_chain nd nd1" "booked env blk nd nd1" "block_sound env (n_dag nd) blk"
    "difficulty_target (header blk) = n_target nd"
    "hm_get (block_store (n_dag nd)) h = None" "timestamp (header blk) = wall_clock env (n_reads nd)"
    "n_reads nd1 = Suc (n_reads nd)" "n_orphans nd1 = n_orphans nd"
  using bm
proof (cases rule: begin_step)
  case (idle nd')
  then show ?thesis by simp
next
  case (job b' nd1' nd2 txs)
  then have eq [simp]: "b' = b" "nd1' = nd1" by simp_all
  note job = job [simplified eq]
  from mined_nonce [OF mb] obtain n where n: "blk = with_nonce b n" "h = calculate_hash (sha3 env) blk"
    "h \<le> n_target nd1" by blast
  have d: "n_dag nd1 = n_dag nd" "n_history nd1 = n_history nd" "n_dag nd2 = n_dag nd"
    "n_target nd1 = n_target nd" "n_target nd2 = n_target nd"
    using job(2,4) by (simp_all add: same_chain_def)
  have inv2: "node_inv env g nd2" by (rule node_inv_store [OF same_chain_store [OF job(4)] inv])
  have "block_sound env (n_dag nd2) blk"
    by (rule template_sound [OF inv2 signed job(6)]) (use n job(7,8) d in simp_all)
  moreover have par: "block_parents blk = [mining_tip g (n_dag nd)]" using n(1) job(7) d by simp
  moreover have "hm_get (block_store (n_dag nd)) h = None"
    using mined_fresh [OF inv par] inj mined_history(1) [OF se] d(2) n(2) by simp
  ultimately show ?thesis
    using that [OF n(1,2)] n(3) job d booked_nonce [OF job(9), of n] n(1) by simp
qed

lemma mined_sound:
  fixes nd nd' :: "'p node"
  assumes bm: "begin_mining env g miner nd pool = (Inr (b, nd1), pool')"
    and mb: "mine_block (sha3 env) (pow_new (n_target nd1)) b = Some (h, blk)"
    and se: "settle env h (store_mined env h blk nd1) = (r, nd')"
    and signed: "mempool_signed (dili env) (sha3 env) pool"
    and inj: "inj_on (sha3 env) (block_preimage ` set (n_history nd'))"
    and old: "node_sound env g nd"
  shows "node_sound env g nd'" and "n_orphans nd' = n_orphans nd" and "dag_size nd \<le> dag_size nd'"
proof -
  note after = mined_history [OF se]
  have sc: "same_chain nd nd1" and orph: "n_orphans nd1 = n_orphans nd"
    using bm by (cases rule: begin_step; simp)+
  then have d: "n_dag nd1 = n_dag nd" "n_history nd1 = n_history nd" by (simp_all add: same_chain_def)
  show "n_orphans nd' = n_orphans nd" using orph after(3) by simp
  show le: "dag_size nd \<le> dag_size nd'"
    using d by (simp add: dag_size_def after(2) dag_insert_def length_hm_insert)
  show "node_sound env g nd'"
    unfolding node_sound_def
  proof (intro impI)
    assume rel: "reliable env" and size: "dag_size nd' < 2 ^ 32"
    have inv: "node_inv env g nd" using old rel size le by (simp add: node_sound_def)
    from mined_step [OF bm mb se signed inj inv] obtain n where
      n: "h = calculate_hash (sha3 env) blk" "block_sound env (n_dag nd) blk"
      "hm_get (block_store (n_dag nd)) h = None" by metis
    have inv1: "node_inv env g nd1" by (rule node_inv_store [OF same_chain_store [OF sc] inv])
    show "node_inv env g nd'"
      by (rule node_inv_add [OF rel inv1 _ n(1) _ after(2,1,4) size]) (use n d in simp_all)
  qed
qed

section \<open>Every state of every run\<close>

lemma node_run_signed:
  "node_run env codec token i miner mining job lost nd pool \<Longrightarrow> mempool_signed (dili env) (sha3 env) pool"
proof (induction rule: node_run.induct)
  case (start st nd)
  show ?case using mempool_inv_new by (simp add: mempool_signed_def mempool_new_def)
next
  case (request job lost nd pool rq answer pool')
  then show ?case using dispatch_signed by blast
next
  case (idle lost nd pool nd' pool')
  from idle.hyps(3) show ?case by (cases rule: begin_step) (use drain_signed(1) [OF idle.IH] idle.IH in auto)
next
  case (book lost nd pool b nd' pool')
  from book.hyps(3) show ?case
    by (cases rule: begin_step) (use drain_signed(1) [OF book.IH] book.IH in auto)
next
  case (restart job lost nd pool nd')
  show ?case using mempool_inv_new by (simp add: mempool_signed_def mempool_new_def)
qed simp_all

lemma node_run_inv:
  fixes nd :: "'p node"
  assumes run: "node_run env codec token i miner mining job lost nd pool" and rel: "reliable env"
  shows "guarded (node_sound env (fixed_genesis_hash_for_network (sha3 env) i)) nd \<and>
     mempool_signed (dili env) (sha3 env) pool"
proof -
  let ?g = "fixed_genesis_hash_for_network (sha3 env) i"
  let ?Q = "\<lambda>lost :: velo_block list. guarded (node_sound env ?g :: 'p node \<Rightarrow> bool)"
  have keep: "guarded (node_sound env ?g) nd1"
    if "same_chain nd0 nd1" "n_orphans nd1 = n_orphans nd0" "guarded (node_sound env ?g) nd0"
    for nd0 nd1 :: "'p node"
    using that sound_chain.stored_only [OF same_chain_store [OF that(1)], of env ?g] by (simp add: guarded_def)
  have began: "guarded (node_sound env ?g) nd1"
    if "begin_mining env ?g miner nd0 pool0 = (Inr (b, nd1), pool1)" "guarded (node_sound env ?g) nd0"
    for nd0 nd1 :: "'p node" and pool0 b pool1
    using that(1) by (cases rule: begin_step) (use keep that(2) in auto)
  have "case job of None \<Rightarrow> ?Q lost nd | Some b \<Rightarrow> mining_from env codec token i miner mining ?Q b lost nd"
    using run
  proof (rule node_run_states)
    show "?Q [] nd" if "blocks_tree st = Map.empty" "start_node env i st = Inr nd" for st and nd :: "'p node"
      using start_node_guarded [OF that rel] by (auto simp: guarded_def node_strict_def node_sound_def)
    show "?Q lost nd'" if "?Q lost nd" "handle_p2p_events env ?g i ev nd = (r, nd')"
      for lost ev r and nd nd' :: "'p node"
      using sound_chain.event_guarded [OF that(2,1)] .
    show "?Q lost nd'" if "?Q lost nd" "begin_mining env ?g miner nd pool = (Inl nd', pool')"
      for lost pool pool' and nd nd' :: "'p node"
      using that(2) by (cases rule: begin_step) (use keep that(1) in auto)
    show "?Q lost nd'"
      if "node_run env codec token i miner mining None lost nd pool" "?Q lost nd"
        "begin_mining env ?g miner nd pool = (Inr (b, nd1), pool')"
        "mine_block (sha3 env) (pow_new (n_target nd1)) b = Some (h, blk)"
        "settle env h (store_mined env h blk nd1) = (r, nd')"
        "inj_on (sha3 env) (block_preimage ` set (n_history nd'))"
      for lost pool b pool' h blk r and nd nd1 nd' :: "'p node"
      using mined_sound [OF that(3-5) node_run_signed [OF that(1)] that(6)] that(2) by (simp add: guarded_def)
    show "?Q lost nd'" if "?Q lost nd" "dag_size nd < 2 ^ 32" "start_node env i (n_storage nd) = Inr nd'"
      for lost and nd nd' :: "'p node"
      using restart_guarded(1) [OF rel that(2,1,3)] .
    show "?Q (lost @ [b]) nd'"
      if "?Q lost nd" "begin_mining env ?g miner nd pool = (Inr (b, nd1), pool')" "dag_size nd1 < 2 ^ 32"
        "start_node env i (n_storage nd1) = Inr nd'" for lost pool b pool' and nd nd1 nd' :: "'p node"
      using restart_guarded(1) [OF rel that(3) began [OF that(2,1)] that(4)] .
  qed
  then show ?thesis
    using node_run_signed [OF run] began by (cases job) (auto simp: mining_from_def)
qed

text \<open>Without mining, the time order of parents and children holds as well.\<close>

lemma node_run_strict:
  fixes nd :: "'p node"
  assumes run: "node_run env codec token i miner mining job lost nd pool" and "\<not> mining"
    and rel: "reliable env"
  shows "guarded (node_strict env (fixed_genesis_hash_for_network (sha3 env) i)) nd"
proof -
  let ?g = "fixed_genesis_hash_for_network (sha3 env) i"
  let ?Q = "\<lambda>lost :: velo_block list. guarded (node_strict env ?g :: 'p node \<Rightarrow> bool)"
  have "case job of None \<Rightarrow> ?Q lost nd | Some b \<Rightarrow> mining_from env codec token i miner mining ?Q b lost nd"
    using run
  proof (rule node_run_states)
    show "?Q lost nd'" if "?Q lost nd" "dag_size nd < 2 ^ 32" "start_node env i (n_storage nd) = Inr nd'"
      for lost and nd nd' :: "'p node"
    proof -
      have snd': "guarded (node_sound env ?g) nd"
        using that(1) by (auto simp: guarded_def node_strict_def node_sound_def)
      note r = restart_guarded [OF rel that(2) snd' that(3)]
      show ?thesis
        using that(1,2) r(1) r(3) [of ?g] rel r(2) by (simp add: guarded_def node_strict_def node_sound_def)
    qed
  qed (use start_node_guarded rel strict_chain.event_guarded \<open>\<not> mining\<close> in blast)+
  then show ?thesis using \<open>\<not> mining\<close> by (cases job) (auto simp: mining_from_def)
qed

text \<open>The pool of orphans keeps its capacity, whatever the environment does.\<close>

interpretation pool_chain: chain_invariant env "\<lambda>nd. True" for env
  by unfold_locales simp_all

lemma node_run_pool:
  "node_run env codec token i miner mining job lost nd pool \<Longrightarrow> guarded (\<lambda>nd. True) nd"
proof (induction rule: node_run.induct)
  case (start st nd)
  then show ?case using start_node_capacity [OF start(2)] by (simp add: guarded_def)
next
  case (event lost nd pool ev r nd')
  then show ?case using pool_chain.event_guarded by blast
next
  case (idle lost nd pool nd' pool')
  from idle.hyps(3) show ?case by (cases rule: begin_step) (use idle.IH in \<open>simp_all add: guarded_def\<close>)
next
  case (book lost nd pool b nd' pool')
  from book.hyps(3) show ?case by (cases rule: begin_step) (use book.IH in \<open>simp_all add: guarded_def\<close>)
next
  case (mined b lost nd pool h blk r nd')
  then show ?case using mined_history(3) [OF mined.hyps(3)] by (simp add: guarded_def)
next
  case (restart job lost nd pool nd')
  then show ?case using start_node_capacity [OF restart.hyps(3)] by (simp add: guarded_def)
qed

end
