(* ===== verification/Node_Acceptance.thy ===== *)
theory Node_Acceptance
  imports Node_Events
begin

text \<open>
  When a block gets in: what validation does to a block that fails a check of its content, and
  to one that passes every check.
\<close>

section \<open>Stored blocks stay\<close>

text \<open>Neither events nor orphans remove or replace a stored block.\<close>

definition holds_block :: "bytes32 \<Rightarrow> velo_block \<Rightarrow> 'p node \<Rightarrow> bool" where
  "holds_block h b nd \<longleftrightarrow>
     hm_get (block_store (n_dag nd)) h = Some b \<and> blocks_tree (n_storage nd) h \<noteq> None"

interpretation block_stays: chain_invariant env "holds_block h b" for env h b
proof
  show "holds_block h b nd'" if "same_store nd nd'" "holds_block h b nd" for nd nd'
    using that by (simp add: holds_block_def same_store_def)
  show "holds_block h b nd'"
    if "holds_block h b nd" "admissible env nd blk" "ingest_block_only env blk nd = (h', nd')"
    for nd blk h' nd'
  proof -
    note fr = ingest_frame [OF that(3)]
    have "h' \<noteq> h" using that(1,2) fr(1) by (auto simp: holds_block_def admissible_def)
    then show ?thesis
      using that(1) fr(2,7) save_block_other [of h h' "sled_fault env" "bin env" blk "n_storage nd"]
      by (simp add: holds_block_def)
  qed
qed

section \<open>Rejection\<close>

lemma validate_rejects:
  assumes load: "load_block (sled_fault env) (bin env) (calculate_hash (sha3 env) blk) (n_storage nd) =
      (Inr None, st)"
    and bad: "\<not> content_ok env blk \<or> \<not> work_ok env (n_target nd) blk"
  shows "validate env blk source nd =
    (Inr (), record_violation_and_maybe_ban env source (nd\<lparr>n_storage := st\<rparr>))"
  using bad by (auto simp: validate_def ingest_fuel_def load Let_def)

section \<open>Acceptance\<close>

lemma parent_scan_known:
  "set ps \<subseteq> dom (hm_get (block_store m)) \<Longrightarrow> \<exists>st'. try_fold (parent_step m) st ps = Inr st'"
proof (induction ps arbitrary: st)
  case Nil
  then show ?case by simp
next
  case (Cons p ps)
  then obtain pb where "hm_get (block_store m) p = Some pb" by auto
  then show ?case using Cons by (simp add: parent_step_def)
qed

lemma scan_valid:
  assumes "block_valid env m b"
  shows "scan_parents m (block_parents b) =
    Inr (Some (Max (parent_heights m b)), Some (Max (parent_times m b)))"
proof -
  have ne: "block_parents b \<noteq> []" and sub: "set (block_parents b) \<subseteq> dom (hm_get (block_store m))"
    using assms by (simp_all add: block_valid_def block_sound_def)
  obtain st where st: "try_fold (parent_step m) (None, None) (block_parents b) = Inr st"
    using parent_scan_known [OF sub] by blast
  obtain mh mt where ms: "st = (mh, mt)" by (cases st)
  note ps = parent_scan [OF st [unfolded ms]]
  show ?thesis
    using st ps(2,3) fold_opt_max [OF ne]
    by (simp add: scan_parents_def ms parent_heights_def parent_times_def)
qed

lemma position_valid:
  assumes "block_valid env (n_dag nd) b"
    and "timestamp (header b) \<le> saturating_add (wall_clock env (n_reads nd)) MAX_FUTURE_DRIFT_SECS"
  shows "position_check env b (Some (Max (parent_heights (n_dag nd) b)))
      (Some (Max (parent_times (n_dag nd) b))) nd = (Inr True, nd\<lparr>n_reads := Suc (n_reads nd)\<rparr>)"
proof -
  have v: "block_height b \<noteq> 0" "block_parents b \<noteq> []"
    "block_height b = Max (parent_heights (n_dag nd) b) + 1"
    "Max (parent_times (n_dag nd) b) \<le> timestamp (header b)"
    using assms(1) unfolding block_valid_def block_sound_def by blast+
  show ?thesis
    unfolding position_check_def tick_def
    using v(1,2,4) v(3) [symmetric] assms(2) by (simp add: not_less)
qed

text \<open>The database keeps working and the ledger can be encoded.\<close>

lemma save_ledger_reliable:
  assumes "reliable_db fault" and "ser_ledger bc l = Some bytes"
  obtains st' where "save_ledger_state fault bc l st = (Inr (), st')"
    "blocks_tree st' = blocks_tree st"
  using assms
  by (simp add: save_ledger_state_def write_entry_def db_op_def Let_def reliable_db_def)

text \<open>A valid block that is new reaches the ledger.\<close>

lemma validate_passes:
  fixes nd :: "'p node"
  assumes rel: "reliable_db (sled_fault env)" and inv: "node_inv env g nd"
    and new: "hm_get (block_store (n_dag nd)) (calculate_hash (sha3 env) blk) = None"
    and valid: "block_valid env (n_dag nd) blk" and target: "difficulty_target (header blk) = n_target nd"
    and drift: "timestamp (header blk) \<le>
      saturating_add (wall_clock env (n_reads nd)) MAX_FUTURE_DRIFT_SECS"
  obtains nd2 where
    "validate env blk source nd =
       accept_block env (validate_and_ingest env (max_size (n_orphans nd))) blk source nd2"
    "n_dag nd2 = n_dag nd" "n_ledger nd2 = n_ledger nd" "n_target nd2 = n_target nd"
    "n_orphans nd2 = n_orphans nd" "n_guard nd2 = n_guard nd"
    "blocks_tree (n_storage nd2) = blocks_tree (n_storage nd)"
proof -
  let ?h = "calculate_hash (sha3 env) blk" and ?f = "sled_fault env" and ?b = "bin env"
  have tree: "rel_option (\<lambda>bytes b. de_block ?b bytes = Some b)
      (blocks_tree (n_storage nd) h) (hm_get (block_store (n_dag nd)) h)" for h
    using inv unfolding node_inv_def by blast
  have absent: "blocks_tree (n_storage nd) ?h = None" using tree [of ?h] new by simp
  then obtain st where ld: "load_block ?f ?b ?h (n_storage nd) = (Inr None, st)"
    "blocks_tree st = blocks_tree (n_storage nd)"
    using rel by (simp add: load_block_def read_entry_def db_op_def Let_def reliable_db_def)
  have h: "0 < block_height blk" and ok: "content_ok env blk" "work_ok env (n_target nd) blk"
    using valid target
    by (auto simp: block_valid_def block_sound_def work_ok_def verify_pow_def pow_new_def word_gt_0)
  define nd1 where "nd1 = nd\<lparr>n_storage := st,
      n_log := log_record (n_log nd) (block_height blk) (n_target nd)\<rparr>"
  define nd2 where "nd2 = nd1\<lparr>n_reads := Suc (n_reads nd1)\<rparr>"
  have n1: "n_dag nd1 = n_dag nd" "n_reads nd1 = n_reads nd" by (simp_all add: nd1_def)
  have valid1: "block_valid env (n_dag nd1) blk" using valid n1 by simp
  from position_valid [OF this] drift n1
  have pos: "position_check env blk (Some (Max (parent_heights (n_dag nd1) blk)))
      (Some (Max (parent_times (n_dag nd1) blk))) nd1 = (Inr True, nd2)"
    by (simp add: nd2_def)
  define again where "again = (validate_and_ingest env (max_size (n_orphans nd)) ::
      velo_block \<Rightarrow> 'p option \<Rightarrow> 'p node \<Rightarrow> 'p outcome)"
  have "validate env blk source nd =
      (case scan_parents (n_dag nd1) (block_parents blk) of
         Inl missing \<Rightarrow>
           (Inr (), nd1\<lparr>n_orphans := orphan_insert (n_orphans nd1) missing source blk\<rparr>)
       | Inr (mh, mt) \<Rightarrow>
           (case position_check env blk mh mt nd1 of
              (Inl e, nd) \<Rightarrow> (Inl e, nd)
            | (Inr False, nd) \<Rightarrow> (Inr (), record_violation_and_maybe_ban env source nd)
            | (Inr True, nd) \<Rightarrow> accept_block env again blk source nd))"
    unfolding nd1_def again_def
    using h ok by (simp add: validate_def ingest_fuel_def ld(1) Let_def)
  then have "validate env blk source nd = accept_block env again blk source nd2"
    using scan_valid [OF valid1] pos by simp
  then show thesis
    by (rule that [unfolded again_def [symmetric]]) (simp_all add: nd2_def nd1_def ld(2))
qed

lemma validate_accepts:
  fixes nd :: "'p node"
  assumes rel: "reliable env" and win: "0 < window_size (difficulty_mgr env)"
    and ser: "ser_ledger (bin env) l = Some bytes"
    and inv: "node_inv env g nd" and size: "Suc (dag_size nd) < 2 ^ 32"
    and new: "hm_get (block_store (n_dag nd)) (calculate_hash (sha3 env) blk) = None"
    and valid: "block_valid env (n_dag nd) blk" and target: "difficulty_target (header blk) = n_target nd"
    and drift: "timestamp (header blk) \<le>
      saturating_add (wall_clock env (n_reads nd)) MAX_FUTURE_DRIFT_SECS"
    and ledger: "apply_block (sha3 env) (n_ledger nd) blk = (Inr u, l)"
    and call: "validate env blk source nd = (r, nd')"
  shows "hm_get (block_store (n_dag nd')) (calculate_hash (sha3 env) blk) = Some blk"
proof -
  let ?h = "calculate_hash (sha3 env) blk" and ?f = "sled_fault env" and ?b = "bin env"
  define again where "again = (validate_and_ingest env (max_size (n_orphans nd)) ::
      velo_block \<Rightarrow> 'p option \<Rightarrow> 'p node \<Rightarrow> 'p outcome)"
  have db: "reliable_db ?f" using rel by (simp add: reliable_def)
  from validate_passes [OF db inv new valid target drift, of source] call obtain nd2 where
    acc: "accept_block env again blk source nd2 = (r, nd')" and n2: "n_dag nd2 = n_dag nd"
    "n_ledger nd2 = n_ledger nd" "blocks_tree (n_storage nd2) = blocks_tree (n_storage nd)"
    unfolding again_def by metis
  obtain st' where sv: "save_ledger_state ?f ?b l (n_storage nd2) = (Inr (), st')"
    "blocks_tree st' = blocks_tree (n_storage nd2)"
    using save_ledger_reliable [OF _ ser] rel unfolding reliable_def by metis
  define nd3 where "nd3 = nd2\<lparr>n_ledger := l, n_storage := st'\<rparr>"
  obtain h' nd4 where ing: "ingest_block_only env blk nd3 = (h', nd4)" by fastforce
  obtain rs nd5 where se: "settle env h' nd4 = (rs, nd5)" by fastforce
  obtain ready pool where tr: "take_ready (n_orphans nd5) h' = (ready, pool)" by fastforce
  have body: "(case rs of
      Inl e \<Rightarrow> (Inl e, nd5)
    | Inr _ \<Rightarrow> replay_orphans again ready (nd5\<lparr>n_orphans := pool\<rparr>)) = (r, nd')"
    using acc ledger sv(1) ing se tr n2(2)
    by (cases rs) (auto simp: accept_block_def nd3_def)
  note fr = ingest_frame [OF ing]
  have n3: "n_dag nd3 = n_dag nd" "blocks_tree (n_storage nd3) = blocks_tree (n_storage nd)"
    using sv(2) n2 by (simp_all add: nd3_def)
  obtain bytes' where "blocks_tree (snd (save_block ?f ?b h' blk (n_storage nd3))) =
      (blocks_tree (n_storage nd3))(h' \<mapsto> bytes')"
    using save_block_reliable [of ?f ?b blk h' "n_storage nd3"] rel by (auto simp: reliable_def)
  then have "holds_block ?h blk nd4" using fr(1,2,7) by (simp add: holds_block_def)
  then have h5: "holds_block ?h blk nd5"
    by (rule block_stays.stored_only [OF settle_store [OF se]])
  then have h5': "holds_block ?h blk (nd5\<lparr>n_orphans := pool\<rparr>)"
    by (rule block_stays.stored_only [rotated]) (simp add: same_store_def)
  have "holds_block ?h blk nd'"
  proof (cases rs)
    case (Inl e)
    then show ?thesis using body h5 by simp
  next
    case (Inr v)
    then have "replay_orphans again ready (nd5\<lparr>n_orphans := pool\<rparr>) = (r, nd')" using body by simp
    then show ?thesis
      using block_stays.replay_keeps [OF _ _ h5'] block_stays.validate_keeps unfolding again_def by blast
  qed
  then show ?thesis by (simp add: holds_block_def)
qed

end
