(* ===== verification/Codec.thy ===== *)
theory Codec
  imports Storage
begin

text \<open>
  A concrete encoding of blocks and ledgers with its decoder, on which the witnesses of the node
  theorems run: fixed-width fields one after the other, and lists with a continuation byte before
  each element.  It shows that what the node relies on from \<^verbatim>\<open>bincode\<close>, \<^const>\<open>block_codec_ok\<close>, can
  be had; the theorems do not depend on it.
\<close>

section \<open>The contract of an encoding\<close>

type_synonym 'a parser = "u8 list \<Rightarrow> ('a \<times> u8 list) option"

text \<open>Decoding what was encoded consumes exactly that, whatever follows.\<close>

locale prefix_codec =
  fixes enc :: "'a \<Rightarrow> u8 list" and dec :: "'a parser"
  assumes dec_enc: "dec (enc x @ rest) = Some (x, rest)"
begin

lemma dec_all: "dec (enc x) = Some (x, [])"
  using dec_enc [of x "[]"] by simp

end

section \<open>Fields\<close>

definition dec_fixed :: "nat \<Rightarrow> (u8 list \<Rightarrow> 'a) \<Rightarrow> 'a parser" where
  "dec_fixed n f bs = (if length bs < n then None else Some (f (take n bs), drop n bs))"

lemma codec_fixed:
  assumes "\<And>x. length (enc x) = n" and "\<And>x. f (enc x) = x"
  shows "prefix_codec enc (dec_fixed n f)"
  by unfold_locales (simp add: dec_fixed_def assms)

definition dec_byte :: "u8 parser" where
  "dec_byte bs = (case bs of [] \<Rightarrow> None | b # rest \<Rightarrow> Some (b, rest))"

definition dec_u64 :: "u64 parser" where
  "dec_u64 = dec_fixed 8 (\<lambda>bs. from_be_bytes (rev bs))"

definition dec_bytes32 :: "bytes32 parser" where
  "dec_bytes32 = dec_fixed 32 Bytes32"

interpretation byte: prefix_codec "\<lambda>b. [b]" dec_byte
  by unfold_locales (simp add: dec_byte_def)

interpretation word64: prefix_codec u64_le dec_u64
  unfolding dec_u64_def
  by (rule codec_fixed) (simp_all flip: be_bytes_def)

interpretation hash32: prefix_codec bytes_of dec_bytes32
  unfolding dec_bytes32_def
  by (rule codec_fixed) (simp_all add: bytes_of_inverse)

section \<open>Lists\<close>

definition enc_list :: "('a \<Rightarrow> u8 list) \<Rightarrow> 'a list \<Rightarrow> u8 list" where
  "enc_list enc xs = concat (map (\<lambda>x. 1 # enc x) xs) @ [0]"

primrec dec_elems :: "'a parser \<Rightarrow> nat \<Rightarrow> 'a list parser" where
  "dec_elems dec 0 bs = None"
| "dec_elems dec (Suc n) bs =
     (case bs of
        [] \<Rightarrow> None
      | b # rest \<Rightarrow>
          if b = 0 then Some ([], rest)
          else
            (case dec rest of
               None \<Rightarrow> None
             | Some (x, rest) \<Rightarrow>
                 (case dec_elems dec n rest of
                    None \<Rightarrow> None
                  | Some (xs, rest) \<Rightarrow> Some (x # xs, rest))))"

definition dec_list :: "'a parser \<Rightarrow> 'a list parser" where
  "dec_list dec bs = dec_elems dec (length bs) bs"

context prefix_codec
begin

lemma dec_elems_enc: "length xs < n \<Longrightarrow> dec_elems dec n (enc_list enc xs @ rest) = Some (xs, rest)"
proof (induction xs arbitrary: n)
  case Nil
  then show ?case by (cases n) (simp_all add: enc_list_def)
next
  case (Cons x xs)
  then obtain n' where n: "n = Suc n'" "length xs < n'" by (cases n) auto
  have "enc_list enc (x # xs) @ rest = 1 # enc x @ enc_list enc xs @ rest"
    by (simp add: enc_list_def)
  then show ?case using Cons.IH [OF n(2)] by (simp add: n(1) dec_enc)
qed

lemma codec_list: "prefix_codec (enc_list enc) (dec_list dec)"
proof
  fix xs rest
  have "length xs \<le> length (concat (map (\<lambda>x. 1 # enc x) xs))" by (induction xs) auto
  then have "length xs < length (enc_list enc xs @ rest)" by (simp add: enc_list_def)
  then show "dec_list dec (enc_list enc xs @ rest) = Some (xs, rest)"
    by (simp add: dec_list_def dec_elems_enc)
qed

end

section \<open>Records\<close>

definition enc_pair :: "('a \<Rightarrow> u8 list) \<Rightarrow> ('b \<Rightarrow> u8 list) \<Rightarrow> 'a \<times> 'b \<Rightarrow> u8 list" where
  "enc_pair e1 e2 p = e1 (fst p) @ e2 (snd p)"

definition dec_pair :: "'a parser \<Rightarrow> 'b parser \<Rightarrow> ('a \<times> 'b) parser" where
  "dec_pair d1 d2 bs =
     (case d1 bs of
        None \<Rightarrow> None
      | Some (x, rest) \<Rightarrow> map_option (\<lambda>(y, rest). ((x, y), rest)) (d2 rest))"

definition dec_as :: "('a \<Rightarrow> 'b) \<Rightarrow> 'a parser \<Rightarrow> 'b parser" where
  "dec_as f d bs = map_option (\<lambda>(x, rest). (f x, rest)) (d bs)"

lemma codec_pair: "prefix_codec e1 d1 \<Longrightarrow> prefix_codec e2 d2 \<Longrightarrow> prefix_codec (enc_pair e1 e2) (dec_pair d1 d2)"
  by (simp add: prefix_codec_def enc_pair_def dec_pair_def)

lemma codec_as: "prefix_codec e d \<Longrightarrow> (\<And>x. g (f x) = x) \<Longrightarrow> prefix_codec (\<lambda>x. e (f x)) (dec_as g d)"
  by (simp add: prefix_codec_def dec_as_def)

definition tx_fields :: "transaction \<Rightarrow> address \<times> address \<times> u64 \<times> u64 \<times> u8 list \<times> u8 list" where
  "tx_fields tx =
     (sender tx, recipient tx, amount tx, tx_nonce tx, public_key tx, signature tx)"

fun tx_of :: "address \<times> address \<times> u64 \<times> u64 \<times> u8 list \<times> u8 list \<Rightarrow> transaction" where
  "tx_of (s, r, a, n, pk, sg) =
     \<lparr>sender = s, recipient = r, amount = a, tx_nonce = n, public_key = pk, signature = sg\<rparr>"

definition enc_tx :: "transaction \<Rightarrow> u8 list" where
  "enc_tx tx =
     enc_pair bytes_of (enc_pair bytes_of (enc_pair u64_le (enc_pair u64_le
       (enc_pair (enc_list (\<lambda>b. [b])) (enc_list (\<lambda>b. [b])))))) (tx_fields tx)"

definition dec_tx :: "transaction parser" where
  "dec_tx =
     dec_as tx_of (dec_pair dec_bytes32 (dec_pair dec_bytes32 (dec_pair dec_u64 (dec_pair dec_u64
       (dec_pair (dec_list dec_byte) (dec_list dec_byte))))))"

interpretation tx: prefix_codec enc_tx dec_tx
proof -
  have "prefix_codec (\<lambda>tx. enc_pair bytes_of (enc_pair bytes_of (enc_pair u64_le (enc_pair u64_le
      (enc_pair (enc_list (\<lambda>b. [b])) (enc_list (\<lambda>b. [b])))))) (tx_fields tx)) dec_tx"
    unfolding dec_tx_def
    by (intro codec_as codec_pair hash32.prefix_codec_axioms word64.prefix_codec_axioms byte.codec_list)
      (simp add: tx_fields_def)
  then show "prefix_codec enc_tx dec_tx" by (simp add: enc_tx_def [abs_def])
qed

type_synonym header_fields = "u64 \<times> bytes32 list \<times> bytes32 \<times> u64 \<times> u64 \<times> bytes32"

definition header_fields :: "block_header \<Rightarrow> header_fields" where
  "header_fields hr =
     (timestamp hr, parents hr, tx_merkle_root hr, nonce hr, height hr, difficulty_target hr)"

fun header_of :: "header_fields \<Rightarrow> block_header" where
  "header_of (ts, ps, root, n, h, t) =
     \<lparr>timestamp = ts, parents = ps, tx_merkle_root = root, nonce = n, height = h,
      difficulty_target = t\<rparr>"

definition enc_header :: "block_header \<Rightarrow> u8 list" where
  "enc_header hr =
     enc_pair u64_le (enc_pair (enc_list bytes_of) (enc_pair bytes_of (enc_pair u64_le
       (enc_pair u64_le bytes_of)))) (header_fields hr)"

definition dec_header :: "block_header parser" where
  "dec_header =
     dec_as header_of (dec_pair dec_u64 (dec_pair (dec_list dec_bytes32) (dec_pair dec_bytes32
       (dec_pair dec_u64 (dec_pair dec_u64 dec_bytes32)))))"

interpretation header: prefix_codec enc_header dec_header
proof -
  have "prefix_codec (\<lambda>hr. enc_pair u64_le (enc_pair (enc_list bytes_of) (enc_pair bytes_of
      (enc_pair u64_le (enc_pair u64_le bytes_of)))) (header_fields hr)) dec_header"
    unfolding dec_header_def
    by (intro codec_as codec_pair hash32.prefix_codec_axioms word64.prefix_codec_axioms hash32.codec_list)
      (simp add: header_fields_def)
  then show "prefix_codec enc_header dec_header" by (simp add: enc_header_def [abs_def])
qed

type_synonym block_fields =
  "block_header \<times> transaction list \<times> address \<times> u64 \<times> address \<times> u64"

definition block_fields :: "velo_block \<Rightarrow> block_fields" where
  "block_fields b =
     (header b, transactions b, coinbase_miner_address b, coinbase_miner_output b,
      coinbase_dev_address b, coinbase_dev_output b)"

fun velo_block_of :: "block_fields \<Rightarrow> velo_block" where
  "velo_block_of (hr, txs, ma, mo, da, do') =
     \<lparr>header = hr, transactions = txs, coinbase_miner_address = ma, coinbase_miner_output = mo,
      coinbase_dev_address = da, coinbase_dev_output = do'\<rparr>"

definition enc_block :: "velo_block \<Rightarrow> u8 list" where
  "enc_block b =
     enc_pair enc_header (enc_pair (enc_list enc_tx) (enc_pair bytes_of (enc_pair u64_le
       (enc_pair bytes_of u64_le)))) (block_fields b)"

definition dec_block :: "velo_block parser" where
  "dec_block =
     dec_as velo_block_of (dec_pair dec_header (dec_pair (dec_list dec_tx) (dec_pair dec_bytes32
       (dec_pair dec_u64 (dec_pair dec_bytes32 dec_u64)))))"

interpretation block: prefix_codec enc_block dec_block
proof -
  have "prefix_codec (\<lambda>b. enc_pair enc_header (enc_pair (enc_list enc_tx) (enc_pair bytes_of
      (enc_pair u64_le (enc_pair bytes_of u64_le)))) (block_fields b)) dec_block"
    unfolding dec_block_def
    by (intro codec_as codec_pair header.prefix_codec_axioms tx.codec_list hash32.prefix_codec_axioms
        word64.prefix_codec_axioms) (simp add: block_fields_def)
  then show "prefix_codec enc_block dec_block" by (simp add: enc_block_def [abs_def])
qed

section \<open>Maps and sets\<close>

text \<open>A map is written as its entries in the order of the keys; the keys are finitely many values.\<close>

definition sorted_keys :: "bytes32 set \<Rightarrow> bytes32 list" where
  "sorted_keys ks = sorted_list_of_set ks"

lemma set_sorted_keys [simp]: "set (sorted_keys ks) = ks"
  by (simp add: sorted_keys_def)

definition map_entries :: "(bytes32 \<rightharpoonup> u64) \<Rightarrow> (bytes32 \<times> u64) list" where
  "map_entries m = map (\<lambda>k. (k, the (m k))) (sorted_keys (dom m))"

lemma map_of_entries [simp]: "map_of (map_entries m) = m"
proof
  fix k
  show "map_of (map_entries m) k = m k"
    by (cases "m k") (auto simp: map_entries_def map_of_map_restrict restrict_map_def dom_def)
qed

type_synonym ledger_fields = "(bytes32 \<times> u64) list \<times> (bytes32 \<times> u64) list \<times> bytes32 list"

definition ledger_fields :: "ledger_state \<Rightarrow> ledger_fields" where
  "ledger_fields l =
     (map_entries (balances l), map_entries (next_nonces l), sorted_keys (confirmed_transactions l))"

fun ledger_of :: "ledger_fields \<Rightarrow> ledger_state" where
  "ledger_of (bs, ns, cs) =
     \<lparr>balances = map_of bs, next_nonces = map_of ns, confirmed_transactions = set cs\<rparr>"

definition enc_ledger :: "ledger_state \<Rightarrow> u8 list" where
  "enc_ledger l =
     enc_pair (enc_list (enc_pair bytes_of u64_le)) (enc_pair (enc_list (enc_pair bytes_of u64_le))
       (enc_list bytes_of)) (ledger_fields l)"

definition dec_ledger :: "ledger_state parser" where
  "dec_ledger =
     dec_as ledger_of (dec_pair (dec_list (dec_pair dec_bytes32 dec_u64))
       (dec_pair (dec_list (dec_pair dec_bytes32 dec_u64)) (dec_list dec_bytes32)))"

interpretation entry_code: prefix_codec "enc_pair bytes_of u64_le" "dec_pair dec_bytes32 dec_u64"
  by (rule codec_pair [OF hash32.prefix_codec_axioms word64.prefix_codec_axioms])

interpretation ledger_code: prefix_codec enc_ledger dec_ledger
proof -
  have "prefix_codec (\<lambda>l. enc_pair (enc_list (enc_pair bytes_of u64_le))
      (enc_pair (enc_list (enc_pair bytes_of u64_le)) (enc_list bytes_of)) (ledger_fields l)) dec_ledger"
    unfolding dec_ledger_def
    by (intro codec_as codec_pair entry_code.codec_list hash32.codec_list) (simp add: ledger_fields_def)
  then show "prefix_codec enc_ledger dec_ledger" by (simp add: enc_ledger_def [abs_def])
qed

text \<open>The codec of the examples: the colours of a block are written, and never read back.\<close>

definition plain_bincode :: bincode where
  "plain_bincode =
     \<lparr>ser_block = (\<lambda>b. Some (enc_block b)), de_block = (\<lambda>bs. map_option fst (dec_block bs)),
      ser_data = (\<lambda>d. Some []), de_data = (\<lambda>bs. None),
      ser_ledger = (\<lambda>l. Some (enc_ledger l)), de_ledger = (\<lambda>bs. map_option fst (dec_ledger bs))\<rparr>"

lemma plain_bincode_ok: "block_codec_ok plain_bincode"
  using block.dec_all by (simp add: block_codec_ok_def plain_bincode_def)

lemma plain_ledger_ok:
  "\<exists>bytes. ser_ledger plain_bincode l = Some bytes \<and> de_ledger plain_bincode bytes = Some l"
  using ledger_code.dec_all by (simp add: plain_bincode_def)

end
