(* ===== verification/Node_Examples.thy ===== *)
theory Node_Examples
  imports Node_Runs Node_Acceptance Codec
begin

text \<open>
  A concrete environment and a short chain, on which the witnesses of the node theorems run:
  a database that works, the codec of \<open>Codec\<close>, clocks that stand still, the node's own
  difficulty parameters, and a digest that returns the height of a block 32 times.
\<close>

section \<open>The environment\<close>

definition height_digest :: digest where
  "height_digest bs = fill (if 8 < length bs then bs ! 8 else 0)"

lemma height_digest_block: "calculate_hash height_digest b = fill (ucast (block_height b))"
proof -
  have "block_preimage b = u64_le (timestamp (header b)) @ u64_le (block_height b) @
      concat (map bytes_of (block_parents b)) @ bytes_of (tx_merkle_root (header b)) @
      u64_le (nonce (header b)) @ bytes_of (difficulty_target (header b)) @
      bytes_of (coinbase_miner_address b) @ bytes_of (coinbase_dev_address b)"
    by (simp add: block_preimage_def)
  then have "block_preimage b ! 8 = u64_le (block_height b) ! 0" by (simp add: nth_append)
  then show ?thesis
    using block_preimage_length [of b] by (simp add: calculate_hash_def height_digest_def le_bytes_nth)
qed

definition plain_dilithium :: "(u8 list, u8 list) dilithium" where
  "plain_dilithium =
     \<lparr>pk_from_bytes = Some, pk_as_bytes = (\<lambda>pk. pk), sig_from_bytes = Some,
      verify_detached = (\<lambda>sg m pk. sg = m)\<rparr>"

definition ex_env :: "(u8 list, u8 list) environment" where
  "ex_env =
     \<lparr>sha3 = height_digest, dili = plain_dilithium, bin = plain_bincode, sled_fault = (\<lambda>n. False),
      wall_clock = (\<lambda>n. 1700000000), mono_clock = (\<lambda>n. 0), difficulty_mgr = difficulty_new 1 4\<rparr>"

lemma ex_env_sels [simp]:
  "sha3 ex_env = height_digest" "dili ex_env = plain_dilithium" "bin ex_env = plain_bincode"
  "sled_fault ex_env = (\<lambda>n. False)" "wall_clock ex_env n = 1700000000"
  "mono_clock ex_env n = 0" "difficulty_mgr ex_env = difficulty_new 1 4"
  by (simp_all add: ex_env_def)

lemma ex_env_reliable: "reliable ex_env"
  using plain_bincode_ok by (simp add: reliable_def reliable_db_def)

lemma ex_env_window: "0 < window_size (difficulty_mgr ex_env)"
  by (simp add: difficulty_new_def)

section \<open>A node on an empty database\<close>

abbreviation ex_genesis :: velo_block where
  "ex_genesis \<equiv> fixed_genesis_block_for_network DEVNET_NETWORK_ID"

lemma ex_genesis_hash: "fixed_genesis_hash_for_network height_digest i = fill 0"
  by (simp add: fixed_genesis_hash_for_network_def height_digest_block)

lemma ex_genesis_time: "timestamp (header ex_genesis) = 1700000000"
  by (simp add: fixed_genesis_block_for_network_def genesis_timestamp_for_network_def network_consts)

definition ex_node :: "nat node" where
  "ex_node =
     (case start_node ex_env DEVNET_NETWORK_ID storage_empty of Inr nd \<Rightarrow> nd | Inl e \<Rightarrow> base_node storage_empty)"

lemma ex_node_start: "start_node ex_env DEVNET_NETWORK_ID storage_empty = Inr ex_node"
proof -
  have "\<exists>nd :: nat node. start_node ex_env DEVNET_NETWORK_ID storage_empty = Inr nd"
    by (simp add: start_node_def start_fresh_def Let_def load_ledger_state_def load_block_def
        read_entry_def db_op_def storage_empty_def ex_genesis_hash base_node_def genesis_applies
        unwrapped_def save_block_def save_ghostdag_data_def save_ledger_state_def write_entry_def
        plain_bincode_def)
  then show ?thesis by (auto simp: ex_node_def)
qed

text \<open>Requests whose parameters are already parsed, with bytes written as characters.\<close>

definition ex_codec :: "submit_transaction_params rpc_codec" where
  "ex_codec =
     \<lparr>unhex = (\<lambda>text. Some (map of_char text)), submit_params = Some,
      address_param = (\<lambda>j. None), tx_id_param = (\<lambda>j. None)\<rparr>"

lemma ex_node_run:
  "node_run ex_env ex_codec None DEVNET_NETWORK_ID (fill 3) mining None [] ex_node mempool_new"
  by (rule node_run.start [OF _ ex_node_start]) (simp add: storage_empty_def)

lemma ex_node_shape:
  "n_dag ex_node = dag_insert (ghostdag_new 3) (fill 0) ex_genesis" "n_history ex_node = [ex_genesis]"
  "n_target ex_node = fill 15" "n_ledger ex_node = ledger_default"
  "n_orphans ex_node = orphan_pool_new ORPHAN_POOL_MAX" "n_guard ex_node = peer_guard_new"
proof -
  have empty: "blocks_tree storage_empty = Map.empty" by (simp add: storage_empty_def)
  obtain st1 and nd0 :: "nat node" where
    s: "start_fresh ex_env DEVNET_NETWORK_ID (base_node st1) = Inr nd0" "ex_node = nd0\<lparr>n_target := fill 15\<rparr>"
    by (rule start_node_fresh [OF empty ex_node_start ex_env_reliable])
  note shape = start_fresh_shape [OF s(1)]
  show "n_dag ex_node = dag_insert (ghostdag_new 3) (fill 0) ex_genesis"
    "n_history ex_node = [ex_genesis]" "n_target ex_node = fill 15" "n_ledger ex_node = ledger_default"
    "n_orphans ex_node = orphan_pool_new ORPHAN_POOL_MAX" "n_guard ex_node = peer_guard_new"
    using shape by (simp_all add: s(2) ex_genesis_hash)
qed

lemma ex_node_idle: "\<not> n_sync_pending ex_node"
proof -
  have empty: "blocks_tree storage_empty = Map.empty" by (simp add: storage_empty_def)
  obtain st1 and nd0 :: "nat node" where
    s: "start_fresh ex_env DEVNET_NETWORK_ID (base_node st1) = Inr nd0" "ex_node = nd0\<lparr>n_target := fill 15\<rparr>"
    by (rule start_node_fresh [OF empty ex_node_start ex_env_reliable])
  have "n_sync_pending nd0 = False" using s(1)
    by (auto simp: start_fresh_def Let_def base_node_def unwrapped_def split: sum.splits prod.splits)
  then show ?thesis by (subst s(2)) simp
qed

lemma ex_node_get:
  "hm_get (block_store (n_dag ex_node)) h = (if h = fill 0 then Some ex_genesis else None)"
  by (simp add: ex_node_shape ghostdag_new_def)

lemma ex_node_size: "dag_size ex_node = 1"
  by (simp add: dag_size_def ex_node_shape dag_insert_def ghostdag_new_def)

lemma ex_node_inv: "node_inv ex_env (fill 0) ex_node"
  using node_run_inv [OF ex_node_run ex_env_reliable]
  by (simp add: guarded_def node_sound_def ex_env_reliable ex_genesis_hash ex_node_size)

lemma ex_node_pool: "buffered (n_orphans ex_node) = 0"
  by (simp add: ex_node_shape orphan_pool_new_def buffered_def)

section \<open>The next block\<close>

definition block_one :: velo_block where
  "block_one =
     \<lparr>header = \<lparr>timestamp = 1700000000, parents = [fill 0], tx_merkle_root = fill 0, nonce = 0,
                height = 1, difficulty_target = fill 15\<rparr>,
      transactions = [], coinbase_miner_address = fill 3,
      coinbase_miner_output = fst (calculate_subsidy_split 1),
      coinbase_dev_address = DEV_TREASURY_ADDRESS,
      coinbase_dev_output = snd (calculate_subsidy_split 1)\<rparr>"

lemma block_one_sels [simp]:
  "header block_one = \<lparr>timestamp = 1700000000, parents = [fill 0], tx_merkle_root = fill 0, nonce = 0,
     height = 1, difficulty_target = fill 15\<rparr>"
  "transactions block_one = []"
  "coinbase_dev_address block_one = DEV_TREASURY_ADDRESS"
  by (simp_all add: block_one_def)

lemma block_one_content: "content_ok ex_env block_one"
  by (simp add: content_ok_def verify_coinbase_rewards_def verify_transaction_merkle_root_def
      transaction_merkle_root_def split_beta) (simp add: block_one_def)

lemma block_one_valid: "block_valid ex_env (n_dag ex_node) block_one"
  using block_one_content
  by (simp add: block_valid_def block_sound_def height_digest_block parent_heights_def parent_times_def
      stored_block_def ex_node_get ex_genesis_time domIff)

text \<open>A block that claims too much: its coinbase check fails.\<close>

definition greedy_block :: velo_block where
  "greedy_block = block_one\<lparr>coinbase_miner_output := 100000\<rparr>"

lemma greedy_block_content: "\<not> content_ok ex_env greedy_block"
proof
  assume "content_ok ex_env greedy_block"
  then have v: "verify_coinbase_rewards greedy_block" by (simp add: content_ok_def)
  from coinbase_total [OF v] show False
    by (simp add: greedy_block_def subsidy_total_eq emission_at_def)
qed

section \<open>The next node\<close>

text \<open>The first node receives \<open>block_one\<close> by gossip from peer 7.\<close>

lemma ex_ledger_bytes: "ser_ledger (bin ex_env) l = Some (enc_ledger l)"
  by (simp add: plain_bincode_def)

lemma block_one_applies:
  obtains l where "apply_block height_digest ledger_default block_one = (Inr (), l)"
proof -
  have cb: "verify_coinbase_rewards block_one" using block_one_content by (simp add: content_ok_def)
  have "map_total (s_balances (scratch_of ledger_default)) + 83238 < 2 ^ 64"
    by (simp add: ledger_default_def)
  from coinbase_fits [OF cb this, of "coinbase_miner_address block_one" "coinbase_dev_address block_one"]
  show thesis using cb that by (auto simp: apply_block_def)
qed

lemma ex_accepts:
  assumes "validate ex_env block_one source ex_node = (r, nd')"
  shows "hm_get (block_store (n_dag nd')) (fill 1) = Some block_one"
proof -
  obtain l where l: "apply_block (sha3 ex_env) (n_ledger ex_node) block_one = (Inr (), l)"
    using block_one_applies by (auto simp: ex_node_shape)
  have "hm_get (block_store (n_dag nd')) (calculate_hash (sha3 ex_env) block_one) = Some block_one"
  proof (rule validate_accepts [OF ex_env_reliable ex_env_window ex_ledger_bytes ex_node_inv _ _
        block_one_valid _ _ l assms])
    show "timestamp (header block_one) \<le>
        saturating_add (wall_clock ex_env (n_reads ex_node)) MAX_FUTURE_DRIFT_SECS"
      by (simp add: saturating_add_def MAX_FUTURE_DRIFT_SECS_def)
  qed (simp_all add: ex_node_size height_digest_block ex_node_get ex_node_shape(3))
  then show ?thesis by (simp add: height_digest_block)
qed

definition block_one_message :: gossip_message where
  "block_one_message = \<lparr>gm_topic = GOSSIP_TOPIC, gm_data = enc_block block_one\<rparr>"

definition ex_next :: "nat node" where
  "ex_next = snd (validate ex_env block_one (Some 7) ex_node)"

lemma block_one_message_size: "length (gm_data block_one_message) \<le> MAX_GOSSIP_MESSAGE_BYTES"
  by (simp add: block_one_message_def MAX_GOSSIP_MESSAGE_BYTES_def enc_block_def enc_pair_def
      block_fields_def enc_header_def header_fields_def enc_list_def)

lemma ex_next_event:
  obtains r where "handle_p2p_events ex_env (fill 0) DEVNET_NETWORK_ID
      (Gossip_Message 7 block_one_message) ex_node = (r, ex_next)"
proof -
  obtain r nd' where v: "validate ex_env block_one (Some 7) ex_node = (r, nd')" by fastforce
  have de: "de_block (bin ex_env) (gm_data block_one_message) = Some block_one"
    using block.dec_all [of block_one] by (simp add: block_one_message_def plain_bincode_def)
  have topic: "gm_topic block_one_message = GOSSIP_TOPIC" by (simp add: block_one_message_def)
  show thesis
    using v block_one_message_size de topic
    by (intro that [of r]) (simp add: handle_p2p_events_def handle_gossip_block_def ex_next_def)
qed

lemma ex_next_run:
  "node_run ex_env ex_codec None DEVNET_NETWORK_ID (fill 3) mining None [] ex_next mempool_new"
proof -
  obtain r where "handle_p2p_events ex_env (fill 0) DEVNET_NETWORK_ID
      (Gossip_Message 7 block_one_message) ex_node = (r, ex_next)" by (rule ex_next_event)
  then show ?thesis
    by (intro node_run.event [OF ex_node_run]) (simp add: ex_genesis_hash)
qed

lemma ex_next_get: "hm_get (block_store (n_dag ex_next)) (fill 1) = Some block_one"
  using ex_accepts [of "Some 7"] by (simp add: ex_next_def prod_eq_iff)

lemma ex_next_genesis: "hm_get (block_store (n_dag ex_next)) (fill 0) = Some ex_genesis"
proof -
  have "rel_option (\<lambda>bytes b. de_block (bin ex_env) bytes = Some b)
      (blocks_tree (n_storage ex_node) (fill 0)) (hm_get (block_store (n_dag ex_node)) (fill 0))"
    using ex_node_inv unfolding node_inv_def by blast
  then have "holds_block (fill 0) ex_genesis ex_node"
    by (auto simp: holds_block_def ex_node_get option_rel_Some2)
  moreover obtain r where "validate ex_env block_one (Some 7) ex_node = (r, ex_next)"
    by (simp add: ex_next_def prod_eq_iff)
  ultimately have "holds_block (fill 0) ex_genesis ex_next"
    unfolding validate_def by (rule block_stays.validate_keeps [rotated])
  then show ?thesis by (simp add: holds_block_def)
qed

lemma ex_next_size: "dag_size ex_next \<le> 2"
proof -
  obtain r where v: "validate ex_env block_one (Some 7) ex_node = (r, ex_next)"
    by (simp add: ex_next_def prod_eq_iff)
  have "orphan_pool_inv (n_orphans ex_node)" by (simp add: ex_node_shape orphan_pool_inv_new)
  from bounded_stepD(4) [OF validate_bounded v [unfolded validate_def] this]
  show ?thesis by (simp add: load_def ex_node_size ex_node_pool)
qed

end
