(* ===== verification/Node_Supply.thy ===== *)
theory Node_Supply
  imports Node_Runs
begin

text \<open>
  Where the coins of a node come from.  The ledger in memory, and the snapshot on disk that a start
  may fall back to, hold at most what the stored blocks issue: the invariant of the books through
  validation, mining and restarts.
\<close>

section \<open>What the stored blocks issue\<close>

definition issued :: "ghostdag_manager \<Rightarrow> nat" where
  "issued m = (\<Sum>h \<in> dom (hm_get (block_store m)). block_issue (stored_block m h))"

lemma finite_store: "finite (dom (hm_get (block_store m)))"
  by (simp add: hm_get_def finite_dom_map_of)

lemma issued_le: "issued m \<le> 83238 * card (dom (hm_get (block_store m)))"
proof -
  have "block_issue (stored_block m h) \<le> 83238" for h
    using subsidy_total_le by (simp add: block_issue_def)
  then show ?thesis
    using sum_bounded_above [of "dom (hm_get (block_store m))" "\<lambda>h. block_issue (stored_block m h)" 83238]
    by (simp add: issued_def mult.commute)
qed

lemma store_size_le: "83238 * card (dom (hm_get (block_store m))) \<le> 83238 * length (block_store m)"
proof -
  have "dom (hm_get (block_store m)) = fst ` set (block_store m)"
    by (auto simp: hm_get_def dom_map_of_conv_image_fst [symmetric])
  then show ?thesis
    using card_image_le [of "set (block_store m)" fst] card_length [of "block_store m"] by simp
qed

lemma issued_insert:
  assumes "hm_get (block_store m) h = None"
  shows "issued (dag_insert m h b) = issued m + block_issue b"
proof -
  have new: "h \<notin> dom (hm_get (block_store m))" using assms by auto
  have get: "hm_get (block_store (dag_insert m h b)) = (hm_get (block_store m))(h \<mapsto> b)" by auto
  then have b: "stored_block (dag_insert m h b) h = b"
    and old: "x \<in> dom (hm_get (block_store m)) \<Longrightarrow> stored_block (dag_insert m h b) x = stored_block m x" for x
    using new by (auto simp: stored_block_def)
  have "issued (dag_insert m h b) =
      block_issue b + (\<Sum>x \<in> dom (hm_get (block_store m)). block_issue (stored_block (dag_insert m h b) x))"
    using new finite_store [of m] by (simp add: issued_def get b)
  also have "(\<Sum>x \<in> dom (hm_get (block_store m)). block_issue (stored_block (dag_insert m h b) x)) = issued m"
    using old by (simp add: issued_def)
  finally show ?thesis by simp
qed

lemma issued_get: "hm_get (block_store m) = hm_get (block_store m') \<Longrightarrow> issued m = issued m'"
  by (simp add: issued_def stored_block_def)

lemma replay_backed:
  assumes inv: "dag_inv m" and t: "t \<in> dom (hm_get (block_store m))"
    and rec: "recompute_ledger sha m t = Some (Inr l)"
  shows "ledger_supply l \<le> issued m"
proof -
  obtain d where d: "ghostdag_cache m t = Some d" using dag_inv_simps(4) [OF inv] t by blast
  have "\<forall>x. set (parents_of m x) \<subseteq> dom (hm_get (block_store m))" using dag_inv_simps(3) [OF inv] by blast
  from past_in_store [OF this] t have sub: "insert t (get_past_set m t) \<subseteq> dom (hm_get (block_store m))"
    by blast
  have "ledger_supply l \<le> (\<Sum>h \<in> insert t (get_past_set m t). block_issue (stored_block m h))"
    using replay_supply [OF inv d rec] by linarith
  also have "\<dots> \<le> issued m"
    unfolding issued_def by (rule sum_mono2 [OF finite_store sub]) simp
  finally show ?thesis .
qed

section \<open>The books\<close>

text \<open>A ledger encoding that never fails and never decodes to another ledger.\<close>

definition ledger_codec_faithful :: "bincode \<Rightarrow> bool" where
  "ledger_codec_faithful bc \<longleftrightarrow>
     (\<forall>l. \<exists>bytes. ser_ledger bc l = Some bytes \<and> (\<forall>l'. de_ledger bc bytes = Some l' \<longrightarrow> l' = l))"

definition snapshot_backed :: "bincode \<Rightarrow> nat \<Rightarrow> ghostdag_manager \<Rightarrow> blockchain_storage \<Rightarrow> bool" where
  "snapshot_backed bc x m st \<longleftrightarrow>
     (\<forall>bytes l. ledger_tree st ''current'' = Some bytes \<longrightarrow> de_ledger bc bytes = Some l \<longrightarrow>
        ledger_supply l \<le> issued m + x)"

definition books_backed :: "('pk, 'sg) environment \<Rightarrow> nat \<Rightarrow> 'p node \<Rightarrow> bool" where
  "books_backed env x nd \<longleftrightarrow>
     ledger_supply (n_ledger nd) \<le> issued (n_dag nd) + x \<and>
     snapshot_backed (bin env) x (n_dag nd) (n_storage nd)"

definition sound_books :: "('pk, 'sg) environment \<Rightarrow> bool" where
  "sound_books env \<longleftrightarrow> reliable env \<and> ledger_codec_faithful (bin env)"

lemma saving_works: "sound_books env \<Longrightarrow> \<not> save_fails env"
  by (auto simp: sound_books_def save_fails_def reliable_def reliable_db_def save_ledger_state_def
      write_entry_def db_op_def Let_def ledger_codec_faithful_def split: option.splits)

lemma save_backed:
  assumes codec: "ledger_codec_faithful bc" and old: "snapshot_backed bc x m st"
    and l: "ledger_supply l \<le> issued m + x"
  shows "snapshot_backed bc x m (snd (save_ledger_state fault bc l st))"
proof -
  obtain bytes where bytes: "ser_ledger bc l = Some bytes" "\<And>l'. de_ledger bc bytes = Some l' \<Longrightarrow> l' = l"
    using codec unfolding ledger_codec_faithful_def by blast
  then show ?thesis
    using save_ledger_tree [of fault bc l st] old l by (auto simp: snapshot_backed_def)
qed

lemma snapshot_backed_mono:
  "snapshot_backed bc x m st \<Longrightarrow> ledger_tree st' = ledger_tree st \<Longrightarrow> issued m + x \<le> issued m' + x' \<Longrightarrow>
     snapshot_backed bc x' m' st'"
  unfolding snapshot_backed_def by (auto intro: order_trans)

lemma canonical_tip_stored:
  "dag_inv m \<Longrightarrow> select_canonical_tip m = Some t \<Longrightarrow> t \<in> dom (hm_get (block_store m))"
  unfolding select_canonical_tip_def
  using select_best_tip_Some [of m "compute_tips m" t] set_compute_tips [OF dag_inv_simps(7), of m]
  by blast

text \<open>Settling replaces the ledger by a replayed one, or leaves the books alone.\<close>

lemma settle_backed:
  assumes inv: "dag_inv (n_dag nd)" and h: "h \<in> dom (hm_get (block_store (n_dag nd)))"
    and codec: "ledger_codec_faithful (bin env)" and old: "books_backed env x nd"
    and call: "settle env h nd = (r, nd')"
  shows "books_backed env x nd'"
proof -
  define tip where "tip = (case select_canonical_tip (n_dag nd) of Some t \<Rightarrow> t | None \<Rightarrow> h)"
  have tip: "tip \<in> dom (hm_get (block_store (n_dag nd)))"
    using canonical_tip_stored [OF inv] h by (simp add: tip_def split: option.split)
  have new: "books_backed env x (nd\<lparr>n_ledger := l,
      n_storage := snd (save_ledger_state (sled_fault env) (bin env) l (n_storage nd))\<rparr>)"
    if "recompute_ledger (sha3 env) (n_dag nd) tip = Some (Inr l)" for l
    using replay_backed [OF inv tip that] old save_backed [OF codec] by (simp add: books_backed_def)
  have target: "books_backed env x (n\<lparr>n_target := t\<rparr>) = books_backed env x n" for n :: "'a node" and t
    by (simp add: books_backed_def)
  show ?thesis
    using call old new unfolding settle_def Let_def tip_def [symmetric]
    by (auto simp: target split: option.splits sum.splits)
qed

text \<open>A block is booked and then stored: the ledger gains no more than the block issues.\<close>

lemma booked_backed:
  assumes codec: "ledger_codec_faithful (bin env)" and old: "books_backed env x nd"
    and bk: "booked env b nd nd1"
    and fresh: "hm_get (block_store (n_dag nd)) h = None"
    and after: "n_dag nd2 = dag_insert (n_dag nd) h b" "n_ledger nd2 = n_ledger nd1"
      "ledger_tree (n_storage nd2) = ledger_tree (n_storage nd1)"
  shows "books_backed env x nd2"
proof -
  note more = issued_insert [OF fresh, of b]
  from bk obtain st where ap: "apply_block (sha3 env) (n_ledger nd) b = (Inr (), n_ledger nd1)"
    and st: "ledger_tree st = ledger_tree (n_storage nd)"
    and sv: "save_ledger_state (sled_fault env) (bin env) (n_ledger nd1) st = (Inr (), n_storage nd1)"
    unfolding booked_def by blast
  have l: "ledger_supply (n_ledger nd1) \<le> issued (n_dag nd2) + x"
    using apply_block_supply [OF ap] old more by (simp add: books_backed_def after(1))
  have "snapshot_backed (bin env) x (n_dag nd2) st"
    using old snapshot_backed_mono [OF _ st, of "bin env" x "n_dag nd" "n_dag nd2" x] more
    by (simp add: books_backed_def after(1))
  from save_backed [OF codec this l, of "sled_fault env"] sv
  have "snapshot_backed (bin env) x (n_dag nd2) (n_storage nd1)" by simp
  then show ?thesis using l after by (simp add: books_backed_def snapshot_backed_def)
qed

section \<open>The invariant\<close>

definition coins_backed :: "('pk, 'sg) environment \<Rightarrow> nat \<Rightarrow> bytes32 \<Rightarrow> 'p node \<Rightarrow> bool" where
  "coins_backed env x g nd \<longleftrightarrow>
     node_sound env g nd \<and> (sound_books env \<longrightarrow> dag_size nd < 2 ^ 32 \<longrightarrow> books_backed env x nd)"

lemma ingest_ledger_tree:
  "ingest_block_only env blk nd = (h, nd') \<Longrightarrow>
     ledger_tree (n_storage nd') = ledger_tree (n_storage nd)"
  by (auto simp: ingest_block_only_def Let_def)

interpretation books: state_invariant env "coins_backed env x g" for env x g
proof
  show "coins_backed env x g nd'"
    if "same_chain nd nd'" "same_books nd nd' \<or> save_fails env" "coins_backed env x g nd" for nd nd'
    using that sound_chain.stored_only [OF same_chain_store [OF that(1)]] saving_works [of env]
    by (auto simp: coins_backed_def same_chain_def same_books_def books_backed_def
        snapshot_backed_def dag_size_def)
  show "coins_backed env x g nd3"
    if "coins_backed env x g nd" and chain: "same_chain nd nd1" and bk: "booked env blk nd nd1"
      and adm: "admissible env nd1 blk" and ing: "ingest_block_only env blk nd1 = (h, nd2)"
      and set: "settle env h nd2 = (r, nd3)" for nd nd1 nd2 nd3 and blk h r
  proof -
    have same: "same_store nd nd1" by (rule same_chain_store [OF chain])
    have "node_sound env g nd" using that(1) by (simp add: coins_backed_def)
    then have s1: "node_sound env g nd1" by (rule sound_chain.stored_only [OF same])
    have s2: "node_sound env g nd2" by (rule sound_chain.ingest [OF s1 adm ing])
    have s3: "node_sound env g nd3" by (rule sound_chain.stored_only [OF settle_store [OF set] s2])
    have "books_backed env x nd3" if ok: "sound_books env" "dag_size nd3 < 2 ^ 32"
    proof -
      have rel: "reliable env" and codec: "ledger_codec_faithful (bin env)"
        using ok(1) by (simp_all add: sound_books_def)
      have d2: "dag_size nd2 < 2 ^ 32" using ok(2) settle_size [OF set] by simp
      then have d1: "dag_size nd1 < 2 ^ 32" using ingest_size_mono [OF ing] by simp
      have inv1: "node_inv env g nd1" using s1 rel d1 by (simp add: node_sound_def)
      have dag: "n_dag nd1 = n_dag nd" using same by (simp add: same_store_def)
      have old: "books_backed env x nd"
        using \<open>coins_backed env x g nd\<close> ok(1) d1 dag by (simp add: coins_backed_def dag_size_def)
      note fr = ingest_frame [OF ing]
      have "books_backed env x nd2"
        using booked_backed [OF codec old bk _ _ fr(5) ingest_ledger_tree [OF ing], of h]
          ingest_fresh [OF inv1 adm ing] fr(2) by (simp add: dag)
      moreover have "dag_inv (n_dag nd2)" using s2 rel d2 by (auto simp: node_sound_def intro: node_inv_dag)
      moreover have "h \<in> dom (hm_get (block_store (n_dag nd2)))" by (auto simp: fr(2))
      ultimately show ?thesis using settle_backed [OF _ _ codec _ set] by blast
    qed
    with s3 show ?thesis by (simp add: coins_backed_def)
  qed
qed

section \<open>Starting and restarting\<close>

lemma supply_default_backed: "ledger_supply ledger_default \<le> n"
  by simp

lemma save_ledger_stored:
  "save_ledger_state fault bc l st = (Inr r, st') \<Longrightarrow>
     \<exists>bytes. ser_ledger bc l = Some bytes \<and> ledger_tree st' = (ledger_tree st)(''current'' \<mapsto> bytes)"
  by (auto simp: save_ledger_state_def write_entry_def db_op_def Let_def split: option.splits if_splits)

lemma save_ledger_done:
  assumes "ledger_codec_faithful bc" and "save_ledger_state fault bc l st = (Inr r, st')"
    and "ledger_supply l \<le> issued m + x"
  shows "snapshot_backed bc x m st'"
proof -
  obtain bytes where bytes: "ser_ledger bc l = Some bytes" "\<And>l'. de_ledger bc bytes = Some l' \<Longrightarrow> l' = l"
    using assms(1) unfolding ledger_codec_faithful_def by blast
  then have "ledger_tree st' ''current'' = Some bytes"
    using save_ledger_stored [OF assms(2)] by auto
  then show ?thesis using bytes(2) assms(3) by (auto simp: snapshot_backed_def)
qed

lemma start_fresh_backed:
  assumes codec: "ledger_codec_faithful (bin env)" and call: "start_fresh env i (base_node st) = Inr nd"
  shows "books_backed env x nd"
proof -
  from call obtain st3 st4 where sv:
    "save_ledger_state (sled_fault env) (bin env) ledger_default st3 = (Inr (), st4)"
    "n_storage nd = st4" "n_ledger nd = ledger_default"
    by (auto simp: start_fresh_def Let_def base_node_def genesis_applies unwrapped_def
        split: sum.splits prod.splits)
  from save_ledger_done [OF codec sv(1), of "n_dag nd" x] sv show ?thesis by (simp add: books_backed_def)
qed

lemma load_entries_ledger:
  "ledger_tree (snd (load_entries fault bc hs st)) = ledger_tree st"
proof (induction hs arbitrary: st)
  case (Cons h hs)
  obtain r st1 where l: "load_block fault bc h st = (r, st1)" by fastforce
  then have "ledger_tree st1 = ledger_tree st" using load_block_ledger [of fault bc h st] by simp
  with Cons.IH [of st1] show ?case by (auto simp: l split: sum.split option.split prod.split)
qed simp

lemma load_all_ledger: "load_all_blocks fault bc st = (r, st') \<Longrightarrow> ledger_tree st' = ledger_tree st"
  using load_entries_ledger [of fault bc "sorted_list_of_set (dom (blocks_tree st))" st]
  by (auto simp: load_all_blocks_def split: prod.splits sum.splits)

lemma resume_step_ledger: "n_ledger (foldl (resume_step sha) nd bs) = n_ledger nd"
  by (induction bs arbitrary: nd) (simp_all add: resume_step_def)

lemma resume_ledger_same: "resume_ledger env persisted nd = Inr nd' \<Longrightarrow> n_dag nd' = n_dag nd"
  by (auto simp: resume_ledger_def fall_back_def split: option.splits sum.splits)

lemma resume_ledger_backed:
  assumes call: "resume_ledger env persisted nd = Inr nd'" and inv: "dag_inv (n_dag nd)"
    and codec: "ledger_codec_faithful (bin env)" and old: "books_backed env x nd"
    and saved: "\<And>l. persisted = Some l \<Longrightarrow> ledger_supply l \<le> issued (n_dag nd) + x"
  shows "books_backed env x nd'"
proof -
  have fallen: "books_backed env x (fall_back persisted nd)"
    using old saved by (auto simp: fall_back_def books_backed_def split: option.split)
  have new: "books_backed env x (nd\<lparr>n_ledger := l,
      n_storage := snd (save_ledger_state (sled_fault env) (bin env) l (n_storage nd))\<rparr>)"
    if "select_canonical_tip (n_dag nd) = Some t"
      "recompute_ledger (sha3 env) (n_dag nd) t = Some (Inr l)" for t l
    using replay_backed [OF inv canonical_tip_stored [OF inv that(1)] that(2)] old save_backed [OF codec]
    by (simp add: books_backed_def)
  show ?thesis
    using call fallen new by (auto simp: resume_ledger_def split: option.splits sum.splits)
qed

lemma start_resumed_backed:
  assumes call: "start_resumed env g gb persisted (base_node st) = Inr nd'" and inv: "dag_inv (n_dag nd')"
    and codec: "ledger_codec_faithful (bin env)" and old: "snapshot_backed (bin env) x (n_dag nd') st"
    and saved: "\<And>l. persisted = Some l \<Longrightarrow> ledger_supply l \<le> issued (n_dag nd') + x"
  shows "books_backed env x nd'"
proof -
  from call obtain nd0 where nd0: "resume_ledger env persisted nd0 = Inr nd'"
    "n_ledger nd0 = ledger_default" "ledger_tree (n_storage nd0) = ledger_tree st"
    by (auto simp: start_resumed_def Let_def base_node_def resume_step_ledger resume_storage
        split: prod.splits sum.splits dest!: load_all_ledger)
  note dag = resume_ledger_same [OF nd0(1)]
  have "books_backed env x nd0"
    using old by (simp add: books_backed_def nd0(2,3) dag snapshot_backed_def)
  from resume_ledger_backed [OF nd0(1) _ codec this] inv saved show ?thesis by (simp add: dag)
qed

lemma start_backed:
  fixes nd :: "'p node"
  assumes start: "start_node env i st = Inr nd" and inv: "dag_inv (n_dag nd)"
    and codec: "ledger_codec_faithful (bin env)" and old: "snapshot_backed (bin env) x (n_dag nd) st"
  shows "books_backed env x nd"
proof -
  obtain rl st1 where l: "load_ledger_state (sled_fault env) (bin env) st = (rl, st1)" by fastforce
  obtain rb st2 where b: "load_block (sled_fault env) (bin env)
      (fixed_genesis_hash_for_network (sha3 env) i) st1 = (rb, st2)" by fastforce
  have tree: "ledger_tree st2 = ledger_tree st"
    using l b read_entry_trees(3) [of "sled_fault env" "\<lambda>s. ledger_tree s ''current''"
        "de_ledger (bin env)" st] load_block_ledger [of "sled_fault env" "bin env" _ st1]
    by (metis load_ledger_state_def snd_conv)
  define persisted where "persisted = (case rl of Inl _ \<Rightarrow> None | Inr s \<Rightarrow> s)"
  have saved: "ledger_supply s \<le> issued (n_dag nd) + x" if "persisted = Some s" for s
  proof -
    have "rl = Inr (Some s)" using that by (simp add: persisted_def split: sum.splits)
    with l have "\<exists>bytes. ledger_tree st ''current'' = Some bytes \<and> de_ledger (bin env) bytes = Some s"
      by (auto simp: load_ledger_state_def read_entry_def db_op_def Let_def
          split: option.splits if_splits)
    then obtain bytes where "ledger_tree st ''current'' = Some bytes" "de_ledger (bin env) bytes = Some s"
      by blast
    then show ?thesis using old by (simp add: snapshot_backed_def)
  qed
  have old2: "snapshot_backed (bin env) x (n_dag nd) st2"
    using old tree by (simp add: snapshot_backed_def)
  define outcome :: "(node_error, 'p node) result" where "outcome = (case rb of
        Inl _ \<Rightarrow> Inr (base_node st2)
      | Inr None \<Rightarrow> start_fresh env i (base_node st2)
      | Inr (Some genesis_blk) \<Rightarrow>
          start_resumed env (fixed_genesis_hash_for_network (sha3 env) i) genesis_blk persisted
            (base_node st2))"
  have "(case outcome of Inl e \<Rightarrow> Inl e | Inr nd \<Rightarrow>
      Inr (if n_history nd = [] then nd
        else nd\<lparr>n_target := difficulty_target (header (last (n_history nd)))\<rparr>)) = Inr nd"
    using start
    unfolding start_node_def Let_def l b prod.case persisted_def [symmetric] outcome_def [symmetric] .
  then obtain nd0 where nd0: "outcome = Inr nd0" and nd: "n_dag nd = n_dag nd0"
    "n_ledger nd = n_ledger nd0" "n_storage nd = n_storage nd0"
    by (auto split: sum.splits if_splits)
  note nd0 = nd0 [unfolded outcome_def]
  have "books_backed env x nd0"
  proof (cases "\<exists>gb. rb = Inr (Some gb)")
    case True
    then obtain gb where "start_resumed env (fixed_genesis_hash_for_network (sha3 env) i) gb persisted
        (base_node st2) = Inr nd0" using nd0 by auto
    from start_resumed_backed [OF this _ codec] inv saved old2 show ?thesis by (simp add: nd(1))
  next
    case False
    then consider "nd0 = base_node st2" | "start_fresh env i (base_node st2) = Inr nd0"
      using nd0 by (cases rb) (auto split: option.splits)
    then show ?thesis
    proof cases
      case 1
      then show ?thesis using old2 nd(1) by (simp add: books_backed_def base_node_def)
    next
      case 2
      then show ?thesis by (rule start_fresh_backed [OF codec])
    qed
  qed
  then show ?thesis by (simp add: books_backed_def nd)
qed

section \<open>Mining\<close>

lemma store_mined_books:
  "n_ledger (store_mined env h b nd) = n_ledger nd"
  "ledger_tree (n_storage (store_mined env h b nd)) = ledger_tree (n_storage nd)"
proof -
  obtain rb st where sv: "save_block (sled_fault env) (bin env) h b (n_storage nd) = (rb, st)" by fastforce
  then have "ledger_tree st = ledger_tree (n_storage nd)"
    using save_block_ledger [of "sled_fault env" "bin env" h b "n_storage nd"] by simp
  then show "n_ledger (store_mined env h b nd) = n_ledger nd"
    "ledger_tree (n_storage (store_mined env h b nd)) = ledger_tree (n_storage nd)"
    by (auto simp: store_mined_def Let_def sv split: sum.split option.split)
qed

text \<open>A block that is being mined is booked, but not stored yet.\<close>

lemma booked_ahead:
  assumes codec: "ledger_codec_faithful (bin env)" and old: "books_backed env x nd"
    and bk: "booked env b nd nd1" and same: "n_dag nd1 = n_dag nd"
  shows "books_backed env (x + block_issue b) nd1"
proof -
  from bk obtain st where ap: "apply_block (sha3 env) (n_ledger nd) b = (Inr (), n_ledger nd1)"
    and st: "ledger_tree st = ledger_tree (n_storage nd)"
    and sv: "save_ledger_state (sled_fault env) (bin env) (n_ledger nd1) st = (Inr (), n_storage nd1)"
    unfolding booked_def by blast
  have l: "ledger_supply (n_ledger nd1) \<le> issued (n_dag nd1) + (x + block_issue b)"
    using apply_block_supply [OF ap] old same by (simp add: books_backed_def)
  from save_ledger_done [OF codec sv l] l show ?thesis by (simp add: books_backed_def)
qed

lemma tick_backed:
  fixes nd nd' :: "'p node"
  assumes bm: "begin_mining env g miner nd pool = (Inr (b, nd1), pool')"
    and mb: "mine_block (sha3 env) (pow_new (n_target nd1)) b = Some (h, blk)"
    and se: "settle env h (store_mined env h blk nd1) = (r, nd')"
    and signed: "mempool_signed (dili env) (sha3 env) pool"
    and inj: "inj_on (sha3 env) (block_preimage ` set (n_history nd'))"
    and old: "coins_backed env x g nd"
  shows "coins_backed env x g nd'"
proof -
  have snd0: "node_sound env g nd" using old by (simp add: coins_backed_def)
  note sound = mined_sound [OF bm mb se signed inj snd0]
  have "books_backed env x nd'" if ok: "sound_books env" "dag_size nd' < 2 ^ 32"
  proof -
    have rel: "reliable env" and codec: "ledger_codec_faithful (bin env)"
      using ok(1) by (simp_all add: sound_books_def)
    have size: "dag_size nd < 2 ^ 32" using ok(2) sound(3) by simp
    then have inv: "node_inv env g nd" using snd0 rel by (simp add: node_sound_def)
    have backed: "books_backed env x nd" using old ok(1) size by (simp add: coins_backed_def)
    from mined_step [OF bm mb se signed inj inv] obtain n where
      n: "same_chain nd nd1" "booked env blk nd nd1" "hm_get (block_store (n_dag nd)) h = None" by metis
    let ?nd3 = "store_mined env h blk nd1"
    have dag3: "n_dag ?nd3 = dag_insert (n_dag nd) h blk"
      using n(1) by (simp add: store_mined_frame same_chain_def)
    have b3: "books_backed env x ?nd3"
      by (rule booked_backed [OF codec backed n(2,3) dag3 store_mined_books])
    have "n_dag nd' = n_dag ?nd3" using settle_frame(1) [OF se] .
    moreover have "node_inv env g nd'" using sound(1) rel ok(2) by (simp add: node_sound_def)
    ultimately have inv3: "dag_inv (n_dag ?nd3)" using node_inv_dag by metis
    have "h \<in> dom (hm_get (block_store (n_dag ?nd3)))" by (auto simp: dag3)
    from settle_backed [OF inv3 this codec b3 se] show ?thesis .
  qed
  with sound(1) show ?thesis by (simp add: coins_backed_def)
qed

section \<open>Every run\<close>

text \<open>A restart on the storage that a node leaves behind, in whatever step it was stopped.\<close>

lemma restart_backed:
  fixes nd nd' :: "'p node"
  assumes rel: "reliable env" and codec: "ledger_codec_faithful (bin env)"
    and inv: "node_inv env (fixed_genesis_hash_for_network (sha3 env) i) nd"
    and old: "books_backed env x nd" and start: "start_node env i (n_storage nd) = Inr nd'"
  shows "books_backed env x nd'"
proof -
  let ?g = "fixed_genesis_hash_for_network (sha3 env) i"
  obtain nd1 :: "'p node" where nd1: "start_node env i (n_storage nd) = Inr nd1" "node_inv env ?g nd1"
    "hm_get (block_store (n_dag nd1)) = hm_get (block_store (n_dag nd))"
    by (rule restart_same [OF rel inv])
  have eq: "nd1 = nd'" using start nd1(1) by simp
  have "snapshot_backed (bin env) x (n_dag nd') (n_storage nd)"
    using old issued_get [OF nd1(3)] by (simp add: books_backed_def snapshot_backed_def eq)
  with start_backed [OF start] node_inv_dag [OF nd1(2)] codec show ?thesis by (simp add: eq)
qed

lemma restart_coins:
  fixes nd nd' :: "'p node"
  assumes rel: "reliable env" and old: "guarded (coins_backed env x (fixed_genesis_hash_for_network (sha3 env) i)) nd"
    and size: "dag_size nd < 2 ^ 32" and start: "start_node env i (n_storage nd) = Inr nd'"
  shows "guarded (coins_backed env x (fixed_genesis_hash_for_network (sha3 env) i)) nd'"
proof -
  let ?g = "fixed_genesis_hash_for_network (sha3 env) i"
  have "guarded (node_sound env ?g) nd" using old by (simp add: guarded_def coins_backed_def)
  note r = restart_guarded [OF rel size this start]
  have "books_backed env x nd'" if "sound_books env"
    by (rule restart_backed [OF rel _ _ _ start])
      (use old size rel that in \<open>simp_all add: guarded_def coins_backed_def node_sound_def sound_books_def\<close>)
  then show ?thesis using r(1) by (simp add: guarded_def coins_backed_def)
qed

lemma begun_coins:
  fixes nd nd1 :: "'p node"
  assumes bm: "begin_mining env g miner nd pool = (Inr (b, nd1), pool')"
    and old: "guarded (coins_backed env x g) nd"
  shows "guarded (coins_backed env (x + block_issue b) g) nd1"
  using bm
proof (cases rule: begin_step)
  case (idle nd')
  then show ?thesis by simp
next
  case (job b' nd1' nd2 txs)
  then have sc: "same_chain nd nd1" and orph: "n_orphans nd1 = n_orphans nd" and bk: "booked env b nd nd1"
    by simp_all
  have "n_dag nd1 = n_dag nd" using sc by (simp add: same_chain_def)
  with booked_ahead [OF _ _ bk] sound_chain.stored_only [OF same_chain_store [OF sc], of env g] old orph
  show ?thesis by (simp add: guarded_def coins_backed_def sound_books_def dag_size_def)
qed

text \<open>The coins of the searches that were cut off.\<close>

definition lost_issue :: "velo_block list \<Rightarrow> nat" where
  "lost_issue bs = sum_list (map block_issue bs)"

lemma lost_issue_simps [simp]: "lost_issue [] = 0" "lost_issue (bs @ [b]) = lost_issue bs + block_issue b"
  by (simp_all add: lost_issue_def)

lemma lost_issue_le: "lost_issue bs \<le> 83238 * length bs"
  using subsidy_total_le by (induction bs) (auto simp: lost_issue_def block_issue_def add_mono)

lemma node_run_coins:
  fixes nd :: "'p node"
  assumes run: "node_run env codec token i miner mining job lost nd pool" and rel: "reliable env"
  shows "guarded (coins_backed env (lost_issue lost + (case job of None \<Rightarrow> 0 | Some b \<Rightarrow> block_issue b))
    (fixed_genesis_hash_for_network (sha3 env) i)) nd"
proof -
  let ?g = "fixed_genesis_hash_for_network (sha3 env) i"
  let ?Q = "\<lambda>lost. guarded (coins_backed env (lost_issue lost) ?g :: 'p node \<Rightarrow> bool)"
  have "case job of None \<Rightarrow> ?Q lost nd | Some b \<Rightarrow> mining_from env codec token i miner mining ?Q b lost nd"
    using run
  proof (rule node_run_states)
    show "?Q [] nd" if start: "blocks_tree st = Map.empty" "start_node env i st = Inr nd" for st and nd :: "'p node"
    proof -
      obtain st1 nd0 where s: "start_fresh env i (base_node st1) = Inr nd0" "nd = nd0\<lparr>n_target := fill 15\<rparr>"
        by (rule start_node_fresh [OF start rel])
      have "node_sound env ?g nd"
        using start_node_guarded [OF start rel] by (auto simp: guarded_def node_strict_def node_sound_def)
      moreover have "books_backed env 0 nd" if "sound_books env"
        using start_fresh_backed [OF _ s(1), of 0] that by (simp add: sound_books_def books_backed_def s(2))
      ultimately show ?thesis using start_node_capacity [OF start(2)] by (simp add: guarded_def coins_backed_def)
    qed
    show "?Q lost nd'" if "?Q lost nd" "handle_p2p_events env ?g i ev nd = (r, nd')"
      for lost ev r and nd nd' :: "'p node"
      using books.event_guarded [OF that(2,1)] .
    show "?Q lost nd'" if old: "?Q lost nd" and "begin_mining env ?g miner nd pool = (Inl nd', pool')"
      for lost pool pool' and nd nd' :: "'p node"
      using that(2)
    proof (cases rule: begin_step)
      case (idle nd1)
      then show ?thesis using books.frame [OF idle(2,5)] old by (simp add: guarded_def)
    qed simp
    show "?Q lost nd'"
      if "node_run env codec token i miner mining None lost nd pool" "?Q lost nd"
        "begin_mining env ?g miner nd pool = (Inr (b, nd1), pool')"
        "mine_block (sha3 env) (pow_new (n_target nd1)) b = Some (h, blk)"
        "settle env h (store_mined env h blk nd1) = (r, nd')"
        "inj_on (sha3 env) (block_preimage ` set (n_history nd'))"
      for lost pool b pool' h blk r and nd nd1 nd' :: "'p node"
    proof -
      note signed = node_run_signed [OF that(1)]
      have old: "coins_backed env (lost_issue lost) ?g nd" using that(2) by (simp add: guarded_def)
      then have "node_sound env ?g nd" by (simp add: coins_backed_def)
      from tick_backed [OF that(3-5) signed that(6) old] mined_sound(2) [OF that(3-5) signed that(6) this] that(2)
      show ?thesis by (simp add: guarded_def)
    qed
    show "?Q lost nd'" if "?Q lost nd" "dag_size nd < 2 ^ 32" "start_node env i (n_storage nd) = Inr nd'"
      for lost and nd nd' :: "'p node"
      by (rule restart_coins [OF rel that])
    show "?Q (lost @ [b]) nd'"
      if "?Q lost nd" "begin_mining env ?g miner nd pool = (Inr (b, nd1), pool')" "dag_size nd1 < 2 ^ 32"
        "start_node env i (n_storage nd1) = Inr nd'" for lost pool b pool' and nd nd1 nd' :: "'p node"
      using restart_coins [OF rel begun_coins [OF that(2,1)] that(3,4)] by simp
  qed
  then show ?thesis using begun_coins by (cases job) (auto simp: mining_from_def)
qed

section \<open>While a block is mined\<close>

text \<open>
  The block is booked before it is mined: the ledger and its snapshot run ahead of the stored
  blocks by what the block pays and spends.
\<close>

lemma begin_mining_booked:
  assumes "begin_mining env g miner nd pool = (Inr (b, nd1), pool')"
  shows "booked env b nd nd1" and "same_store nd nd1" and "block_height b \<noteq> 0"
  using assms by (cases rule: begin_step; simp add: same_chain_store)+

lemma ledger_runs_ahead:
  assumes "begin_mining env g miner nd pool = (Inr (b, nd1), pool')"
  shows "ledger_supply (n_ledger nd1) + 50 * length (transactions b) =
      ledger_supply (n_ledger nd) + subsidy_total (block_height b)"
    and "\<exists>bytes. ledger_tree (n_storage nd1) ''current'' = Some bytes \<and>
      ser_ledger (bin env) (n_ledger nd1) = Some bytes"
    and "n_dag nd1 = n_dag nd" and "blocks_tree (n_storage nd1) = blocks_tree (n_storage nd)"
proof -
  note bk = begin_mining_booked [OF assms]
  from bk(1) obtain st where ap: "apply_block (sha3 env) (n_ledger nd) b = (Inr (), n_ledger nd1)"
    and sv: "save_ledger_state (sled_fault env) (bin env) (n_ledger nd1) st = (Inr (), n_storage nd1)"
    unfolding booked_def by blast
  show "ledger_supply (n_ledger nd1) + 50 * length (transactions b) =
      ledger_supply (n_ledger nd) + subsidy_total (block_height b)"
    using apply_block_supply [OF ap] bk(3) by (simp add: block_burn_def block_issue_def)
  show "\<exists>bytes. ledger_tree (n_storage nd1) ''current'' = Some bytes \<and>
      ser_ledger (bin env) (n_ledger nd1) = Some bytes"
    using save_ledger_stored [OF sv] by auto
  show "n_dag nd1 = n_dag nd" "blocks_tree (n_storage nd1) = blocks_tree (n_storage nd)"
    using bk(2) by (simp_all add: same_store_def)
qed

end
