(* ===== verification/Node_Entry.thy ===== *)
theory Node_Entry
  imports Node_Supply
begin

text \<open>
  How blocks enter a node.  The chain of a node is its DAG, its ledger and its target.  Whatever an
  event makes a node do, its chain changes by a list of received blocks, each of which passed every
  check against the chain that the blocks before it had left; a tick adds one block of its own that
  passed the same checks.  So every stored block can be traced back to the step that let it in.
\<close>

section \<open>The chain and what a block does to it\<close>

type_synonym chain = "ghostdag_manager \<times> ledger_state \<times> bytes32"

definition chain_of :: "'p node \<Rightarrow> chain" where
  "chain_of nd = (n_dag nd, n_ledger nd, n_target nd)"

text \<open>
  The specification of an accepted block: it is inserted, the ledger is the replay of the
  canonical order or, if that fails, the old ledger after the block, and the target follows the
  canonical order.
\<close>

definition extend_chain :: "('pk, 'sg) environment \<Rightarrow> velo_block \<Rightarrow> chain \<Rightarrow> chain" where
  "extend_chain env b ch =
     (case ch of (m, l, t) \<Rightarrow>
        (let h = calculate_hash (sha3 env) b;
             m' = dag_insert m h b;
             tip = (case select_canonical_tip m' of Some t \<Rightarrow> t | None \<Rightarrow> h);
             l' = (case recompute_ledger (sha3 env) m' tip of
                     Some (Inr r) \<Rightarrow> r
                   | _ \<Rightarrow> snd (apply_block (sha3 env) l b));
             t' = (case canonical_block_order m' tip of
                     None \<Rightarrow> t
                   | Some bs \<Rightarrow>
                       (case calculate_next_target (difficulty_mgr env) bs t of None \<Rightarrow> t | Some u \<Rightarrow> u))
         in (m', l', t')))"

text \<open>
  The checks of a block against a chain, mined or received: content, height, work against the
  target of the chain, treasury, parents, a hash that is new, transactions that apply.
\<close>

definition passes :: "('pk, 'sg) environment \<Rightarrow> chain \<Rightarrow> velo_block \<Rightarrow> bool" where
  "passes env ch b \<longleftrightarrow>
     (case ch of (m, l, t) \<Rightarrow>
        content_ok env b \<and> block_height b \<noteq> 0 \<and>
        difficulty_target (header b) = t \<and> calculate_hash (sha3 env) b \<le> t \<and>
        coinbase_dev_address b = DEV_TREASURY_ADDRESS \<and>
        block_parents b \<noteq> [] \<and> set (block_parents b) \<subseteq> dom (hm_get (block_store m)) \<and>
        block_height b = Max (parent_heights m b) + 1 \<and>
        hm_get (block_store m) (calculate_hash (sha3 env) b) = None \<and>
        fst (apply_block (sha3 env) l b) = Inr ())"

text \<open>A received block is not older than its parents and not ahead of the clock reading \<open>j\<close>.\<close>

definition passes_received :: "('pk, 'sg) environment \<Rightarrow> nat \<Rightarrow> chain \<Rightarrow> velo_block \<Rightarrow> bool" where
  "passes_received env j ch b \<longleftrightarrow>
     passes env ch b \<and> Max (parent_times (fst ch) b) \<le> timestamp (header b) \<and> on_time env j b"

primrec all_pass :: "('pk, 'sg) environment \<Rightarrow> nat \<Rightarrow> nat \<Rightarrow> chain \<Rightarrow> velo_block list \<Rightarrow> bool" where
  "all_pass env lo hi ch [] = True"
| "all_pass env lo hi ch (b # bs) =
     ((\<exists>j \<in> {lo..<hi}. passes_received env j ch b) \<and> all_pass env lo hi (extend_chain env b ch) bs)"

text \<open>What a step of the node does to its chain: it lets a list of blocks in, one after the other.\<close>

definition lets_in :: "('pk, 'sg) environment \<Rightarrow> 'p node \<Rightarrow> 'p node \<Rightarrow> velo_block list \<Rightarrow> bool" where
  "lets_in env nd nd' bs \<longleftrightarrow>
     n_history nd' = n_history nd @ bs \<and>
     all_pass env (n_reads nd) (n_reads nd') (chain_of nd) bs \<and>
     chain_of nd' = fold (extend_chain env) bs (chain_of nd)"

lemma all_pass_append:
  "all_pass env lo hi ch (bs @ cs) \<longleftrightarrow>
     all_pass env lo hi ch bs \<and> all_pass env lo hi (fold (extend_chain env) bs ch) cs"
  by (induction bs arbitrary: ch) auto

lemma all_pass_later: "all_pass env lo hi ch bs \<Longrightarrow> hi \<le> hi' \<Longrightarrow> all_pass env lo hi' ch bs"
  by (induction bs arbitrary: ch) fastforce+

lemma lets_in_refl: "lets_in env nd nd []"
  by (simp add: lets_in_def)

lemma lets_in_same: "lets_in env nd0 nd bs \<Longrightarrow> same_chain nd nd' \<Longrightarrow> n_ledger nd' = n_ledger nd \<Longrightarrow>
    lets_in env nd0 nd' bs"
  by (auto simp: lets_in_def same_chain_def chain_of_def intro: all_pass_later)

lemma lets_in_add:
  assumes "lets_in env nd0 nd bs" and "n_history nd' = n_history nd @ [b]"
    and "n_reads nd0 \<le> n_reads nd" and "n_reads nd \<le> j" and "j < n_reads nd'"
    and "passes_received env j (chain_of nd) b" and "chain_of nd' = extend_chain env b (chain_of nd)"
  shows "lets_in env nd0 nd' (bs @ [b])"
proof -
  have "all_pass env (n_reads nd0) (n_reads nd') (chain_of nd0) bs"
    by (rule all_pass_later [of _ _ "n_reads nd"]) (use assms in \<open>simp_all add: lets_in_def\<close>)
  moreover have "\<exists>j \<in> {n_reads nd0..<n_reads nd'}. passes_received env j (chain_of nd) b"
    using assms by (intro bexI [of _ j]) auto
  ultimately show ?thesis using assms by (simp add: lets_in_def all_pass_append)
qed

section \<open>One block\<close>

lemma settle_chain:
  assumes "settle env h nd = (r, nd')"
  defines "tip \<equiv> (case select_canonical_tip (n_dag nd) of Some t \<Rightarrow> t | None \<Rightarrow> h)"
  shows "n_ledger nd' = (case recompute_ledger (sha3 env) (n_dag nd) tip of
      Some (Inr l) \<Rightarrow> l | _ \<Rightarrow> n_ledger nd)"
    and "n_target nd' = (case canonical_block_order (n_dag nd) tip of
        None \<Rightarrow> n_target nd
      | Some bs \<Rightarrow> (case calculate_next_target (difficulty_mgr env) bs (n_target nd) of
          None \<Rightarrow> n_target nd | Some u \<Rightarrow> u))"
proof -
  have both: "canonical_block_order (n_dag nd) tip = None"
    if "recompute_ledger (sha3 env) (n_dag nd) tip = None"
    using that by (auto simp: recompute_ledger_def canonical_block_order_def split: option.splits)
  show "n_ledger nd' = (case recompute_ledger (sha3 env) (n_dag nd) tip of
      Some (Inr l) \<Rightarrow> l | _ \<Rightarrow> n_ledger nd)"
    using assms(1) unfolding settle_def Let_def tip_def [symmetric]
    by (auto split: option.splits sum.splits)
  show "n_target nd' = (case canonical_block_order (n_dag nd) tip of
        None \<Rightarrow> n_target nd
      | Some bs \<Rightarrow> (case calculate_next_target (difficulty_mgr env) bs (n_target nd) of
          None \<Rightarrow> n_target nd | Some u \<Rightarrow> u))"
    using assms(1) both unfolding settle_def Let_def tip_def [symmetric]
    by (auto split: option.splits sum.splits)
qed

lemma settled_chain:
  assumes "settle env (calculate_hash (sha3 env) b) nd2 = (r, nd3)"
    and "n_dag nd2 = dag_insert (n_dag nd) (calculate_hash (sha3 env) b) b"
    and "n_ledger nd2 = snd (apply_block (sha3 env) (n_ledger nd) b)" and "n_target nd2 = n_target nd"
  shows "chain_of nd3 = extend_chain env b (chain_of nd)"
  using settle_chain [OF assms(1)] settle_frame(1) [OF assms(1)]
  unfolding chain_of_def extend_chain_def Let_def prod.case assms(2-4) by simp

lemma passes_intro:
  assumes "block_sound env (n_dag nd) b" and "difficulty_target (header b) = n_target nd"
    and "hm_get (block_store (n_dag nd)) (calculate_hash (sha3 env) b) = None"
    and "booked env b nd nd1"
  shows "passes env (chain_of nd) b"
  using assms by (auto simp: passes_def chain_of_def block_sound_def booked_def)

section \<open>Every event lets checked blocks in\<close>

definition ledgers_saved :: "('pk, 'sg) environment \<Rightarrow> bool" where
  "ledgers_saved env \<longleftrightarrow> reliable env \<and> (\<forall>l. ser_ledger (bin env) l \<noteq> None)"

lemma saved_ok: "ledgers_saved env \<Longrightarrow> \<not> save_fails env"
  by (auto simp: ledgers_saved_def save_fails_def reliable_def reliable_db_def save_ledger_state_def
      write_entry_def db_op_def Let_def split: option.splits)

definition let_in_since :: "('pk, 'sg) environment \<Rightarrow> bytes32 \<Rightarrow> 'p node \<Rightarrow> 'p node \<Rightarrow> bool" where
  "let_in_since env g nd0 nd \<longleftrightarrow>
     node_sound env g nd \<and> dag_size nd0 \<le> dag_size nd \<and> n_reads nd0 \<le> n_reads nd \<and>
     (ledgers_saved env \<longrightarrow> dag_size nd < 2 ^ 32 \<longrightarrow> (\<exists>bs. lets_in env nd0 nd bs))"

interpretation entry: state_invariant env "let_in_since env g nd0" for env g nd0
proof
  show "let_in_since env g nd0 nd'"
    if "same_chain nd nd'" "same_books nd nd' \<or> save_fails env" "let_in_since env g nd0 nd" for nd nd'
  proof -
    have "\<exists>bs. lets_in env nd0 nd' bs" if ok: "ledgers_saved env" "dag_size nd' < 2 ^ 32"
    proof -
      have "n_ledger nd' = n_ledger nd"
        using \<open>same_books nd nd' \<or> save_fails env\<close> saved_ok [OF ok(1)] by (simp add: same_books_def)
      moreover have "\<exists>bs. lets_in env nd0 nd bs"
        using \<open>let_in_since env g nd0 nd\<close> \<open>same_chain nd nd'\<close> ok
        by (simp add: let_in_since_def dag_size_def same_chain_def)
      ultimately show ?thesis using lets_in_same \<open>same_chain nd nd'\<close> by blast
    qed
    then show ?thesis
      using that sound_chain.stored_only [OF same_chain_store [OF that(1)], of env g]
      by (simp add: let_in_since_def same_chain_def dag_size_def)
  qed
  show "let_in_since env g nd0 nd3"
    if old: "let_in_since env g nd0 nd" and same: "same_chain nd nd1" and later: "n_reads nd < n_reads nd1"
      and bk: "booked env b nd nd1" and adm: "admissible env nd1 b"
      and ing: "ingest_block_only env b nd1 = (h, nd2)" and se: "settle env h nd2 = (r, nd3)"
    for nd nd1 nd2 nd3 and b h r
  proof -
    have s0: "node_sound env g nd" using old by (simp add: let_in_since_def)
    have s1: "node_sound env g nd1" by (rule sound_chain.stored_only [OF same_chain_store [OF same] s0])
    have s2: "node_sound env g nd2" by (rule sound_chain.ingest [OF s1 adm ing])
    have s3: "node_sound env g nd3" by (rule sound_chain.stored_only [OF settle_store [OF se] s2])
    note fr = ingest_frame [OF ing]
    note sf = settle_frame [OF se]
    have d: "n_dag nd1 = n_dag nd" "n_history nd1 = n_history nd" "n_target nd1 = n_target nd"
      using same by (simp_all add: same_chain_def)
    have size: "dag_size nd \<le> dag_size nd3"
      using ingest_size_mono [OF ing] sf(1) d(1) by (simp add: dag_size_def)
    have reads: "n_reads nd3 = n_reads nd1" using fr(8) sf(5) by simp
    have "\<exists>bs. lets_in env nd0 nd3 bs" if ok: "ledgers_saved env" "dag_size nd3 < 2 ^ 32"
    proof -
      have "dag_size nd1 < 2 ^ 32" using size ok(2) d(1) by (simp add: dag_size_def)
      then have inv1: "node_inv env g nd1" using s1 ok(1) by (simp add: node_sound_def ledgers_saved_def)
      have fresh: "hm_get (block_store (n_dag nd)) (calculate_hash (sha3 env) b) = None"
        using ingest_fresh [OF inv1 adm ing] fr(1) d(1) by simp
      obtain j where j: "n_reads nd1 = Suc j" "on_time env j b" using adm by (auto simp: admissible_def)
      have valid: "block_valid env (n_dag nd) b" "difficulty_target (header b) = n_target nd"
        using adm d by (simp_all add: admissible_def)
      then have "passes env (chain_of nd) b"
        using passes_intro [OF _ _ fresh bk] by (simp add: block_valid_def)
      then have pass: "passes_received env j (chain_of nd) b"
        using valid(1) j(2) by (simp add: passes_received_def block_valid_def chain_of_def)
      have "chain_of nd3 = extend_chain env b (chain_of nd)"
        by (rule settled_chain [OF se [unfolded fr(1)]])
          (use fr bk d in \<open>simp_all add: booked_def\<close>)
      moreover obtain bs where "lets_in env nd0 nd bs"
        using old ok size by (auto simp: let_in_since_def)
      moreover have "n_history nd3 = n_history nd @ [b]" using fr(3) sf(2) d(2) by simp
      ultimately have "lets_in env nd0 nd3 (bs @ [b])"
        using lets_in_add [of env nd0 nd bs nd3 b j] old later j(1) pass reads
        by (simp add: let_in_since_def)
      then show ?thesis by blast
    qed
    then show ?thesis using s3 size later reads old by (simp add: let_in_since_def)
  qed
qed

lemma event_lets_in:
  assumes call: "handle_p2p_events env g i ev nd = (r, nd')" and sound: "guarded (node_sound env g) nd"
  shows "dag_size nd \<le> dag_size nd'"
    and "ledgers_saved env \<Longrightarrow> dag_size nd' < 2 ^ 32 \<Longrightarrow> \<exists>bs. lets_in env nd nd' bs"
proof -
  have "guarded (let_in_since env g nd) nd"
    using sound lets_in_refl [of env nd] by (auto simp: guarded_def let_in_since_def)
  from entry.event_guarded [OF call this]
  show "dag_size nd \<le> dag_size nd'"
    "ledgers_saved env \<Longrightarrow> dag_size nd' < 2 ^ 32 \<Longrightarrow> \<exists>bs. lets_in env nd nd' bs"
    by (simp_all add: guarded_def let_in_since_def)
qed

section \<open>A tick lets one block in\<close>

lemma tick_lets_in:
  fixes nd nd' :: "'p node"
  assumes bm: "begin_mining env g miner nd pool = (Inr (b, nd1), pool')"
    and mb: "mine_block (sha3 env) (pow_new (n_target nd1)) b = Some (h, blk)"
    and se: "settle env h (store_mined env h blk nd1) = (r, nd')"
    and signed: "mempool_signed (dili env) (sha3 env) pool"
    and inj: "inj_on (sha3 env) (block_preimage ` set (n_history nd'))"
    and inv: "node_inv env g nd"
  shows "passes env (chain_of nd) blk" and "chain_of nd' = extend_chain env blk (chain_of nd)"
    and "n_history nd' = n_history nd @ [blk]" and "timestamp (header blk) = wall_clock env (n_reads nd)"
    and "\<exists>n. blk = with_nonce b n"
proof -
  from mined_step [OF bm mb se signed inj inv] obtain n where
    n: "blk = with_nonce b n" "h = calculate_hash (sha3 env) blk" "same_chain nd nd1" "booked env blk nd nd1"
    "block_sound env (n_dag nd) blk" "difficulty_target (header blk) = n_target nd"
    "hm_get (block_store (n_dag nd)) h = None" "timestamp (header blk) = wall_clock env (n_reads nd)"
    by metis
  have d: "n_dag nd1 = n_dag nd" "n_history nd1 = n_history nd" "n_target nd1 = n_target nd"
    using n(3) by (simp_all add: same_chain_def)
  show "passes env (chain_of nd) blk" by (rule passes_intro [OF n(5,6) _ n(4)]) (use n(2,7) in simp)
  show "n_history nd' = n_history nd @ [blk]" using mined_history(1) [OF se] d(2) by simp
  show "timestamp (header blk) = wall_clock env (n_reads nd)" by (rule n(8))
  show "\<exists>n. blk = with_nonce b n" using n(1) by blast
  have target: "n_target (store_mined env h blk nd1) = n_target nd1"
    by (auto simp: store_mined_def Let_def emit_def split: prod.split sum.split option.split)
  show "chain_of nd' = extend_chain env blk (chain_of nd)"
    by (rule settled_chain [OF se [unfolded n(2)]])
      (use n(2,4) d target in \<open>simp_all add: store_mined_frame store_mined_books booked_def\<close>)
qed

section \<open>Every stored block entered at some step\<close>

lemma history_get:
  assumes "node_inv env g nd"
  shows "b \<in> set (n_history nd) \<longleftrightarrow> (\<exists>h. hm_get (block_store (n_dag nd)) h = Some b)"
proof -
  have "distinct (map fst (block_store (n_dag nd)))"
    using dag_inv_simps(7) [OF node_inv_dag [OF assms]] by (simp add: hm_wf_def)
  then have "hm_get (block_store (n_dag nd)) h = Some b \<longleftrightarrow> (h, b) \<in> set (block_store (n_dag nd))" for h
    by (simp add: hm_get_def)
  moreover have "n_history nd = map snd (block_store (n_dag nd))" using assms by (simp add: node_inv_def)
  ultimately show ?thesis by (auto simp: image_iff) force
qed

text \<open>
  \<open>E\<close> stands for having entered: it holds of what any event or any tick lets in, and then of
  every block of height above zero in the history of every state.
\<close>

lemma node_run_entered:
  fixes nd :: "'p node"
  assumes run: "node_run env codec token i miner mining job lost nd pool" and ok: "ledgers_saved env"
    and event: "\<And>lost0 (nd0 :: 'p node) pool0 ev r nd1 pre b post.
      node_run env codec token i miner mining None lost0 nd0 pool0 \<Longrightarrow>
      handle_p2p_events env (fixed_genesis_hash_for_network (sha3 env) i) i ev nd0 = (r, nd1) \<Longrightarrow>
      lets_in env nd0 nd1 (pre @ b # post) \<Longrightarrow> E b"
    and tick: "\<And>lost0 (nd0 :: 'p node) pool0 b0 nd1 pool1 b n.
      node_run env codec token i miner mining None lost0 nd0 pool0 \<Longrightarrow> mining \<Longrightarrow>
      begin_mining env (fixed_genesis_hash_for_network (sha3 env) i) miner nd0 pool0 = (Inr (b0, nd1), pool1) \<Longrightarrow>
      b = with_nonce b0 n \<Longrightarrow> passes env (chain_of nd0) b \<Longrightarrow>
      timestamp (header b) = wall_clock env (n_reads nd0) \<Longrightarrow> E b"
  shows "dag_size nd < 2 ^ 32 \<Longrightarrow> b \<in> set (n_history nd) \<Longrightarrow> block_height b \<noteq> 0 \<Longrightarrow> E b"
proof -
  let ?g = "fixed_genesis_hash_for_network (sha3 env) i"
  let ?Q = "\<lambda>(lost :: velo_block list) (nd :: 'p node).
    dag_size nd < 2 ^ 32 \<longrightarrow> (\<forall>b \<in> set (n_history nd). block_height b \<noteq> 0 \<longrightarrow> E b)"
  have rel: "reliable env" using ok by (simp add: ledgers_saved_def)
  have sound: "guarded (node_sound env ?g) nd"
    if "node_run env codec token i miner mining job lost nd pool" for job lost pool and nd :: "'p node"
    using node_run_inv [OF that rel] by blast
  have same: "?Q lost nd'" if "same_chain nd nd'" "?Q lost nd" for lost and nd nd' :: "'p node"
    using that by (simp add: same_chain_def dag_size_def)
  have restarted: "?Q lost nd'"
    if "guarded (node_sound env ?g) nd" "?Q lost nd" "dag_size nd < 2 ^ 32" "start_node env i (n_storage nd) = Inr nd'"
    for lost and nd nd' :: "'p node"
  proof -
    have inv: "node_inv env ?g nd" using that(1,3) rel by (simp add: guarded_def node_sound_def)
    obtain nd1 :: "'p node" where nd1: "start_node env i (n_storage nd) = Inr nd1" "node_inv env ?g nd1"
      "hm_get (block_store (n_dag nd1)) = hm_get (block_store (n_dag nd))"
      by (rule restart_same [OF rel inv])
    then have "set (n_history nd') = set (n_history nd)"
      using history_get [OF inv] history_get [OF nd1(2)] that(4) by auto
    then show ?thesis using that(2,3) by simp
  qed
  have began: "same_chain nd nd1" if "begin_mining env ?g miner nd pool = (Inr (b, nd1), pool')"
    for pool b pool' and nd nd1 :: "'p node"
    using that by (cases rule: begin_step) simp_all
  have "case job of None \<Rightarrow> ?Q lost nd | Some b \<Rightarrow> mining_from env codec token i miner mining ?Q b lost nd"
    using run
  proof (rule node_run_states)
    show "?Q [] nd" if start: "blocks_tree st = Map.empty" "start_node env i st = Inr nd" for st and nd :: "'p node"
    proof -
      obtain st1 nd0 where s: "start_fresh env i (base_node st1) = Inr nd0" "nd = nd0\<lparr>n_target := fill 15\<rparr>"
        by (rule start_node_fresh [OF start rel])
      then show ?thesis using start_fresh_shape(2) [OF s(1)] by simp
    qed
    show "?Q lost nd'"
      if run: "node_run env codec token i miner mining None lost nd pool" and old: "?Q lost nd"
        and call: "handle_p2p_events env ?g i ev nd = (r, nd')" for lost pool ev r and nd nd' :: "'p node"
    proof (intro impI ballI)
      fix b assume size: "dag_size nd' < 2 ^ 32" and b: "b \<in> set (n_history nd')" "block_height b \<noteq> 0"
      note le = event_lets_in [OF call sound [OF run]]
      from le(2) [OF ok size] obtain bs where bs: "lets_in env nd nd' bs" by blast
      show "E b"
      proof (cases "b \<in> set bs")
        case True
        then obtain pre post where "bs = pre @ b # post" by (auto simp: in_set_conv_decomp)
        with event [OF run call] bs show ?thesis by simp
      next
        case False
        then have "b \<in> set (n_history nd)" using b(1) bs by (auto simp: lets_in_def)
        then show ?thesis using old b(2) size le(1) by simp
      qed
    qed
    show "?Q lost nd'" if old: "?Q lost nd" and "begin_mining env ?g miner nd pool = (Inl nd', pool')"
      for lost pool pool' and nd nd' :: "'p node"
      using that(2)
    proof (cases rule: begin_step)
      case (idle nd1)
      then show ?thesis using same [OF _ old] by simp
    qed simp
    show "?Q lost nd'"
      if run: "node_run env codec token i miner mining None lost nd pool" and "mining" and old: "?Q lost nd"
        and bm: "begin_mining env ?g miner nd pool = (Inr (b, nd1), pool')"
        and mb: "mine_block (sha3 env) (pow_new (n_target nd1)) b = Some (h, blk)"
        and se: "settle env h (store_mined env h blk nd1) = (r, nd')"
        and inj: "inj_on (sha3 env) (block_preimage ` set (n_history nd'))"
      for lost pool b pool' h blk r and nd nd1 nd' :: "'p node"
    proof (intro impI ballI)
      fix c assume size: "dag_size nd' < 2 ^ 32" and c: "c \<in> set (n_history nd')" "block_height c \<noteq> 0"
      have s: "node_sound env ?g nd" using sound [OF run] by (simp add: guarded_def)
      note signed = node_run_signed [OF run]
      have le: "dag_size nd < 2 ^ 32" using mined_sound(3) [OF bm mb se signed inj s] size by simp
      then have inv: "node_inv env ?g nd" using s rel by (simp add: node_sound_def)
      note t = tick_lets_in [OF bm mb se signed inj inv]
      show "E c"
      proof (cases "c = blk")
        case True
        obtain n where "blk = with_nonce b n" using t(5) by blast
        from tick [OF run \<open>mining\<close> bm this t(1,4)] True show ?thesis by simp
      next
        case False
        then have "c \<in> set (n_history nd)" using c(1) t(3) by simp
        then show ?thesis using old le c(2) by simp
      qed
    qed
    show "?Q lost nd'"
      if "node_run env codec token i miner mining None lost nd pool" "?Q lost nd" "dag_size nd < 2 ^ 32"
        "start_node env i (n_storage nd) = Inr nd'" for lost pool and nd nd' :: "'p node"
      using restarted [OF sound [OF that(1)] that(2-4)] .
    show "?Q (lost @ [b]) nd'"
      if "node_run env codec token i miner mining None lost nd pool" "mining" "?Q lost nd"
        "begin_mining env ?g miner nd pool = (Inr (b, nd1), pool')" "dag_size nd1 < 2 ^ 32"
        "start_node env i (n_storage nd1) = Inr nd'" for lost pool b pool' and nd nd1 nd' :: "'p node"
      using restarted [OF sound [OF node_run.book [OF that(1,2,4)]] same [OF began [OF that(4)] that(3)] that(5,6)] .
  qed
  then have "?Q lost nd" using same [OF began] by (cases job) (auto simp: mining_from_def)
  then show "dag_size nd < 2 ^ 32 \<Longrightarrow> b \<in> set (n_history nd) \<Longrightarrow> block_height b \<noteq> 0 \<Longrightarrow> E b" by blast
qed

end
