(* ===== verification/Node_Books.thy ===== *)
theory Node_Books
  imports Node_Entry
begin

text \<open>
  The ledger in memory, its snapshot on disk and the canonical order.  Between two steps of the
  main loop the snapshot is the ledger, and if the canonical order replays, its replay is the
  ledger.  Hence a restart gives back the ledger that the node had, replay or not; a stop while a
  block is being mined gives back a ledger that may be ahead of the chain.
\<close>

section \<open>The invariant\<close>

text \<open>What is relied on of \<^verbatim>\<open>bincode\<close>: a ledger encodes, and decodes to itself.\<close>

definition ledger_codec_ok :: "bincode \<Rightarrow> bool" where
  "ledger_codec_ok bc \<longleftrightarrow> (\<forall>l. \<exists>bytes. ser_ledger bc l = Some bytes \<and> de_ledger bc bytes = Some l)"

definition ledger_on_disk :: "('pk, 'sg) environment \<Rightarrow> 'p node \<Rightarrow> bool" where
  "ledger_on_disk env nd \<longleftrightarrow>
     Option.bind (ledger_tree (n_storage nd) ''current'') (de_ledger (bin env)) = Some (n_ledger nd)"

definition ledger_canonical :: "('pk, 'sg) environment \<Rightarrow> 'p node \<Rightarrow> bool" where
  "ledger_canonical env nd \<longleftrightarrow>
     (\<forall>t l. select_canonical_tip (n_dag nd) = Some t \<longrightarrow>
        recompute_ledger (sha3 env) (n_dag nd) t = Some (Inr l) \<longrightarrow> l = n_ledger nd)"

definition sound_ledgers :: "('pk, 'sg) environment \<Rightarrow> bool" where
  "sound_ledgers env \<longleftrightarrow> reliable env \<and> ledger_codec_ok (bin env)"

lemma codec_ok_faithful: "ledger_codec_ok bc \<Longrightarrow> ledger_codec_faithful bc"
  unfolding ledger_codec_ok_def ledger_codec_faithful_def by (metis option.inject)

lemma sound_ledgers_saved: "sound_ledgers env \<Longrightarrow> ledgers_saved env"
  unfolding sound_ledgers_def ledgers_saved_def ledger_codec_ok_def by (metis option.distinct(1))

lemma saved_snapshot:
  assumes "sound_ledgers env"
  shows "Option.bind (ledger_tree (snd (save_ledger_state (sled_fault env) (bin env) l st)) ''current'')
    (de_ledger (bin env)) = Some l"
proof -
  obtain bytes where "ser_ledger (bin env) l = Some bytes" "de_ledger (bin env) bytes = Some l"
    using assms unfolding sound_ledgers_def ledger_codec_ok_def by blast
  then show ?thesis
    using assms
    by (simp add: save_ledger_state_def write_entry_def db_op_def Let_def sound_ledgers_def reliable_def
        reliable_db_def)
qed

lemma booked_on_disk:
  assumes "sound_ledgers env" and "booked env b nd nd1"
  shows "ledger_on_disk env nd1"
proof -
  obtain st where "save_ledger_state (sled_fault env) (bin env) (n_ledger nd1) st = (Inr (), n_storage nd1)"
    using assms(2) unfolding booked_def by blast
  with saved_snapshot [OF assms(1), of "n_ledger nd1" st] show ?thesis by (simp add: ledger_on_disk_def)
qed

text \<open>Settling a node whose ledger is on disk establishes both.\<close>

lemma settle_books:
  assumes ok: "sound_ledgers env" and disk: "ledger_on_disk env nd" and se: "settle env h nd = (r, nd')"
  shows "ledger_on_disk env nd'" and "ledger_canonical env nd'"
proof -
  show "ledger_canonical env nd'"
    using settle_chain(1) [OF se] settle_frame(1) [OF se] by (auto simp: ledger_canonical_def)
  define tip where "tip = (case select_canonical_tip (n_dag nd) of Some t \<Rightarrow> t | None \<Rightarrow> h)"
  show "ledger_on_disk env nd'"
    using se disk saved_snapshot [OF ok]
    unfolding settle_def Let_def tip_def [symmetric] ledger_on_disk_def
    by (auto split: option.splits sum.splits)
qed

definition books_settled :: "('pk, 'sg) environment \<Rightarrow> bytes32 \<Rightarrow> 'p node \<Rightarrow> bool" where
  "books_settled env g nd \<longleftrightarrow> (sound_ledgers env \<longrightarrow> ledger_on_disk env nd \<and> ledger_canonical env nd)"

interpretation settled: state_invariant env "books_settled env g" for env g
proof
  show "books_settled env g nd'"
    if "same_chain nd nd'" "same_books nd nd' \<or> save_fails env" "books_settled env g nd" for nd nd'
    using that saved_ok [OF sound_ledgers_saved, of env]
    by (auto simp: books_settled_def ledger_on_disk_def ledger_canonical_def same_chain_def same_books_def)
  show "books_settled env g nd3"
    if bk: "booked env b nd nd1" and ing: "ingest_block_only env b nd1 = (h, nd2)"
      and se: "settle env h nd2 = (r, nd3)" for nd nd1 nd2 nd3 and b h r
    unfolding books_settled_def
  proof
    assume ok: "sound_ledgers env"
    have "ledger_on_disk env nd2"
      using booked_on_disk [OF ok bk] ingest_ledger_tree [OF ing] ingest_frame(5) [OF ing]
      by (simp add: ledger_on_disk_def)
    from settle_books [OF ok this se] show "ledger_on_disk env nd3 \<and> ledger_canonical env nd3" by blast
  qed
qed

section \<open>Starting\<close>

text \<open>A fresh node has the empty ledger, and its only block leaves it empty.\<close>

lemma replay_idempotent:
  assumes "\<And>h l'. replay_step sha m l h = Inr l' \<Longrightarrow> l' = l"
  shows "try_fold (replay_step sha m) l order = Inr l' \<Longrightarrow> l' = l"
  using assms by (induction order) (auto split: sum.splits)

lemma fresh_books:
  assumes ok: "sound_ledgers env" and call: "start_fresh env i (base_node st) = Inr nd"
  shows "ledger_on_disk env nd" and "ledger_canonical env nd"
proof -
  note shape = start_fresh_shape [OF call]
  from call obtain st3 where sv:
    "save_ledger_state (sled_fault env) (bin env) ledger_default st3 = (Inr (), n_storage nd)"
    by (auto simp: start_fresh_def Let_def base_node_def genesis_applies unwrapped_def
        split: sum.splits prod.splits)
  show "ledger_on_disk env nd"
    using saved_snapshot [OF ok, of ledger_default st3] by (simp add: ledger_on_disk_def sv shape(4))
  have "l' = ledger_default" if "replay_step (sha3 env) (n_dag nd) ledger_default h = Inr l'" for h l'
    using that
    by (auto simp: replay_step_def ledger_step_def shape(1) ghostdag_new_def genesis_applies split: if_splits)
  then have "l = ledger_default" if "recompute_ledger (sha3 env) (n_dag nd) t = Some (Inr l)" for t l
    using that replay_idempotent [of "sha3 env" "n_dag nd" ledger_default]
    by (auto simp: recompute_ledger_def split: option.splits)
  then show "ledger_canonical env nd" by (auto simp: ledger_canonical_def shape(4))
qed

text \<open>What a start makes of the ledger of the node that wrote the disk, in whatever step it was stopped.\<close>

lemma restart_ledger:
  fixes nd nd' :: "'p node"
  assumes ok: "sound_ledgers env"
    and inv: "node_inv env (fixed_genesis_hash_for_network (sha3 env) i) nd"
    and disk: "ledger_on_disk env nd" and start: "start_node env i (n_storage nd) = Inr nd'"
  shows "n_ledger nd' = (case select_canonical_tip (n_dag nd) of
        None \<Rightarrow> n_ledger nd
      | Some t \<Rightarrow> (case recompute_ledger (sha3 env) (n_dag nd) t of
          Some (Inr l) \<Rightarrow> l | _ \<Rightarrow> n_ledger nd))"
    and "ledger_on_disk env nd'" and "ledger_canonical env nd'"
proof -
  let ?g = "fixed_genesis_hash_for_network (sha3 env) i" and ?l = "n_ledger nd"
  let ?f = "sled_fault env" and ?b = "bin env"
  have rel: "reliable env" using ok by (simp add: sound_ledgers_def)
  obtain nd2 :: "'p node" where "start_node env i (n_storage nd) = Inr nd2"
    and inv2: "node_inv env ?g nd2"
    and get: "hm_get (block_store (n_dag nd2)) = hm_get (block_store (n_dag nd))"
    and canon: "\<forall>t l. select_canonical_tip (n_dag nd2) = Some t \<longrightarrow>
      recompute_ledger (sha3 env) (n_dag nd2) t = Some (Inr l) \<longrightarrow> n_ledger nd2 = l"
    by (rule restart_same [OF rel inv])
  with start have eq: "nd2 = nd'" by simp
  have "gd_k (n_dag nd') = gd_k (n_dag nd)"
    using inv inv2 dag_reachable_k unfolding node_inv_def eq by metis
  then have same: "same_blocks (n_dag nd') (n_dag nd)" using get by (simp add: same_blocks_def eq)
  note invs = node_inv_dag [OF inv2, unfolded eq] node_inv_dag [OF inv]
  have tip: "select_canonical_tip (n_dag nd') = select_canonical_tip (n_dag nd)"
    and replay: "recompute_ledger (sha3 env) (n_dag nd') t = recompute_ledger (sha3 env) (n_dag nd) t" for t
    using same_canonical_tip [OF invs same] same_order [OF invs same] same_replay [OF same]
    by (simp_all add: recompute_ledger_def)
  obtain st1 where l: "load_ledger_state ?f ?b (n_storage nd) = (Inr (Some ?l), st1)"
    and t1: "blocks_tree st1 = blocks_tree (n_storage nd)" "ledger_tree st1 = ledger_tree (n_storage nd)"
    using disk rel
    by (auto simp: ledger_on_disk_def load_ledger_state_def read_entry_def db_op_def Let_def reliable_def
        reliable_db_def split: bind_splits)
  have "rel_option (\<lambda>bytes b. de_block ?b bytes = Some b) (blocks_tree (n_storage nd) ?g)
      (hm_get (block_store (n_dag nd)) ?g)" and "\<exists>gb. hm_get (block_store (n_dag nd)) ?g = Some gb"
    using inv unfolding node_inv_def by blast+
  then obtain bytes gb where gen: "blocks_tree (n_storage nd) ?g = Some bytes" "de_block ?b bytes = Some gb"
    by (auto simp: option_rel_Some2)
  obtain st2 where b: "load_block ?f ?b ?g st1 = (Inr (Some gb), st2)"
    and t2: "ledger_tree st2 = ledger_tree (n_storage nd)"
    using gen t1 rel by (simp add: load_block_def read_entry_def db_op_def Let_def reliable_def
        reliable_db_def)
  have "(case start_resumed env ?g gb (Some ?l) (base_node st2) of
        Inl e \<Rightarrow> Inl e
      | Inr nd \<Rightarrow> Inr (if n_history nd = [] then nd
          else nd\<lparr>n_target := difficulty_target (header (last (n_history nd)))\<rparr>)) = Inr nd'"
    using start unfolding start_node_def Let_def l b prod.case sum.case option.case .
  then obtain nd3 :: "'p node" where nd3: "start_resumed env ?g gb (Some ?l) (base_node st2) = Inr nd3"
    "n_dag nd' = n_dag nd3" "n_ledger nd' = n_ledger nd3" "n_storage nd' = n_storage nd3"
    by (auto split: sum.splits if_splits)
  then obtain nd0 :: "'p node" where nd0: "resume_ledger env (Some ?l) nd0 = Inr nd3"
    and t0: "ledger_tree (n_storage nd0) = ledger_tree (n_storage nd)"
    using t2 by (auto simp: start_resumed_def Let_def base_node_def resume_storage
        split: prod.splits sum.splits dest!: load_all_ledger)
  have dag: "n_dag nd0 = n_dag nd'" using resume_ledger_same [OF nd0] nd3(2) by simp
  show "n_ledger nd' = (case select_canonical_tip (n_dag nd) of
        None \<Rightarrow> n_ledger nd
      | Some t \<Rightarrow> (case recompute_ledger (sha3 env) (n_dag nd) t of
          Some (Inr l) \<Rightarrow> l | _ \<Rightarrow> n_ledger nd))"
    using nd0 tip replay
    by (auto simp: resume_ledger_def fall_back_def dag nd3(3) split: option.splits sum.splits)
  show "ledger_on_disk env nd'"
    using nd0 t0 disk saved_snapshot [OF ok]
    by (auto simp: resume_ledger_def fall_back_def ledger_on_disk_def nd3(3,4) split: option.splits sum.splits)
  show "ledger_canonical env nd'" using canon by (simp add: ledger_canonical_def eq)
qed

section \<open>Every run\<close>

lemma node_run_books:
  fixes nd :: "'p node"
  assumes run: "node_run env codec token i miner mining job lost nd pool" and ok: "sound_ledgers env"
  shows "ledger_on_disk env nd" and "job = None \<Longrightarrow> ledger_canonical env nd"
proof -
  let ?g = "fixed_genesis_hash_for_network (sha3 env) i"
  let ?Q = "\<lambda>lost :: velo_block list. guarded (books_settled env ?g :: 'p node \<Rightarrow> bool)"
  have rel: "reliable env" using ok by (simp add: sound_ledgers_def)
  have began: "ledger_on_disk env nd1" if "begin_mining env ?g miner nd pool = (Inr (b, nd1), pool')"
    for pool b pool' and nd nd1 :: "'p node"
    using that by (cases rule: begin_step) (use booked_on_disk [OF ok] in auto)
  have restarted: "?Q lost nd'"
    if run: "node_run env codec token i miner mining job lost nd pool" and disk: "ledger_on_disk env nd"
      and size: "dag_size nd < 2 ^ 32" and start: "start_node env i (n_storage nd) = Inr nd'"
    for job lost pool and nd nd' :: "'p node"
  proof -
    have "node_inv env ?g nd" using node_run_inv [OF run rel] size rel by (simp add: guarded_def node_sound_def)
    from restart_ledger(2,3) [OF ok this disk start] start_node_capacity [OF start] show ?thesis
      by (simp add: guarded_def books_settled_def)
  qed
  have "case job of None \<Rightarrow> ?Q lost nd | Some b \<Rightarrow> mining_from env codec token i miner mining ?Q b lost nd"
    using run
  proof (rule node_run_states)
    show "?Q [] nd" if start: "blocks_tree st = Map.empty" "start_node env i st = Inr nd" for st and nd :: "'p node"
    proof -
      obtain st1 nd0 where s: "start_fresh env i (base_node st1) = Inr nd0" "nd = nd0\<lparr>n_target := fill 15\<rparr>"
        by (rule start_node_fresh [OF start rel])
      then show ?thesis
        using fresh_books [OF ok s(1)] start_node_capacity [OF start(2)]
        by (simp add: guarded_def books_settled_def ledger_on_disk_def ledger_canonical_def)
    qed
    show "?Q lost nd'" if "?Q lost nd" "handle_p2p_events env ?g i ev nd = (r, nd')"
      for lost ev r and nd nd' :: "'p node"
      using settled.event_guarded [OF that(2,1)] .
    show "?Q lost nd'" if old: "?Q lost nd" and "begin_mining env ?g miner nd pool = (Inl nd', pool')"
      for lost pool pool' and nd nd' :: "'p node"
      using that(2)
    proof (cases rule: begin_step)
      case (idle nd1)
      then show ?thesis using settled.frame [OF idle(2,5)] old by (simp add: guarded_def)
    qed simp
    show "?Q lost nd'"
      if run: "node_run env codec token i miner mining None lost nd pool" and old: "?Q lost nd"
        and bm: "begin_mining env ?g miner nd pool = (Inr (b, nd1), pool')"
        and mb: "mine_block (sha3 env) (pow_new (n_target nd1)) b = Some (h, blk)"
        and se: "settle env h (store_mined env h blk nd1) = (r, nd')"
        and inj: "inj_on (sha3 env) (block_preimage ` set (n_history nd'))"
      for lost pool b pool' h blk r and nd nd1 nd' :: "'p node"
    proof -
      have "node_sound env ?g nd" using node_run_inv [OF run rel] by (simp add: guarded_def)
      note orph = mined_sound(2) [OF bm mb se node_run_signed [OF run] inj this]
      have "ledger_on_disk env (store_mined env h blk nd1)"
        using began [OF bm] by (simp add: ledger_on_disk_def store_mined_books)
      from settle_books [OF ok this se] old orph show ?thesis by (simp add: guarded_def books_settled_def)
    qed
    show "?Q lost nd'"
      if "node_run env codec token i miner mining None lost nd pool" "?Q lost nd" "dag_size nd < 2 ^ 32"
        "start_node env i (n_storage nd) = Inr nd'" for lost pool and nd nd' :: "'p node"
      using restarted [OF that(1) _ that(3,4)] that(2) ok by (simp add: guarded_def books_settled_def)
    show "?Q (lost @ [b]) nd'"
      if "node_run env codec token i miner mining None lost nd pool" "mining" "?Q lost nd"
        "begin_mining env ?g miner nd pool = (Inr (b, nd1), pool')" "dag_size nd1 < 2 ^ 32"
        "start_node env i (n_storage nd1) = Inr nd'" for lost pool b pool' and nd nd1 nd' :: "'p node"
      using restarted [OF node_run.book [OF that(1,2,4)] began [OF that(4)] that(5,6)] .
  qed
  then show "ledger_on_disk env nd" "job = None \<Longrightarrow> ledger_canonical env nd"
    using ok began by (cases job; auto simp: mining_from_def guarded_def books_settled_def)+
qed

section \<open>Stopped while mining\<close>

text \<open>
  A node that is stopped while it mines, and whose canonical order does not replay, starts with the
  ledger that it had booked: the coins of a block that was never mined, and its transactions as
  confirmed ones.
\<close>

lemma stopped_while_mining:
  fixes nd nd2 :: "'p node"
  assumes ok: "sound_ledgers env"
    and inv: "node_inv env (fixed_genesis_hash_for_network (sha3 env) i) nd"
    and begun: "begin_mining env g miner nd pool = (Inr (b, nd1), pool')"
    and tip: "select_canonical_tip (n_dag nd) = Some t"
    and stuck: "recompute_ledger (sha3 env) (n_dag nd) t = Some (Inl e)"
    and start: "start_node env i (n_storage nd1) = Inr nd2"
  shows "n_ledger nd2 = n_ledger nd1"
    and "ledger_supply (n_ledger nd2) + 50 * length (transactions b) =
      ledger_supply (n_ledger nd) + subsidy_total (block_height b)"
proof -
  note ahead = ledger_runs_ahead [OF begun] and bk = begin_mining_booked [OF begun]
  from restart_ledger(1) [OF ok node_inv_store [OF bk(2) inv] booked_on_disk [OF ok bk(1)] start] tip stuck
  show "n_ledger nd2 = n_ledger nd1" by (simp add: ahead(3))
  with ahead(1) show "ledger_supply (n_ledger nd2) + 50 * length (transactions b) =
      ledger_supply (n_ledger nd) + subsidy_total (block_height b)" by simp
qed

end
