(* ===== verification/Node_Properties.thy ===== *)
theory Node_Properties
  imports Node_Examples Node_Books
begin

text \<open>
  The promises of a whole node, in every state of every run: what it stores, what it refuses,
  what it accepts, what survives a restart, and its limits; with witnesses on the example node.
\<close>

section \<open>What a node stores\<close>


lemma ex_ledgers_saved: "ledgers_saved ex_env"
  using ex_env_reliable by (simp add: ledgers_saved_def plain_bincode_def)


text \<open>C37: Events refine the specification of a chain.  Whatever an event makes a node do (gossip,
  synchronisation of many blocks, orphans that are released in cascades, refused blocks and
  connections), its DAG, its ledger and its target change exactly as a list of accepted blocks
  changes them, one after the other: each is inserted, the ledger becomes the replay of the
  canonical order or, where that fails, the old ledger after the block, the target follows the
  canonical order; each passes every check against the chain left by the blocks before it, with a
  clock reading of this event; and the history grows by these blocks in this order.\<close>

theorem events_extend_chain:
  fixes nd nd' :: "'p node"
  assumes "node_run env codec token i miner mining job lost nd pool" and "ledgers_saved env"
    and "handle_p2p_events env (fixed_genesis_hash_for_network (sha3 env) i) i ev nd = (r, nd')"
    and "dag_size nd' < 2 ^ 32"
  shows "\<exists>bs. n_history nd' = n_history nd @ bs \<and>
    all_pass env (n_reads nd) (n_reads nd') (chain_of nd) bs \<and>
    chain_of nd' = fold (extend_chain env) bs (chain_of nd)"
proof -
  have "reliable env" using assms(2) by (simp add: ledgers_saved_def)
  from event_lets_in(2) [OF assms(3) _ assms(2,4)] node_run_inv [OF assms(1) this]
  show ?thesis by (auto simp: lets_in_def)
qed

theorem events_extend_chain_witness:
  "\<exists>bs. chain_of ex_next = fold (extend_chain ex_env) bs (chain_of ex_node) \<and> block_one \<in> set bs"
proof -
  obtain r where ev: "handle_p2p_events ex_env (fill 0) DEVNET_NETWORK_ID
      (Gossip_Message 7 block_one_message) ex_node = (r, ex_next)" by (rule ex_next_event)
  have size: "dag_size ex_next < 2 ^ 32" using ex_next_size by simp
  from events_extend_chain [OF ex_node_run ex_ledgers_saved _ size] ev obtain bs where
    bs: "n_history ex_next = n_history ex_node @ bs"
      "chain_of ex_next = fold (extend_chain ex_env) bs (chain_of ex_node)"
    by (auto simp: ex_genesis_hash)
  have "node_inv ex_env (fill 0) ex_next"
    using node_run_inv [OF ex_next_run ex_env_reliable] ex_env_reliable size
    by (simp add: guarded_def node_sound_def ex_genesis_hash)
  from history_get [OF this, of block_one] have "block_one \<in> set (n_history ex_next)"
    using ex_next_get by blast
  moreover have "block_one \<noteq> ex_genesis"
    by (rule notI, drule arg_cong [where f = block_height]) simp
  ultimately have "block_one \<in> set bs" using bs(1) by (auto simp: ex_node_shape(2))
  with bs(2) show ?thesis by blast
qed

text \<open>C10: No coin without a block.  In every state of every run, across orphan replays, side
  branches, failing replays, mining, and restarts that fall back to the snapshot on disk, all
  balances together are at most what the stored blocks issue, plus what the block issues that is
  being mined, plus what the blocks issue whose search was cut off by stopping the process: those
  blocks are booked and saved before they are mined.  Without mining, or if no tick was ever cut
  off, there is no coin but from stored blocks and the block being mined.  Ledgers are saved
  without error, and no saved ledger decodes to another one.\<close>

theorem coins_come_from_blocks:
  fixes nd :: "'p node"
  assumes "node_run env codec token i miner mining job lost nd pool" and "reliable env"
    and "ledger_codec_faithful (bin env)" and "dag_size nd < 2 ^ 32"
  shows "ledger_supply (n_ledger nd) \<le>
      (\<Sum>h \<in> dom (hm_get (block_store (n_dag nd))). block_issue (stored_block (n_dag nd) h)) +
      (case job of None \<Rightarrow> 0 | Some b \<Rightarrow> block_issue b) + sum_list (map block_issue lost) \<and>
    unat (ledger_balance (n_ledger nd) a) \<le>
      83238 * (dag_size nd + length lost + (case job of None \<Rightarrow> 0 | Some b \<Rightarrow> 1))"
proof -
  let ?j = "case job of None \<Rightarrow> 0 | Some b \<Rightarrow> block_issue b"
  from node_run_coins [OF assms(1,2)]
  have le: "ledger_supply (n_ledger nd) \<le> issued (n_dag nd) + (lost_issue lost + ?j)"
    using assms(2-4) by (simp add: guarded_def coins_backed_def sound_books_def books_backed_def)
  have "unat (ledger_balance (n_ledger nd) a) \<le> ledger_supply (n_ledger nd)"
    by (simp add: ledger_balance_def ledger_supply_def get_or_le_map_total)
  moreover have "lost_issue lost \<le> 83238 * length lost" by (rule lost_issue_le)
  moreover have "?j \<le> 83238 * (case job of None \<Rightarrow> 0 | Some b \<Rightarrow> 1)"
    by (simp add: block_issue_def subsidy_total_le split: option.split)
  ultimately show ?thesis
    using le issued_le [of "n_dag nd"] store_size_le [of "n_dag nd"]
    by (simp add: issued_def dag_size_def lost_issue_def)
qed

text \<open>The witness is in \<open>Spec2Isabelle\<close>, on a node that mines.\<close>

text \<open>C5: In every state of every run the DAG is one that insertion can build, so everything
  proved of such managers applies to it; history, DAG and disk hold the same blocks; and the
  mempool holds only transactions with a valid signature and a positive amount.\<close>

theorem node_state_consistent:
  assumes "node_run env codec token i miner mining job lost nd pool" and "reliable env"
    and "dag_size nd < 2 ^ 32"
  shows "dag_reachable 3 (n_dag nd) \<and> n_history nd = map snd (block_store (n_dag nd)) \<and>
    hm_get (block_store (n_dag nd)) =
      (\<lambda>h. Option.bind (blocks_tree (n_storage nd) h) (de_block (bin env))) \<and>
    mempool_signed (dili env) (sha3 env) pool"
proof -
  note run = node_run_inv [OF assms(1,2)]
  have inv: "node_inv env (fixed_genesis_hash_for_network (sha3 env) i) nd"
    using run assms(2,3) by (simp add: guarded_def node_sound_def)
  have "hm_get (block_store (n_dag nd)) h = Option.bind (blocks_tree (n_storage nd) h) (de_block (bin env))"
    for h
  proof -
    have "rel_option (\<lambda>bytes b. de_block (bin env) bytes = Some b)
        (blocks_tree (n_storage nd) h) (hm_get (block_store (n_dag nd)) h)"
      using inv unfolding node_inv_def by blast
    then show ?thesis by (auto elim: option.rel_cases)
  qed
  then show ?thesis using inv run unfolding node_inv_def by blast
qed

theorem node_state_consistent_witness:
  "dag_reachable 3 (n_dag ex_next) \<and>
   Option.bind (blocks_tree (n_storage ex_next) (fill 1)) (de_block plain_bincode) = Some block_one"
proof -
  have size: "dag_size ex_next < 2 ^ 32" using ex_next_size by simp
  note c = node_state_consistent [OF ex_next_run ex_env_reliable size]
  then have "hm_get (block_store (n_dag ex_next)) =
      (\<lambda>h. Option.bind (blocks_tree (n_storage ex_next) h) (de_block (bin ex_env)))" by blast
  from trans [OF fun_cong [OF this [symmetric], of "fill 1"] ex_next_get] c show ?thesis by simp
qed

section \<open>What a node does with a block\<close>

text \<open>C6: Handling a block from the network always returns, without panic, storage error or
  endless loop, however many orphans it releases: the fuel of one more than the pool's capacity
  is enough.\<close>

theorem validation_returns:
  assumes "node_run env codec token i miner mining job lost nd pool" and "reliable env"
    and "0 < window_size (difficulty_mgr env)" and "Suc (load nd) < 2 ^ 32"
  shows "fst (validate env blk source nd) = Inr ()"
proof -
  obtain r nd' where v: "validate env blk source nd = (r, nd')" by fastforce
  have g: "node_sound env (fixed_genesis_hash_for_network (sha3 env) i) nd"
    "orphan_pool_inv (n_orphans nd)"
    using node_run_inv [OF assms(1,2)] by (simp_all add: guarded_def)
  have "buffered (n_orphans nd) < ingest_fuel nd"
    using g(2) by (simp add: orphan_pool_inv_def ingest_fuel_def)
  from validate_enough_fuel [OF v [unfolded validate_def] g(2) this]
    validate_no_crash [OF assms(2,3) v [unfolded validate_def] g assms(4)]
  show ?thesis by (simp add: v crash_def)
qed

theorem validation_returns_witness:
  "fst (validate ex_env greedy_block None ex_node) = Inr ()"
  by (rule validation_returns [OF ex_node_run ex_env_reliable ex_env_window])
    (simp add: load_def ex_node_size ex_node_pool)

text \<open>C15: A block that fails a content check, the target check or the proof of work changes
  nothing but the sender's record: chain, ledger, target, orphans and difficulty log stay as
  they were, and if the block was not known already its sender is charged with a violation.\<close>

theorem invalid_block_refused:
  assumes "\<not> content_ok env blk \<or> \<not> work_ok env (n_target nd) blk"
    and "validate env blk source nd = (r, nd')"
  shows "same_chain nd nd' \<and> n_ledger nd' = n_ledger nd \<and> n_orphans nd' = n_orphans nd \<and>
    n_log nd' = n_log nd \<and>
    (fst (load_block (sled_fault env) (bin env) (calculate_hash (sha3 env) blk) (n_storage nd)) = Inr None \<longrightarrow>
       r = Inr () \<and>
       n_guard nd' = n_guard (record_violation_and_maybe_ban env source nd))"
proof -
  let ?load = "load_block (sled_fault env) (bin env) (calculate_hash (sha3 env) blk) (n_storage nd)"
  obtain rl st where ld: "?load = (rl, st)" by fastforce
  have tree: "blocks_tree st = blocks_tree (n_storage nd)"
    using load_block_trees [of "sled_fault env" "bin env" "calculate_hash (sha3 env) blk" "n_storage nd"]
    by (simp add: ld)
  have guard: "n_guard (record_violation_and_maybe_ban env source (nd\<lparr>n_storage := st\<rparr>)) =
      n_guard (record_violation_and_maybe_ban env source nd)"
    by (auto simp: record_violation_and_maybe_ban_def tick_def emit_def Let_def
        split: option.split prod.split)
  consider e where "rl = Inl e" | b where "rl = Inr (Some b)" | "rl = Inr None"
    by (cases rl) (auto split: option.split)
  then show ?thesis
  proof cases
    case 1
    then show ?thesis
      using assms(2) ld tree by (auto simp: validate_def ingest_fuel_def same_chain_def)
  next
    case 2
    then show ?thesis
      using assms(2) ld tree by (auto simp: validate_def ingest_fuel_def same_chain_def)
  next
    case 3
    from validate_rejects [OF ld [unfolded 3] assms(1)] assms(2) show ?thesis
      using tree guard violation_reads [of "nd\<lparr>n_storage := st\<rparr>" env source]
      by (auto simp: same_chain_def ld)
  qed
qed

theorem invalid_block_refused_witness:
  "\<exists>r nd'. validate ex_env greedy_block (Some 7) ex_node = (r, nd') \<and> same_chain ex_node nd'"
proof -
  obtain r nd' where v: "validate ex_env greedy_block (Some 7) ex_node = (r, nd')" by fastforce
  have "\<not> content_ok ex_env greedy_block \<or> \<not> work_ok ex_env (n_target ex_node) greedy_block"
    using greedy_block_content by blast
  from invalid_block_refused [OF this v] v show ?thesis by blast
qed

text \<open>C14: Completeness of the checks: a new block that passes them, carries the node's current
  target, is not too far in the future and applies to the node's ledger is in the DAG when the
  call returns, whatever the orphans it released did.\<close>

theorem valid_block_accepted:
  assumes "node_run env codec token i miner mining job lost nd pool" and "reliable env"
    and "0 < window_size (difficulty_mgr env)" and "Suc (dag_size nd) < 2 ^ 32"
    and "hm_get (block_store (n_dag nd)) (calculate_hash (sha3 env) blk) = None"
    and "block_valid env (n_dag nd) blk" and "difficulty_target (header blk) = n_target nd"
    and "timestamp (header blk) \<le>
      saturating_add (wall_clock env (n_reads nd)) MAX_FUTURE_DRIFT_SECS"
    and "apply_block (sha3 env) (n_ledger nd) blk = (Inr (), l)"
    and "ser_ledger (bin env) l = Some bytes"
  shows "hm_get (block_store (n_dag (snd (validate env blk source nd)))) (calculate_hash (sha3 env) blk) =
    Some blk"
proof -
  obtain r nd' where v: "validate env blk source nd = (r, nd')" by fastforce
  have inv: "node_inv env (fixed_genesis_hash_for_network (sha3 env) i) nd"
    using node_run_inv [OF assms(1,2)] assms(2,4) by (simp add: guarded_def node_sound_def)
  from validate_accepts [OF assms(2,3,10) inv assms(4-9) v] show ?thesis by (simp add: v)
qed

theorem valid_block_accepted_witness:
  "hm_get (block_store (n_dag (snd (validate ex_env block_one (Some 7) ex_node)))) (fill 1) =
     Some block_one"
proof -
  obtain l where l: "apply_block (sha3 ex_env) (n_ledger ex_node) block_one = (Inr (), l)"
    using block_one_applies by (auto simp: ex_node_shape)
  have "hm_get (block_store (n_dag (snd (validate ex_env block_one (Some 7) ex_node))))
      (calculate_hash (sha3 ex_env) block_one) = Some block_one"
  proof (rule valid_block_accepted [OF ex_node_run ex_env_reliable ex_env_window _ _
        block_one_valid _ _ l ex_ledger_bytes])
    show "timestamp (header block_one) \<le>
        saturating_add (wall_clock ex_env (n_reads ex_node)) MAX_FUTURE_DRIFT_SECS"
      by (simp add: saturating_add_def MAX_FUTURE_DRIFT_SECS_def)
  qed (simp_all add: ex_node_size height_digest_block ex_node_get ex_node_shape(3))
  then show ?thesis by (simp add: height_digest_block)
qed

section \<open>Mining\<close>

text \<open>C26: A miner whose clock is behind the timestamp of its tip mines for nothing: whatever nonce
  it finds, no node that holds the tip takes the block into its DAG.  The tick does not compare
  the two times, and a received tip may be half a minute ahead of the clock.\<close>

theorem slow_clock_mines_in_vain:
  assumes "hm_get (block_store (n_dag nd)) (mining_tip g (n_dag nd)) = Some tip"
    and "hm_get (block_store (n_dag peer)) (mining_tip g (n_dag nd)) = Some tip"
    and "now < timestamp (header tip)"
  shows "same_chain peer
    (snd (validate env (with_nonce (block_template env g miner now txs nd) n) source peer))"
proof -
  let ?b = "with_nonce (block_template env g miner now txs nd) n"
  obtain r peer' where v: "validate env ?b source peer = (r, peer')" by fastforce
  have times: "parent_times (n_dag peer) ?b = {timestamp (header tip)}"
    by (simp add: parent_times_def stored_block_def assms(2))
  have no: "\<not> admissible env peer1 ?b" if "same_chain peer peer1" for peer1
    using that times assms(3) by (auto simp: admissible_def block_valid_def same_chain_def)
  from v [unfolded validate_def ingest_fuel_def] have "same_chain peer peer'"
    by (cases rule: validate_step) (use no in blast)+
  then show ?thesis by (simp add: v)
qed

theorem slow_clock_mines_in_vain_witness:
  "same_chain ex_next
     (snd (validate ex_env (with_nonce (block_template ex_env (fill 0) (fill 3) 1699999999 [] ex_node) 5)
       (Some 7) ex_next))"
proof (rule slow_clock_mines_in_vain [where tip = ex_genesis])
  have "mining_tip (fill 0) (n_dag ex_node) \<in> dom (hm_get (block_store (n_dag ex_node)))"
    by (rule mining_tip_stored(1) [OF ex_node_inv])
  then have tip: "mining_tip (fill 0) (n_dag ex_node) = fill 0"
    by (auto simp: ex_node_get split: if_splits)
  then show "hm_get (block_store (n_dag ex_node)) (mining_tip (fill 0) (n_dag ex_node)) = Some ex_genesis"
    by (simp add: ex_node_get)
  show "hm_get (block_store (n_dag ex_next)) (mining_tip (fill 0) (n_dag ex_node)) = Some ex_genesis"
    by (simp add: tip ex_next_genesis)
  show "1699999999 < timestamp (header ex_genesis)" by (simp add: ex_genesis_time)
qed

section \<open>Restarting\<close>

text \<open>C4: A node that stops between two steps of its main loop and starts again on its database is
  the node it was: starting succeeds, and the new node has the same blocks under the same hashes,
  the same colours, scores, canonical tip and order of every tip, and the same ledger, whether or
  not the canonical order replays: before the stop the ledger is what is saved on disk, and it is
  the replay of the canonical order whenever that replay succeeds.  A node that is stopped while it
  mines starts with the same chain, and with that replay or, if it fails, with the ledger it had
  already booked the block in.  Ledgers decode to what was encoded.\<close>

theorem restart_reproduces_chain:
  fixes nd :: "'p node"
  assumes "node_run env codec token i miner mining job lost nd pool" and "reliable env"
    and "ledger_codec_ok (bin env)" and "dag_size nd < 2 ^ 32"
  shows "\<exists>nd' :: 'p node. start_node env i (n_storage nd) = Inr nd' \<and>
    hm_get (block_store (n_dag nd')) = hm_get (block_store (n_dag nd)) \<and>
    ghostdag_cache (n_dag nd') = ghostdag_cache (n_dag nd) \<and>
    select_canonical_tip (n_dag nd') = select_canonical_tip (n_dag nd) \<and>
    (\<forall>t. get_linear_sort (n_dag nd') t = get_linear_sort (n_dag nd) t) \<and>
    (if job = None then n_ledger nd' = n_ledger nd
     else n_ledger nd' =
       (case select_canonical_tip (n_dag nd) of
          None \<Rightarrow> n_ledger nd
        | Some t \<Rightarrow> (case recompute_ledger (sha3 env) (n_dag nd) t of
            Some (Inr l) \<Rightarrow> l | _ \<Rightarrow> n_ledger nd)))"
proof -
  let ?g = "fixed_genesis_hash_for_network (sha3 env) i"
  have ok: "sound_ledgers env" using assms(2,3) by (simp add: sound_ledgers_def)
  have inv: "node_inv env ?g nd"
    using node_run_inv [OF assms(1,2)] assms(2,4) by (simp add: guarded_def node_sound_def)
  from restart_chain [OF assms(2) inv refl] obtain nd' :: "'p node" where
    nd': "start_node env i (n_storage nd) = Inr nd'"
    "hm_get (block_store (n_dag nd')) = hm_get (block_store (n_dag nd))"
    "ghostdag_cache (n_dag nd') = ghostdag_cache (n_dag nd)"
    "select_canonical_tip (n_dag nd') = select_canonical_tip (n_dag nd)"
    "\<forall>t. get_linear_sort (n_dag nd') t = get_linear_sort (n_dag nd) t" by blast
  note books = node_run_books [OF assms(1) ok]
  note led = restart_ledger(1) [OF ok inv books(1) nd'(1)]
  have "n_ledger nd' = n_ledger nd" if "job = None"
    using led books(2) [OF that] by (auto simp: ledger_canonical_def split: option.splits sum.splits)
  with nd' led show ?thesis by auto
qed

lemma ex_ledger_codec: "ledger_codec_ok (bin ex_env)"
  using plain_ledger_ok by (simp add: ledger_codec_ok_def)

theorem restart_reproduces_chain_witness:
  "\<exists>nd' :: nat node. start_node ex_env DEVNET_NETWORK_ID (n_storage ex_next) = Inr nd' \<and>
     hm_get (block_store (n_dag nd')) (fill 1) = Some block_one \<and> n_ledger nd' = n_ledger ex_next"
proof -
  have size: "dag_size ex_next < 2 ^ 32" using ex_next_size by simp
  obtain nd' :: "nat node" where
    "start_node ex_env DEVNET_NETWORK_ID (n_storage ex_next) = Inr nd'"
    "hm_get (block_store (n_dag nd')) = hm_get (block_store (n_dag ex_next))"
    "n_ledger nd' = n_ledger ex_next"
    using restart_reproduces_chain [OF ex_next_run ex_env_reliable ex_ledger_codec size] by auto
  then show ?thesis by (auto simp: ex_next_get)
qed

text \<open>C25: One stored entry that does not decode is enough for the node to forget its chain: it starts
  all the same, with the genesis block alone, the empty ledger and the initial target, whatever
  ledger was saved and however many blocks are on the disk.\<close>

theorem corrupt_block_forgets_chain:
  assumes "reliable_db (sled_fault env)" and "finite (dom (blocks_tree st))"
    and "blocks_tree st (fixed_genesis_hash_for_network (sha3 env) i) = Some gbytes"
    and "de_block (bin env) gbytes = Some (fixed_genesis_block_for_network i)"
    and "blocks_tree st h = Some bad" and "de_block (bin env) bad = None"
  shows "\<exists>nd :: 'p node. start_node env i st = Inr nd \<and>
    n_history nd = [fixed_genesis_block_for_network i] \<and>
    (\<forall>x. hm_get (block_store (n_dag nd)) x =
       (if x = fixed_genesis_hash_for_network (sha3 env) i
        then Some (fixed_genesis_block_for_network i) else None)) \<and>
    n_ledger nd = ledger_default \<and> n_target nd = fill 15 \<and>
    blocks_tree (n_storage nd) = blocks_tree st"
  by (rule corrupt_block_start [OF assms, where ?'p = 'p]) (auto simp: ghostdag_new_def)

theorem corrupt_block_forgets_chain_witness:
  "\<exists>nd :: nat node. start_node ex_env DEVNET_NETWORK_ID
       ((n_storage ex_next)\<lparr>blocks_tree := (blocks_tree (n_storage ex_next))(fill 9 \<mapsto> [])\<rparr>) = Inr nd \<and>
     n_history nd = [ex_genesis] \<and> blocks_tree (n_storage nd) (fill 1) \<noteq> None"
proof -
  have "node_inv ex_env (fill 0) ex_next"
    using node_run_inv [OF ex_next_run ex_env_reliable] ex_env_reliable ex_next_size
    by (simp add: guarded_def node_sound_def ex_genesis_hash)
  then have tree: "rel_option (\<lambda>bytes b. de_block plain_bincode bytes = Some b)
      (blocks_tree (n_storage ex_next) h) (hm_get (block_store (n_dag ex_next)) h)" for h
    by (simp add: node_inv_def)
  have "(blocks_tree (n_storage ex_next) h = None) = (hm_get (block_store (n_dag ex_next)) h = None)" for h
    using tree [of h] by (auto elim: option.rel_cases)
  then have "dom (blocks_tree (n_storage ex_next)) = dom (hm_get (block_store (n_dag ex_next)))"
    by (auto simp: dom_def)
  then have fin: "finite (dom (blocks_tree (n_storage ex_next)))"
    using hm.set_enum [of "block_store (n_dag ex_next)"] by (metis List.finite_set)
  obtain gbytes where g: "blocks_tree (n_storage ex_next) (fill 0) = Some gbytes"
    "de_block plain_bincode gbytes = Some ex_genesis"
    using tree [of "fill 0"] by (auto simp: ex_next_genesis elim: option.rel_cases)
  obtain bytes where b: "blocks_tree (n_storage ex_next) (fill 1) = Some bytes"
    using tree [of "fill 1"] by (auto simp: ex_next_get elim: option.rel_cases)
  have bad: "de_block plain_bincode [] = None"
    by (simp add: plain_bincode_def dec_block_def dec_header_def dec_pair_def dec_as_def dec_u64_def dec_fixed_def)
  show ?thesis
    using corrupt_block_forgets_chain [where env = ex_env and i = DEVNET_NETWORK_ID and h = "fill 9" and bad = "[]"
        and gbytes = gbytes and ?'p = nat and
        st = "(n_storage ex_next)\<lparr>blocks_tree := (blocks_tree (n_storage ex_next))(fill 9 \<mapsto> [])\<rparr>"]
      g b bad fin ex_env_reliable
    by (auto simp: ex_genesis_hash reliable_def)
qed

section \<open>Limits\<close>

text \<open>The orphan pool never holds more than 1024 blocks, its counter is the number of blocks
  it holds, and both are true in every state of every run, whatever the database does.\<close>

theorem orphans_bounded:
  assumes "node_run env codec token i miner mining job lost nd pool"
  shows "current_size (n_orphans nd) = (\<Sum>h\<in>UNIV. length (get_or [] (waiting_on (n_orphans nd)) h)) \<and>
    current_size (n_orphans nd) \<le> 1024"
  using node_run_pool [OF assms]
  by (simp add: guarded_def orphan_pool_inv_def buffered_def ORPHAN_POOL_MAX_def)

theorem orphans_bounded_witness: "current_size (n_orphans ex_next) \<le> 1024"
  using orphans_bounded [OF ex_next_run] by blast

text \<open>C40: As long as only counted connections are closed, the guard's counters are the numbers of
  live connections, and there are never more than 2 of one peer, 4 from one address and 128 in
  all.\<close>

theorem connection_limits:
  assumes "guard_run g live"
  shows "unat (get_or 0 (connections_per_peer g) p) = peer_count live p \<and> peer_count live p \<le> 2 \<and>
    unat (get_or 0 (connections_per_ip g) ip) = ip_count live ip \<and> ip_count live ip \<le> 4 \<and>
    unat (total_connections g) = length live \<and> length live \<le> 128"
  using guard_run_tracks [OF assms] unfolding guard_tracks_def by blast

lemma one_connection:
  "guard_run (snd (on_connection_established 0 (peer_guard_new :: (nat, nat) peer_guard) 7 (Some 9)))
     [(7, Some 9)]"
proof -
  obtain d g where e: "on_connection_established 0 (peer_guard_new :: (nat, nat) peer_guard) 7 (Some 9) =
      (d, g)" by fastforce
  then have "d = Allow"
    by (auto simp: on_connection_established_def is_banned_def peer_guard_new_def guard_consts Let_def)
  then show ?thesis using guard_run.established [OF guard_run.start e] by (simp add: e)
qed

theorem connection_limits_witness:
  "unat (get_or 0 (connections_per_peer
     (snd (on_connection_established 0 (peer_guard_new :: (nat, nat) peer_guard) 7 (Some 9)))) 7) = 1"
  using connection_limits [OF one_connection, of 7 9] by simp

text \<open>The limits do not survive the event loop, which reports the end of refused connections
  too.  Peers 1 and 2 hold two connections each from one address; a connection of peer 3 from
  that address is refused and closed; its next one is allowed, the fifth that is open from the
  address.\<close>

theorem refused_close_frees_a_slot:
  "fst (guard_events now (peer_guard_new :: (nat, 'i) peer_guard)
     [Established 1 (Some ip), Established 1 (Some ip), Established 2 (Some ip), Established 2 (Some ip),
      Established 3 (Some ip), Closed 3 (Some ip), Established 3 (Some ip)]) =
   [Allow, Allow, Allow, Allow, RejectOverIpLimit, Allow]"
  by (simp add: on_connection_established_def on_connection_closed_def is_banned_def
      peer_guard_new_def guard_consts release_def saturating_sub_def Let_def get_or_def word_le_nat_alt)

text \<open>A peer with a clean record is banned by its fifth violation and not before; the ban is
  reported for one hour from that violation and lifted, with the record wiped, by the first
  query after it.\<close>

theorem fifth_violation_bans:
  assumes "violations g p = None" and "banned_until g p = None" and "length ts < 2 ^ 32 - 1"
  shows "(fst (is_banned now (violate (ts @ [t]) g p) p) \<longleftrightarrow>
      5 \<le> length (ts @ [t]) \<and> now < t + 3600000000000) \<and>
    (5 \<le> length (ts @ [t]) \<and> t + 3600000000000 \<le> now \<longrightarrow>
      violations (snd (is_banned now (violate (ts @ [t]) g p) p)) p = None)"
  using violate_banned [OF assms, of t]
  by (auto simp: is_banned_iff BAN_DURATION_def is_banned_def split: if_splits)

theorem fifth_violation_bans_witness:
  "fst (is_banned 1000 (violate [1, 2, 3, 4, 5] (peer_guard_new :: (nat, nat) peer_guard) 7) 7)"
  using fifth_violation_bans [of "peer_guard_new :: (nat, nat) peer_guard" 7 "[1, 2, 3, 4]" 1000 5]
  by (simp add: peer_guard_new_def)

end
