(* ===== verification/Hex_Text.thy ===== *)
theory Hex_Text
  imports Prelude
begin

text \<open>
  Text as the node's command line handles it (\<^verbatim>\<open>vdag-node/src/main.rs\<close>): the standard library's
  integer parser, slices of a \<^verbatim>\<open>&str\<close>, and the two hexadecimal helpers.  A \<^typ>\<open>string\<close> is the list
  of the bytes of a \<^verbatim>\<open>str\<close>, its UTF-8 encoding.
\<close>

section \<open>Integers in text\<close>

text \<open>\<^verbatim>\<open>char::to_digit\<close> on an ASCII character.\<close>

definition to_digit :: "nat \<Rightarrow> char \<Rightarrow> nat option" where
  "to_digit radix c =
     (let n = of_char c :: nat;
          d = (if 48 \<le> n \<and> n \<le> 57 then Some (n - 48)
               else if 97 \<le> n \<and> n \<le> 122 then Some (n - 87)
               else if 65 \<le> n \<and> n \<le> 90 then Some (n - 55)
               else None)
      in case d of None \<Rightarrow> None | Some v \<Rightarrow> if v < radix then Some v else None)"

primrec digits_value :: "nat \<Rightarrow> 'a::len word \<Rightarrow> string \<Rightarrow> 'a word option" where
  "digits_value radix acc [] = Some acc"
| "digits_value radix acc (c # cs) =
     (case to_digit radix c of
        None \<Rightarrow> None
      | Some d \<Rightarrow>
          (case checked_mul acc (of_nat radix) of
             None \<Rightarrow> None
           | Some x \<Rightarrow>
               (case checked_add x (of_nat d) of
                  None \<Rightarrow> None
                | Some y \<Rightarrow> digits_value radix y cs)))"

text \<open>
  \<^verbatim>\<open>from_str_radix\<close> of an unsigned type, with \<^verbatim>\<open>str::parse\<close> at radix ten: a leading plus sign is
  accepted, a lone sign and the empty text are not.
\<close>

definition parse_unsigned :: "nat \<Rightarrow> string \<Rightarrow> 'a::len word option" where
  "parse_unsigned radix s =
     (if s = [] \<or> s = ''+'' \<or> s = ''-'' then None
      else if hd s = CHR ''+'' then digits_value radix 0 (tl s)
      else digits_value radix 0 s)"

section \<open>Slices\<close>

text \<open>A position is a character boundary unless the byte there continues a character.\<close>

definition char_boundary :: "string \<Rightarrow> nat \<Rightarrow> bool" where
  "char_boundary s i \<longleftrightarrow>
     i = length s \<or>
     i < length s \<and> \<not> (128 \<le> (of_char (s ! i) :: nat) \<and> (of_char (s ! i) :: nat) < 192)"

text \<open>\<^verbatim>\<open>&s[i..j]\<close>, \<^const>\<open>None\<close> where it panics.\<close>

definition slice :: "string \<Rightarrow> nat \<Rightarrow> nat \<Rightarrow> string option" where
  "slice s i j =
     (if i \<le> j \<and> char_boundary s i \<and> char_boundary s j then Some (take (j - i) (drop i s))
      else None)"

section \<open>Hexadecimal\<close>

definition hex_digit :: "nat \<Rightarrow> char" where
  "hex_digit d = char_of (if d < 10 then 48 + d else 87 + d)"

definition encode_hex :: "u8 list \<Rightarrow> string" where
  "encode_hex bytes = concat (map (\<lambda>b. [hex_digit (unat b div 16), hex_digit (unat b mod 16)]) bytes)"

datatype hex_error = SlicePanic | BadDigit

text \<open>\<^verbatim>\<open>(0..s.len()).step_by(2).map(..).collect()\<close>: the first error, or the first panic, ends it.\<close>

function decode_from :: "string \<Rightarrow> nat \<Rightarrow> (hex_error, u8 list) result" where
  "decode_from s i =
     (if i < length s then
        (case slice s i (i + 2) of
           None \<Rightarrow> Inl SlicePanic
         | Some t \<Rightarrow>
             (case parse_unsigned 16 t of
                None \<Rightarrow> Inl BadDigit
              | Some b \<Rightarrow>
                  (case decode_from s (i + 2) of
                     Inl e \<Rightarrow> Inl e
                   | Inr bs \<Rightarrow> Inr (b # bs))))
      else Inr [])"
  by pat_completeness auto

termination by (relation "measure (\<lambda>(s, i). length s - i)") auto

declare decode_from.simps [simp del]

definition decode_hex :: "string \<Rightarrow> (hex_error, u8 list) result" where
  "decode_hex s = decode_from s 0"

section \<open>Decoding what was encoded\<close>

lemma length_encode_hex [simp]: "length (encode_hex bytes) = 2 * length bytes"
  by (induction bytes) (simp_all add: encode_hex_def)

lemma encode_hex_Nil [simp]: "encode_hex [] = []"
  by (simp add: encode_hex_def)

lemma encode_hex_Cons:
  "encode_hex (b # bs) = [hex_digit (unat b div 16), hex_digit (unat b mod 16)] @ encode_hex bs"
  by (simp add: encode_hex_def)

lemma of_char_hex_digit:
  "d < 16 \<Longrightarrow> (of_char (hex_digit d) :: nat) = (if d < 10 then 48 + d else 87 + d)"
  by (simp add: hex_digit_def)

lemma to_digit_hex_digit: "d < 16 \<Longrightarrow> to_digit 16 (hex_digit d) = Some d"
  by (auto simp: to_digit_def Let_def of_char_hex_digit)

lemma hex_digit_x: "d < 16 \<Longrightarrow> hex_digit d \<noteq> CHR ''x''"
proof
  assume "d < 16" and "hex_digit d = CHR ''x''"
  from arg_cong [OF this(2), of "of_char :: char \<Rightarrow> nat"] show False
    using of_char_hex_digit [OF \<open>d < 16\<close>] \<open>d < 16\<close> by (simp split: if_splits)
qed

lemma hex_digit_ascii: "d < 16 \<Longrightarrow> (of_char (hex_digit d) :: nat) < 128"
  by (simp add: of_char_hex_digit)

lemma encode_hex_digits: "set (encode_hex bytes) \<subseteq> hex_digit ` {..<16}"
proof -
  have "unat (b :: u8) div 16 < 16" for b
    using unsigned_less [of b, where ?'a = nat] by (simp add: less_mult_imp_div_less)
  then show ?thesis by (auto simp: encode_hex_def)
qed

lemma encode_hex_ascii: "\<forall>c \<in> set (encode_hex bytes). (of_char c :: nat) < 128"
  using encode_hex_digits [of bytes] hex_digit_ascii by blast

lemma encode_hex_no_x: "CHR ''x'' \<notin> set (encode_hex bytes)"
proof
  assume "CHR ''x'' \<in> set (encode_hex bytes)"
  then obtain d where "d < 16" "CHR ''x'' = hex_digit d" using encode_hex_digits by blast
  then show False by (metis hex_digit_x)
qed

lemma char_boundary_ascii:
  "\<forall>c \<in> set s. (of_char c :: nat) < 128 \<Longrightarrow> i \<le> length s \<Longrightarrow> char_boundary s i"
  using nth_mem [of i s] by (fastforce simp: char_boundary_def)

lemma times16: "q < 16 \<Longrightarrow> unat (of_nat q * 16 :: u8) = q * 16"
proof -
  assume "q < 16"
  then have "unat (of_nat (q * 16) :: u8) = q * 16" by (subst unat_of_nat) simp
  then show ?thesis by (simp only: of_nat_mult of_nat_numeral)
qed

lemma parse_byte:
  "parse_unsigned 16 [hex_digit (unat (b :: u8) div 16), hex_digit (unat b mod 16)] = Some b"
proof -
  have hi: "unat b div 16 < 16" using unsigned_less [of b, where ?'a = nat] by (simp add: less_mult_imp_div_less)
  have lo: "unat b mod 16 < 16" by simp
  have plus: "hex_digit (unat b div 16) \<noteq> CHR ''+''"
  proof
    assume "hex_digit (unat b div 16) = CHR ''+''"
    from arg_cong [OF this, of "of_char :: char \<Rightarrow> nat"] show False
      using of_char_hex_digit [OF hi] by (simp split: if_splits)
  qed
  have h: "unat (of_nat (unat b div 16) :: u8) = unat b div 16" using hi by (simp add: unat_of_nat)
  have l: "unat (of_nat (unat b mod 16) :: u8) = unat b mod 16" using lo by (simp add: unat_of_nat)
  have b: "of_nat (unat b div 16) * 16 + of_nat (unat b mod 16) = b"
  proof -
    have "of_nat (unat b div 16 * 16 + unat b mod 16) = b" by (simp only: div_mult_mod_eq of_nat_unat ucast_id)
    then show ?thesis by (simp only: of_nat_add of_nat_mult of_nat_numeral)
  qed
  have m1: "checked_mul (0 :: u8) 16 = Some 0" by (simp add: checked_mul_Some_iff)
  have a1: "checked_add (0 :: u8) (of_nat (unat b div 16)) = Some (of_nat (unat b div 16))"
    using hi by (simp add: checked_add_Some_iff h)
  have m2: "checked_mul (of_nat (unat b div 16) :: u8) 16 = Some (of_nat (unat b div 16) * 16)"
    unfolding checked_mul_Some_iff by (simp only: h times16 [OF hi]) simp
  have "unat (of_nat (unat b div 16) * 16 :: u8) = unat b div 16 * 16"
    using times16 [OF hi] by simp
  then have a2: "checked_add (of_nat (unat b div 16) * 16 :: u8) (of_nat (unat b mod 16)) = Some b"
    using unsigned_less [of b, where ?'a = nat] by (simp add: checked_add_Some_iff l b)
  show ?thesis using plus
    by (simp add: parse_unsigned_def to_digit_hex_digit [OF hi] to_digit_hex_digit [OF lo] m1 a1 m2 a2)
qed

lemma encode_hex_append: "encode_hex (xs @ ys) = encode_hex xs @ encode_hex ys"
  by (simp add: encode_hex_def)

text \<open>The loop over a text that begins with encoded bytes decodes them and goes on behind them.\<close>

lemma decode_from_step:
  assumes "\<forall>c \<in> set rest. (of_char c :: nat) < 128"
  shows "decode_from (encode_hex pre @ encode_hex [b] @ rest) (2 * length pre) =
    (case decode_from (encode_hex (pre @ [b]) @ rest) (2 * length (pre @ [b])) of
       Inl e \<Rightarrow> Inl e | Inr bs \<Rightarrow> Inr (b # bs))"
proof -
  let ?s = "encode_hex pre @ encode_hex [b] @ rest"
  have ascii: "\<forall>c \<in> set ?s. (of_char c :: nat) < 128" using assms encode_hex_ascii by auto
  have len: "2 * length pre + 2 \<le> length ?s" by simp
  have sl: "slice ?s (2 * length pre) (2 * length pre + 2)
      = Some [hex_digit (unat b div 16), hex_digit (unat b mod 16)]"
    using char_boundary_ascii [OF ascii, of "2 * length pre"] char_boundary_ascii [OF ascii len] len
    by (simp add: slice_def encode_hex_Cons)
  have s: "?s = encode_hex (pre @ [b]) @ rest" "2 * length (pre @ [b]) = 2 * length pre + 2"
    by (simp_all add: encode_hex_append)
  have "2 * length pre < length ?s" by simp
  then show ?thesis unfolding s(2) s(1) [symmetric]
    by (subst decode_from.simps) (simp only: sl parse_byte if_True option.case)
qed

lemma decode_from_prefix:
  assumes "\<forall>c \<in> set rest. (of_char c :: nat) < 128"
  shows "decode_from (encode_hex pre @ encode_hex bytes @ rest) (2 * length pre) =
    (case decode_from (encode_hex (pre @ bytes) @ rest) (2 * length (pre @ bytes)) of
       Inl e \<Rightarrow> Inl e | Inr bs \<Rightarrow> Inr (bytes @ bs))"
proof (induction bytes arbitrary: pre)
  case Nil
  show ?case by (simp split: sum.split)
next
  case (Cons b bytes)
  have "\<forall>c \<in> set (encode_hex bytes @ rest). (of_char c :: nat) < 128"
    using assms encode_hex_ascii by auto
  from decode_from_step [OF this, of pre b] Cons.IH [of "pre @ [b]"] show ?case
    by (simp add: encode_hex_append encode_hex_Cons [of b bytes] encode_hex_Cons [of b "[]"]
        split: sum.splits)
qed

lemma decode_hex_prefix:
  "\<forall>c \<in> set rest. (of_char c :: nat) < 128 \<Longrightarrow>
     decode_hex (encode_hex bytes @ rest) =
       (case decode_from (encode_hex bytes @ rest) (2 * length bytes) of
          Inl e \<Rightarrow> Inl e | Inr bs \<Rightarrow> Inr (bytes @ bs))"
  using decode_from_prefix [of rest "[]" bytes] by (simp add: decode_hex_def)

lemma decode_encode [simp]: "decode_hex (encode_hex bytes) = Inr bytes"
  using decode_hex_prefix [of "[]" bytes] by (simp add: decode_from.simps)

section \<open>Texts of odd length\<close>

lemma decode_from_even: "decode_from s i = Inr bytes \<Longrightarrow> i \<le> length s \<Longrightarrow> length s = i + 2 * length bytes"
proof (induction s i arbitrary: bytes rule: decode_from.induct)
  case (1 s i)
  show ?case
  proof (cases "i < length s")
    case True
    with 1(2) obtain t b bs where step: "slice s i (i + 2) = Some t" "parse_unsigned 16 t = Some b"
      "decode_from s (i + 2) = Inr bs" "bytes = b # bs"
      by (subst (asm) decode_from.simps) (auto split: option.splits sum.splits)
    from step(1) have "i + 2 \<le> length s" by (auto simp: slice_def char_boundary_def split: if_splits)
    from 1(1) [OF True step(1,2,3) this] show ?thesis by (simp add: step(4))
  next
    case False
    with 1(2,3) show ?thesis by (subst (asm) decode_from.simps) simp
  qed
qed

lemma decode_hex_length: "decode_hex s = Inr bytes \<Longrightarrow> length s = 2 * length bytes"
  using decode_from_even [of s 0 bytes] by (simp add: decode_hex_def)

text \<open>A text of hexadecimal digits and odd length is not an error of the helper but a panic.\<close>

lemma decode_odd: "d < 16 \<Longrightarrow> decode_hex (encode_hex bytes @ [hex_digit d]) = Inl SlicePanic"
proof -
  assume d: "d < 16"
  have "\<not> char_boundary (encode_hex bytes @ [hex_digit d]) (2 * length bytes + 2)"
    by (simp add: char_boundary_def)
  then have "decode_from (encode_hex bytes @ [hex_digit d]) (2 * length bytes) = Inl SlicePanic"
    by (subst decode_from.simps) (simp add: slice_def)
  then show ?thesis using decode_hex_prefix [of "[hex_digit d]" bytes] hex_digit_ascii [OF d] by simp
qed

end
