(* ===== verification/Text_Lines.thy ===== *)
theory Text_Lines
  imports Hex_Text
begin

text \<open>
  \<^verbatim>\<open>str::trim\<close> and \<^verbatim>\<open>str::lines\<close> of the standard library, on UTF-8 encoded text.
\<close>

definition utf8 :: "nat list \<Rightarrow> string" where
  "utf8 = map char_of"

text \<open>The encodings of the Unicode characters with the property \<^verbatim>\<open>White_Space\<close>.\<close>

definition white_spaces :: "string list" where
  "white_spaces = map utf8
     ([[9], [10], [11], [12], [13], [32], [194, 133], [194, 160], [225, 154, 128]]
      @ map (\<lambda>n. [226, 128, 128 + n]) [0..<11]
      @ [[226, 128, 168], [226, 128, 169], [226, 128, 175], [226, 129, 159], [227, 128, 128]])"

definition starts_with :: "string \<Rightarrow> string \<Rightarrow> bool" where
  "starts_with p s \<longleftrightarrow> take (length p) s = p"

text \<open>Drop what is in the list from the front, for as long as it is there.\<close>

function strip_front :: "string list \<Rightarrow> string \<Rightarrow> string" where
  "strip_front ws s =
     (case find (\<lambda>p. p \<noteq> [] \<and> starts_with p s) ws of
        None \<Rightarrow> s
      | Some p \<Rightarrow> strip_front ws (drop (length p) s))"
  by pat_completeness auto

termination
proof (relation "measure (\<lambda>(ws, s). length s)")
  fix ws s p
  assume "find (\<lambda>p. p \<noteq> [] \<and> starts_with p s) ws = Some p"
  then have "p \<noteq> []" "take (length p) s = p" by (auto simp: find_Some_iff starts_with_def)
  then have "0 < length p" "0 < length s" by auto
  then show "((ws, drop (length p) s), ws, s) \<in> measure (\<lambda>(ws, s). length s)" by simp
qed simp

declare strip_front.simps [simp del]

definition trim :: "string \<Rightarrow> string" where
  "trim s =
     (let s = strip_front white_spaces s
      in rev (strip_front (map rev white_spaces) (rev s)))"

text \<open>The lines end at a line feed, with a carriage return before it dropped too.\<close>

definition drop_cr :: "string \<Rightarrow> string" where
  "drop_cr l = (if l \<noteq> [] \<and> last l = char_of (13 :: nat) then butlast l else l)"

fun lines_from :: "string \<Rightarrow> string \<Rightarrow> string list" where
  "lines_from l [] = (if l = [] then [] else [l])"
| "lines_from l (c # cs) =
     (if c = char_of (10 :: nat) then drop_cr l # lines_from [] cs else lines_from (l @ [c]) cs)"

definition lines :: "string \<Rightarrow> string list" where
  "lines s = lines_from [] s"

section \<open>UTF-8\<close>

definition continuation :: "nat \<Rightarrow> bool" where
  "continuation b \<longleftrightarrow> 128 \<le> b \<and> b < 192"

text \<open>The check of \<^verbatim>\<open>core::str::from_utf8\<close>: no overlong forms, no surrogates, nothing above U+10FFFF.\<close>

fun valid_utf8 :: "nat list \<Rightarrow> bool" where
  "valid_utf8 [] = True"
| "valid_utf8 (a # bs) =
     (if a < 128 then valid_utf8 bs
      else if 194 \<le> a \<and> a < 224 then
        (case bs of b # cs \<Rightarrow> continuation b \<and> valid_utf8 cs | _ \<Rightarrow> False)
      else if 224 \<le> a \<and> a < 240 then
        (case bs of
           b # c # cs \<Rightarrow>
             continuation b \<and> continuation c \<and> (a = 224 \<longrightarrow> 160 \<le> b) \<and> (a = 237 \<longrightarrow> b < 160)
             \<and> valid_utf8 cs
         | _ \<Rightarrow> False)
      else if 240 \<le> a \<and> a < 245 then
        (case bs of
           b # c # d # cs \<Rightarrow>
             continuation b \<and> continuation c \<and> continuation d \<and> (a = 240 \<longrightarrow> 144 \<le> b)
             \<and> (a = 244 \<longrightarrow> b < 144) \<and> valid_utf8 cs
         | _ \<Rightarrow> False)
      else False)"

lemma valid_utf8_ascii: "\<forall>b \<in> set bs. b < 128 \<Longrightarrow> valid_utf8 bs"
  by (induction bs) auto

section \<open>Lines that need no trimming\<close>

lemma strip_front_id: "(\<And>p. p \<in> set ws \<Longrightarrow> p \<noteq> [] \<Longrightarrow> \<not> starts_with p s) \<Longrightarrow> strip_front ws s = s"
proof -
  assume no: "\<And>p. p \<in> set ws \<Longrightarrow> p \<noteq> [] \<Longrightarrow> \<not> starts_with p s"
  then have "find (\<lambda>p. p \<noteq> [] \<and> starts_with p s) ws = None" by (auto simp: find_None_iff)
  then show ?thesis by (subst strip_front.simps) simp
qed

lemma lines_from_line:
  "char_of (10 :: nat) \<notin> set l \<Longrightarrow>
     lines_from pre (l @ char_of (10 :: nat) # rest) = drop_cr (pre @ l) # lines_from [] rest"
  by (induction l arbitrary: pre) auto

end
