(* ===== verification/World.thy ===== *)
theory World
  imports Text_Lines
begin

text \<open>
  The outside of the process, as the wallet and the start of the node use it: files, environment
  variables, standard output and a TCP peer.  Every operation on it may fail, as decided by the
  argument from the number of operations made before; a failing write leaves the file alone or
  leaves it with any contents.
\<close>

datatype failed_write = Untouched | Torn "u8 list"

record surroundings =
  io_fault :: "nat \<Rightarrow> failed_write option"
  env_var :: "string \<Rightarrow> string option"
  tcp_line :: "nat \<Rightarrow> string"

record stored_file =
  contents :: "u8 list"
  owner_only :: bool

text \<open>What the program shows: lines on standard output, and what it sends to a TCP address.\<close>

record 'o world =
  files :: "string \<rightharpoonup> stored_file"
  io_ops :: nat
  shown :: "'o list"

text \<open>\<^verbatim>\<open>Box<dyn Error>\<close>, by its source; \<^verbatim>\<open>Aborts\<close> is a panic.\<close>

datatype failure =
    IoError
  | WalletExists
  | NoPassword
  | KeyDerivationFailed
  | EncryptionFailed
  | DecryptionFailed
  | UnsupportedVersion u8
  | JsonError
  | HexError
  | BadKeyBytes
  | AddressLength
  | BackupExists
  | RestoreExists
  | BadNumber
  | Usage
  | EncodingError
  | SwarmFailed
  | Aborts

type_synonym ('o, 'a) io = "'o world \<Rightarrow> (failure, 'a) result \<times> 'o world"

section \<open>Sequencing\<close>

text \<open>\<^verbatim>\<open>let x = m?; f(x)\<close>\<close>

definition and_then :: "('o, 'a) io \<Rightarrow> ('a \<Rightarrow> ('o, 'b) io) \<Rightarrow> ('o, 'b) io" where
  "and_then m f w = (case m w of (Inl e, w') \<Rightarrow> (Inl e, w') | (Inr x, w') \<Rightarrow> f x w')"

definition returns :: "'a \<Rightarrow> ('o, 'a) io" where
  "returns x w = (Inr x, w)"

definition fails :: "failure \<Rightarrow> ('o, 'a) io" where
  "fails e w = (Inl e, w)"

text \<open>\<^verbatim>\<open>x.ok_or(e)?\<close>\<close>

definition or_fail :: "failure \<Rightarrow> 'a option \<Rightarrow> ('o, 'a) io" where
  "or_fail e x = (case x of None \<Rightarrow> fails e | Some y \<Rightarrow> returns y)"

definition print :: "'o \<Rightarrow> ('o, unit) io" where
  "print l w = (Inr (), w\<lparr>shown := shown w @ [l]\<rparr>)"

section \<open>Files\<close>

definition step_io :: "'o world \<Rightarrow> 'o world" where
  "step_io w = w\<lparr>io_ops := Suc (io_ops w)\<rparr>"

text \<open>\<^verbatim>\<open>Path::exists\<close> answers no when it cannot tell.\<close>

definition path_exists :: "surroundings \<Rightarrow> string \<Rightarrow> ('o, bool) io" where
  "path_exists env path w = (Inr (io_fault env (io_ops w) = None \<and> files w path \<noteq> None), step_io w)"

definition read_file :: "surroundings \<Rightarrow> string \<Rightarrow> ('o, u8 list) io" where
  "read_file env path w =
     (case files w path of
        Some f \<Rightarrow>
          if io_fault env (io_ops w) = None then (Inr (contents f), step_io w)
          else (Inl IoError, step_io w)
      | None \<Rightarrow> (Inl IoError, step_io w))"

text \<open>\<^verbatim>\<open>read_to_string\<close> refuses what is not UTF-8.\<close>

definition read_text :: "surroundings \<Rightarrow> string \<Rightarrow> ('o, string) io" where
  "read_text env path =
     and_then (read_file env path) (\<lambda>bytes.
     if valid_utf8 (map unat bytes) then returns (map (\<lambda>b. char_of (unat b)) bytes)
     else fails EncodingError)"

text \<open>A new file can be read by everyone, an old one keeps its permissions.\<close>

definition put_file :: "string \<Rightarrow> u8 list \<Rightarrow> bool \<Rightarrow> 'o world \<Rightarrow> 'o world" where
  "put_file path bytes private w =
     w\<lparr>files := (files w)(path \<mapsto> \<lparr>contents = bytes, owner_only = private\<rparr>)\<rparr>"

definition mode_of :: "'o world \<Rightarrow> string \<Rightarrow> bool" where
  "mode_of w path = (case files w path of None \<Rightarrow> False | Some f \<Rightarrow> owner_only f)"

definition write_file :: "surroundings \<Rightarrow> string \<Rightarrow> u8 list \<Rightarrow> ('o, unit) io" where
  "write_file env path bytes w =
     (case io_fault env (io_ops w) of
        None \<Rightarrow> (Inr (), step_io (put_file path bytes (mode_of w path) w))
      | Some Untouched \<Rightarrow> (Inl IoError, step_io w)
      | Some (Torn rest) \<Rightarrow> (Inl IoError, step_io (put_file path rest (mode_of w path) w)))"

text \<open>\<^verbatim>\<open>std::fs::copy\<close> copies contents and permissions.\<close>

definition copy_file :: "surroundings \<Rightarrow> string \<Rightarrow> string \<Rightarrow> ('o, unit) io" where
  "copy_file env source destination w =
     (case files w source of
        None \<Rightarrow> (Inl IoError, step_io w)
      | Some f \<Rightarrow>
          (case io_fault env (io_ops w) of
             None \<Rightarrow> (Inr (), step_io (put_file destination (contents f) (owner_only f) w))
           | Some Untouched \<Rightarrow> (Inl IoError, step_io w)
           | Some (Torn rest) \<Rightarrow>
               (Inl IoError, step_io (put_file destination rest (mode_of w destination) w))))"

text \<open>\<^verbatim>\<open>set_permissions(path, 0o600)\<close>\<close>

definition set_owner_only :: "surroundings \<Rightarrow> string \<Rightarrow> ('o, unit) io" where
  "set_owner_only env path w =
     (case files w path of
        None \<Rightarrow> (Inl IoError, step_io w)
      | Some f \<Rightarrow>
          if io_fault env (io_ops w) = None
          then (Inr (), step_io (put_file path (contents f) True w))
          else (Inl IoError, step_io w))"

text \<open>A random draw, identified by the number of operations made before it.\<close>

definition draw :: "(nat \<Rightarrow> 'a) \<Rightarrow> ('o, 'a) io" where
  "draw f w = (Inr (f (io_ops w)), step_io w)"

section \<open>Success and frames\<close>

named_theorems io_ok

lemma and_then_Inr_iff [io_ok]:
  "and_then m f w = (Inr y, w') \<longleftrightarrow> (\<exists>x w1. m w = (Inr x, w1) \<and> f x w1 = (Inr y, w'))"
  by (auto simp: and_then_def split: prod.splits sum.splits)

lemma returns_Inr_iff [io_ok]: "returns x w = (Inr y, w') \<longleftrightarrow> y = x \<and> w' = w"
  by (auto simp: returns_def)

lemma fails_Inr_iff [io_ok]: "fails e w = (Inr y, w') \<longleftrightarrow> False"
  by (simp add: fails_def)

lemma or_fail_Inr_iff [io_ok]: "or_fail e x w = (Inr y, w') \<longleftrightarrow> x = Some y \<and> w' = w"
  by (cases x) (auto simp: or_fail_def io_ok)

lemma print_Inr_iff [io_ok]: "print l w = (Inr y, w') \<longleftrightarrow> w' = w\<lparr>shown := shown w @ [l]\<rparr>"
  by (auto simp: print_def)

lemma draw_Inr_iff [io_ok]: "draw f w = (Inr y, w') \<longleftrightarrow> y = f (io_ops w) \<and> w' = step_io w"
  by (auto simp: draw_def)

lemma path_exists_Inr_iff [io_ok]:
  "path_exists env p w = (Inr b, w') \<longleftrightarrow>
     b = (io_fault env (io_ops w) = None \<and> files w p \<noteq> None) \<and> w' = step_io w"
  by (auto simp: path_exists_def)

lemma read_file_Inr_iff [io_ok]:
  "read_file env p w = (Inr bs, w') \<longleftrightarrow>
     (\<exists>f. files w p = Some f \<and> io_fault env (io_ops w) = None \<and> bs = contents f \<and> w' = step_io w)"
  by (auto simp: read_file_def split: option.splits)

lemma write_file_Inr_iff [io_ok]:
  "write_file env p bs w = (Inr y, w') \<longleftrightarrow>
     io_fault env (io_ops w) = None \<and> w' = step_io (put_file p bs (mode_of w p) w)"
  by (auto simp: write_file_def split: option.splits failed_write.splits)

lemma copy_file_Inr_iff [io_ok]:
  "copy_file env p q w = (Inr y, w') \<longleftrightarrow>
     (\<exists>f. files w p = Some f \<and> io_fault env (io_ops w) = None \<and>
          w' = step_io (put_file q (contents f) (owner_only f) w))"
  by (auto simp: copy_file_def split: option.splits failed_write.splits)

lemma set_owner_only_Inr_iff [io_ok]:
  "set_owner_only env p w = (Inr y, w') \<longleftrightarrow>
     (\<exists>f. files w p = Some f \<and> io_fault env (io_ops w) = None \<and>
          w' = step_io (put_file p (contents f) True w))"
  by (auto simp: set_owner_only_def split: option.splits)

lemma step_io_sels [simp]:
  "files (step_io w) = files w" "io_ops (step_io w) = Suc (io_ops w)" "shown (step_io w) = shown w"
  by (simp_all add: step_io_def)

lemma put_file_sels [simp]:
  "files (put_file p bs m w) = (files w)(p \<mapsto> \<lparr>contents = bs, owner_only = m\<rparr>)"
  "io_ops (put_file p bs m w) = io_ops w" "shown (put_file p bs m w) = shown w"
  by (simp_all add: put_file_def)

text \<open>An action that leaves every other file as it was, whether it succeeds or not.\<close>

definition touches_only :: "string set \<Rightarrow> ('o, 'a) io \<Rightarrow> bool" where
  "touches_only ps m \<longleftrightarrow> (\<forall>w q. q \<notin> ps \<longrightarrow> files (snd (m w)) q = files w q)"

named_theorems touches

lemma touches_and_then [touches]:
  assumes "touches_only ps m" and "\<And>x. touches_only ps (f x)"
  shows "touches_only ps (and_then m f)"
  unfolding touches_only_def
proof (intro allI impI)
  fix w q assume q: "q \<notin> ps"
  obtain r w1 where m: "m w = (r, w1)" by (cases "m w")
  then have w1: "files w1 q = files w q" using assms(1) q by (metis snd_conv touches_only_def)
  show "files (snd (and_then m f w)) q = files w q"
  proof (cases r)
    case (Inl e)
    then show ?thesis using w1 by (simp add: and_then_def m)
  next
    case (Inr x)
    have "files (snd (f x w1)) q = files w1 q" using assms(2) q by (simp add: touches_only_def)
    then show ?thesis using w1 Inr by (simp add: and_then_def m)
  qed
qed

lemma draw_touches [touches]: "touches_only ps (draw f)"
  by (simp add: touches_only_def draw_def)

lemma touches_pure [touches]:
  "touches_only ps (returns x)" "touches_only ps (fails e)" "touches_only ps (or_fail e z)"
  "touches_only ps (print l)" "touches_only ps (path_exists env p)" "touches_only ps (read_file env p)"
  by (auto simp: touches_only_def returns_def fails_def or_fail_def print_def path_exists_def
      read_file_def split: option.splits)

lemma touches_write [touches]: "p \<in> ps \<Longrightarrow> touches_only ps (write_file env p bs)"
  by (auto simp: touches_only_def write_file_def split: option.splits failed_write.splits)

lemma touches_copy [touches]: "q \<in> ps \<Longrightarrow> touches_only ps (copy_file env p q)"
  by (auto simp: touches_only_def copy_file_def split: option.splits failed_write.splits)

lemma touches_private [touches]: "p \<in> ps \<Longrightarrow> touches_only ps (set_owner_only env p)"
  by (auto simp: touches_only_def set_owner_only_def split: option.splits)

lemma touches_if [touches]:
  "touches_only ps m \<Longrightarrow> touches_only ps n \<Longrightarrow> touches_only ps (if b then m else n)"
  by simp

end
