(* ===== verification/Key_Pair.thy ===== *)
theory Key_Pair
  imports Crypto
begin

text \<open>
  Key pairs and signing (\<^verbatim>\<open>VeloKeyPair\<close> and \<^verbatim>\<open>sign_message\<close> of \<^verbatim>\<open>vdag-crypto/src/lib.rs\<close>).  The
  signing half of the Dilithium crate is the fields of \<open>dilithium_keys\<close>; its randomness is the
  number that picks a generated pair.
\<close>

record ('pk, 'sk, 'sg) dilithium_keys =
  verifier :: "('pk, 'sg) dilithium"
  keypair :: "nat \<Rightarrow> 'pk \<times> 'sk"
  sk_from_bytes :: "u8 list \<Rightarrow> 'sk option"
  sk_as_bytes :: "'sk \<Rightarrow> u8 list"
  detached_sign :: "u8 list \<Rightarrow> 'sk \<Rightarrow> 'sg"
  sig_as_bytes :: "'sg \<Rightarrow> u8 list"

record ('pk, 'sk) velo_key_pair =
  kp_public :: 'pk
  kp_secret :: 'sk

definition generate :: "('pk, 'sk, 'sg) dilithium_keys \<Rightarrow> nat \<Rightarrow> ('pk, 'sk) velo_key_pair" where
  "generate lib i = (case keypair lib i of (pk, sk) \<Rightarrow> \<lparr>kp_public = pk, kp_secret = sk\<rparr>)"

definition public_key_bytes ::
  "('pk, 'sk, 'sg) dilithium_keys \<Rightarrow> ('pk, 'sk) velo_key_pair \<Rightarrow> u8 list"
where
  "public_key_bytes lib kp = pk_as_bytes (verifier lib) (kp_public kp)"

definition secret_key_bytes ::
  "('pk, 'sk, 'sg) dilithium_keys \<Rightarrow> ('pk, 'sk) velo_key_pair \<Rightarrow> u8 list"
where
  "secret_key_bytes lib kp = sk_as_bytes lib (kp_secret kp)"

definition key_pair_from_bytes ::
  "('pk, 'sk, 'sg) dilithium_keys \<Rightarrow> u8 list \<Rightarrow> u8 list \<Rightarrow> ('pk, 'sk) velo_key_pair option"
where
  "key_pair_from_bytes lib pk_bytes sk_bytes =
     (case pk_from_bytes (verifier lib) pk_bytes of
        None \<Rightarrow> None
      | Some pk \<Rightarrow>
          (case sk_from_bytes lib sk_bytes of
             None \<Rightarrow> None
           | Some sk \<Rightarrow> Some \<lparr>kp_public = pk, kp_secret = sk\<rparr>))"

definition sign_message :: "('pk, 'sk, 'sg) dilithium_keys \<Rightarrow> u8 list \<Rightarrow> 'sk \<Rightarrow> u8 list" where
  "sign_message lib message sk = sig_as_bytes lib (detached_sign lib message sk)"

section \<open>What the crate promises\<close>

text \<open>
  Keys and signatures survive their encoding, and what a generated secret key signs, its public
  key verifies.
\<close>

definition dilithium_ok :: "('pk, 'sk, 'sg) dilithium_keys \<Rightarrow> bool" where
  "dilithium_ok lib \<longleftrightarrow>
     (\<forall>pk. pk_from_bytes (verifier lib) (pk_as_bytes (verifier lib) pk) = Some pk) \<and>
     (\<forall>sk. sk_from_bytes lib (sk_as_bytes lib sk) = Some sk) \<and>
     (\<forall>sg. sig_from_bytes (verifier lib) (sig_as_bytes lib sg) = Some sg) \<and>
     (\<forall>i message. verify_detached (verifier lib)
        (detached_sign lib message (snd (keypair lib i))) message (fst (keypair lib i)))"

lemma key_pair_bytes:
  "dilithium_ok lib \<Longrightarrow>
     key_pair_from_bytes lib (public_key_bytes lib kp) (secret_key_bytes lib kp) = Some kp"
  by (simp add: dilithium_ok_def key_pair_from_bytes_def public_key_bytes_def secret_key_bytes_def)

lemma generated_signs:
  "dilithium_ok lib \<Longrightarrow>
     verify_signature (verifier lib) message
       (sign_message lib message (kp_secret (generate lib i))) (kp_public (generate lib i))"
  by (simp add: dilithium_ok_def verify_signature_def sign_message_def generate_def split_beta)

section \<open>Signed transfers\<close>

text \<open>The transaction that \<^verbatim>\<open>sign_transfer\<close> and \<^verbatim>\<open>submit\<close> of \<^verbatim>\<open>wallet.rs\<close> build.\<close>

definition signed_transfer ::
  "('pk, 'sk, 'sg) dilithium_keys \<Rightarrow> digest \<Rightarrow> ('pk, 'sk) velo_key_pair \<Rightarrow> address \<Rightarrow> u64 \<Rightarrow> u64 \<Rightarrow>
     transaction"
where
  "signed_transfer lib sha kp to amt nce =
     (let unsigned =
            \<lparr>sender = derive_address (verifier lib) sha (kp_public kp), recipient = to, amount = amt,
             tx_nonce = nce, public_key = public_key_bytes lib kp, signature = []\<rparr>
      in unsigned\<lparr>signature := sign_message lib (transaction_payload unsigned) (kp_secret kp)\<rparr>)"

lemma signed_transfer_sels [simp]:
  "sender (signed_transfer lib sha kp to amt nce) = derive_address (verifier lib) sha (kp_public kp)"
  "recipient (signed_transfer lib sha kp to amt nce) = to"
  "amount (signed_transfer lib sha kp to amt nce) = amt"
  "tx_nonce (signed_transfer lib sha kp to amt nce) = nce"
  "public_key (signed_transfer lib sha kp to amt nce) = public_key_bytes lib kp"
  by (simp_all add: signed_transfer_def)

lemma signed_transfer_eq:
  "\<lparr>sender = derive_address (verifier lib) sha (kp_public kp), recipient = to, amount = amt, tx_nonce = nce,
    public_key = public_key_bytes lib kp, signature = signature (signed_transfer lib sha kp to amt nce)\<rparr> =
   signed_transfer lib sha kp to amt nce"
  by (simp add: signed_transfer_def)

lemma signed_transfer_signed:
  assumes "dilithium_ok lib"
  shows "tx_signed (verifier lib) sha (signed_transfer lib sha (generate lib i) to amt nce)"
proof -
  let ?kp = "generate lib i" and ?tx = "signed_transfer lib sha (generate lib i) to amt nce"
  have "transaction_payload ?tx =
      bytes_of (derive_address (verifier lib) sha (kp_public ?kp)) @ bytes_of to @ u64_le amt @ u64_le nce"
    by (simp add: transaction_payload_def)
  moreover have "signature ?tx = sign_message lib (transaction_payload ?tx) (kp_secret ?kp)"
    by (simp add: signed_transfer_def transaction_payload_def)
  moreover have "pk_from_bytes (verifier lib) (public_key_bytes lib ?kp) = Some (kp_public ?kp)"
    using assms by (simp add: dilithium_ok_def public_key_bytes_def)
  ultimately show ?thesis using generated_signs [OF assms, of "transaction_payload ?tx" i]
    by (simp add: tx_signed_def verify_transaction_signature_def Let_def)
qed

end
