(* ===== verification/Wallet.thy ===== *)
theory Wallet
  imports World Key_Pair Rpc
begin

text \<open>
  The wallet (\<^verbatim>\<open>vdag-node/src/wallet.rs\<close>): an encrypted key pair in a file.  JSON, hexadecimal,
  Argon2, ChaCha20-Poly1305 and the random generator are third-party crates, the fields of
  \<open>wallet_library\<close>; a random draw is identified by the number of operations made before it.
\<close>

record wallet_file =
  wf_version :: u8
  wf_salt :: string
  wf_nonce :: string
  wf_ciphertext :: string

record wallet_payload =
  wp_public_key :: string
  wp_secret_key :: string

record 'j wallet_library =
  hex_encode :: "u8 list \<Rightarrow> string"
  hex_decode :: "string \<Rightarrow> u8 list option"
  random_bytes :: "nat \<Rightarrow> nat \<Rightarrow> u8 list"
  argon2 :: "string \<Rightarrow> u8 list \<Rightarrow> u8 list option"
  aead_encrypt :: "u8 list \<Rightarrow> u8 list \<Rightarrow> u8 list \<Rightarrow> u8 list option"
  aead_decrypt :: "u8 list \<Rightarrow> u8 list \<Rightarrow> u8 list \<Rightarrow> u8 list option"
  json_value :: "u8 list \<Rightarrow> 'j option"
  has_version :: "'j \<Rightarrow> bool"
  as_wallet_file :: "'j \<Rightarrow> wallet_file option"
  as_payload :: "'j \<Rightarrow> wallet_payload option"
  wallet_file_json :: "wallet_file \<Rightarrow> u8 list option"
  payload_json :: "wallet_payload \<Rightarrow> u8 list option"
  payload_of_json :: "u8 list \<Rightarrow> wallet_payload option"
  json_id_one :: 'j
  params_json :: "submit_transaction_params \<Rightarrow> 'j"

datatype 'j wallet_line =
    AddressLine address
  | WalletLine string
  | GeneratedLine string address
  | ValidLine address
  | BackupLine string
  | RestoredLine string
  | TransactionLine transaction
  | PlaintextWarning
  | RequestLine string "'j rpc_request"
  | ReplyLine string

type_synonym ('j, 'a) wallet_io = "('j wallet_line, 'a) io"

section \<open>Encryption\<close>

definition password :: "surroundings \<Rightarrow> ('j, string) wallet_io" where
  "password env = or_fail NoPassword (env_var env ''VDAG_WALLET_PASSWORD'')"

definition encrypt :: "'j wallet_library \<Rightarrow> wallet_payload \<Rightarrow> string \<Rightarrow> ('j, wallet_file) wallet_io" where
  "encrypt lib payload pw =
     and_then (draw (\<lambda>i. random_bytes lib i 16)) (\<lambda>salt.
     and_then (draw (\<lambda>i. random_bytes lib i 12)) (\<lambda>nce.
     and_then (or_fail KeyDerivationFailed (argon2 lib pw salt)) (\<lambda>key.
     and_then (or_fail JsonError (payload_json lib payload)) (\<lambda>plain.
     and_then (or_fail EncryptionFailed (aead_encrypt lib key nce plain)) (\<lambda>ciphertext.
     returns \<lparr>wf_version = 1, wf_salt = hex_encode lib salt, wf_nonce = hex_encode lib nce,
              wf_ciphertext = hex_encode lib ciphertext\<rparr>)))))"

text \<open>\<^verbatim>\<open>Nonce::from_slice\<close> panics unless it gets twelve bytes.\<close>

definition nonce_from_slice :: "u8 list \<Rightarrow> ('j, u8 list) wallet_io" where
  "nonce_from_slice bytes = (if length bytes = 12 then returns bytes else fails Aborts)"

definition decrypt :: "'j wallet_library \<Rightarrow> wallet_file \<Rightarrow> string \<Rightarrow> ('j, wallet_payload) wallet_io" where
  "decrypt lib wallet pw =
     (if wf_version wallet \<noteq> 1 then fails (UnsupportedVersion (wf_version wallet)) else
      and_then (or_fail HexError (hex_decode lib (wf_salt wallet))) (\<lambda>salt.
      and_then (or_fail HexError (hex_decode lib (wf_nonce wallet))) (\<lambda>nce.
      and_then (or_fail HexError (hex_decode lib (wf_ciphertext wallet))) (\<lambda>ciphertext.
      and_then (or_fail KeyDerivationFailed (argon2 lib pw salt)) (\<lambda>key.
      and_then (nonce_from_slice nce) (\<lambda>nce.
      and_then (or_fail DecryptionFailed (aead_decrypt lib key nce ciphertext)) (\<lambda>plain.
      or_fail JsonError (payload_of_json lib plain))))))))"

section \<open>Files\<close>

definition set_private_permissions :: "surroundings \<Rightarrow> string \<Rightarrow> ('j, unit) wallet_io" where
  "set_private_permissions = set_owner_only"

definition wallet_payload_of ::
  "'j wallet_library \<Rightarrow> ('pk, 'sk, 'sg) dilithium_keys \<Rightarrow> ('pk, 'sk) velo_key_pair \<Rightarrow> wallet_payload"
where
  "wallet_payload_of lib keys kp =
     \<lparr>wp_public_key = hex_encode lib (public_key_bytes keys kp),
      wp_secret_key = hex_encode lib (secret_key_bytes keys kp)\<rparr>"

text \<open>What \<^verbatim>\<open>create\<close> and \<^verbatim>\<open>load_or_create\<close> both do with a fresh key pair.\<close>

definition store_key_pair ::
  "'j wallet_library \<Rightarrow> ('pk, 'sk, 'sg) dilithium_keys \<Rightarrow> surroundings \<Rightarrow> string \<Rightarrow>
     ('pk, 'sk) velo_key_pair \<Rightarrow> ('j, unit) wallet_io"
where
  "store_key_pair lib keys env path kp =
     and_then (password env) (\<lambda>pw.
     and_then (encrypt lib (wallet_payload_of lib keys kp) pw) (\<lambda>wallet.
     and_then (or_fail JsonError (wallet_file_json lib wallet)) (\<lambda>bytes.
     and_then (write_file env path bytes) (\<lambda>_.
     set_private_permissions env path))))"

definition wallet_load ::
  "'j wallet_library \<Rightarrow> ('pk, 'sk, 'sg) dilithium_keys \<Rightarrow> surroundings \<Rightarrow> string \<Rightarrow>
     ('j, ('pk, 'sk) velo_key_pair) wallet_io"
where
  "wallet_load lib keys env path =
     and_then (read_file env path) (\<lambda>bytes.
     and_then (or_fail JsonError (json_value lib bytes)) (\<lambda>value.
     and_then
       (if has_version lib value then
          and_then (or_fail JsonError (as_wallet_file lib value)) (\<lambda>wallet.
          and_then (password env) (\<lambda>pw. decrypt lib wallet pw))
        else and_then (print PlaintextWarning) (\<lambda>_. or_fail JsonError (as_payload lib value)))
       (\<lambda>payload.
     and_then (or_fail HexError (hex_decode lib (wp_public_key payload))) (\<lambda>pk.
     and_then (or_fail HexError (hex_decode lib (wp_secret_key payload))) (\<lambda>sk.
     or_fail BadKeyBytes (key_pair_from_bytes keys pk sk))))))"

definition create ::
  "'j wallet_library \<Rightarrow> ('pk, 'sk, 'sg) dilithium_keys \<Rightarrow> digest \<Rightarrow> surroundings \<Rightarrow> string \<Rightarrow>
     ('j, unit) wallet_io"
where
  "create lib keys sha env path =
     and_then (path_exists env path) (\<lambda>there.
     if there then fails WalletExists else
     and_then (draw (generate keys)) (\<lambda>kp.
     and_then (store_key_pair lib keys env path kp) (\<lambda>_.
     and_then (print (AddressLine (derive_address (verifier keys) sha (kp_public kp)))) (\<lambda>_.
     print (WalletLine path)))))"

definition load_or_create ::
  "'j wallet_library \<Rightarrow> ('pk, 'sk, 'sg) dilithium_keys \<Rightarrow> digest \<Rightarrow> surroundings \<Rightarrow> string \<Rightarrow>
     ('j, ('pk, 'sk) velo_key_pair) wallet_io"
where
  "load_or_create lib keys sha env path =
     and_then (path_exists env path) (\<lambda>there.
     if there then wallet_load lib keys env path else
     and_then (draw (generate keys)) (\<lambda>kp.
     and_then (store_key_pair lib keys env path kp) (\<lambda>_.
     and_then (print (GeneratedLine path (derive_address (verifier keys) sha (kp_public kp)))) (\<lambda>_.
     returns kp))))"

definition wallet_address ::
  "'j wallet_library \<Rightarrow> ('pk, 'sk, 'sg) dilithium_keys \<Rightarrow> digest \<Rightarrow> surroundings \<Rightarrow> string \<Rightarrow>
     ('j, unit) wallet_io"
where
  "wallet_address lib keys sha env path =
     and_then (wallet_load lib keys env path) (\<lambda>kp.
     print (AddressLine (derive_address (verifier keys) sha (kp_public kp))))"

definition verify ::
  "'j wallet_library \<Rightarrow> ('pk, 'sk, 'sg) dilithium_keys \<Rightarrow> digest \<Rightarrow> surroundings \<Rightarrow> string \<Rightarrow>
     ('j, unit) wallet_io"
where
  "verify lib keys sha env path =
     and_then (wallet_load lib keys env path) (\<lambda>kp.
     print (ValidLine (derive_address (verifier keys) sha (kp_public kp))))"

definition backup ::
  "'j wallet_library \<Rightarrow> ('pk, 'sk, 'sg) dilithium_keys \<Rightarrow> surroundings \<Rightarrow> string \<Rightarrow> string \<Rightarrow>
     ('j, unit) wallet_io"
where
  "backup lib keys env source destination =
     and_then (wallet_load lib keys env source) (\<lambda>_.
     and_then (path_exists env destination) (\<lambda>there.
     if there then fails BackupExists else
     and_then (copy_file env source destination) (\<lambda>_.
     and_then (set_private_permissions env destination) (\<lambda>_.
     print (BackupLine destination)))))"

definition restore ::
  "'j wallet_library \<Rightarrow> ('pk, 'sk, 'sg) dilithium_keys \<Rightarrow> surroundings \<Rightarrow> string \<Rightarrow> string \<Rightarrow>
     ('j, unit) wallet_io"
where
  "restore lib keys env backup_path destination =
     and_then (wallet_load lib keys env backup_path) (\<lambda>_.
     and_then (path_exists env destination) (\<lambda>there.
     if there then fails RestoreExists else
     and_then (copy_file env backup_path destination) (\<lambda>_.
     and_then (set_private_permissions env destination) (\<lambda>_.
     and_then (wallet_load lib keys env destination) (\<lambda>_.
     print (RestoredLine destination))))))"

section \<open>Transfers\<close>

definition parse_address :: "'j wallet_library \<Rightarrow> string \<Rightarrow> ('j, address) wallet_io" where
  "parse_address lib text =
     (let digits = (if starts_with ''0x'' text then drop 2 text else text)
      in and_then (or_fail HexError (hex_decode lib digits)) (\<lambda>bytes.
         if length bytes = 32 then returns (Bytes32 bytes) else fails AddressLength))"

definition sign_transfer ::
  "'j wallet_library \<Rightarrow> ('pk, 'sk, 'sg) dilithium_keys \<Rightarrow> digest \<Rightarrow> surroundings \<Rightarrow> string \<Rightarrow> string \<Rightarrow>
     u64 \<Rightarrow> u64 \<Rightarrow> ('j, unit) wallet_io"
where
  "sign_transfer lib keys sha env path to amt nce =
     and_then (wallet_load lib keys env path) (\<lambda>kp.
     and_then (parse_address lib to) (\<lambda>to.
     print (TransactionLine (signed_transfer keys sha kp to amt nce))))"

text \<open>The request carries no token.\<close>

definition submit_request :: "'j wallet_library \<Rightarrow> transaction \<Rightarrow> 'j rpc_request" where
  "submit_request lib tx =
     \<lparr>rq_id = Some (json_id_one lib), rq_method = ''submit_transaction'',
      rq_params = Some (params_json lib
        \<lparr>sp_sender = hex_encode lib (bytes_of (sender tx)),
         sp_recipient = hex_encode lib (bytes_of (recipient tx)),
         sp_amount = amount tx, sp_nonce = tx_nonce tx,
         sp_public_key = hex_encode lib (public_key tx),
         sp_signature = hex_encode lib (signature tx)\<rparr>),
      rq_token = None\<rparr>"

text \<open>One operation on the connection.  A request counts as sent from its first bytes on.\<close>

definition tcp_op :: "surroundings \<Rightarrow> (nat \<Rightarrow> 'a) \<Rightarrow> ('o, 'a) io" where
  "tcp_op env f w =
     (if io_fault env (io_ops w) = None then (Inr (f (io_ops w)), step_io w)
      else (Inl IoError, step_io w))"

definition submit ::
  "'j wallet_library \<Rightarrow> ('pk, 'sk, 'sg) dilithium_keys \<Rightarrow> digest \<Rightarrow> surroundings \<Rightarrow> string \<Rightarrow> string \<Rightarrow>
     u64 \<Rightarrow> u64 \<Rightarrow> string \<Rightarrow> ('j, unit) wallet_io"
where
  "submit lib keys sha env path to amt nce rpc_address =
     and_then (wallet_load lib keys env path) (\<lambda>kp.
     and_then (parse_address lib to) (\<lambda>to.
     let request = submit_request lib (signed_transfer keys sha kp to amt nce) in
     and_then (tcp_op env (\<lambda>_. ())) (\<lambda>_.
     and_then (tcp_op env (\<lambda>_. ())) (\<lambda>_.
     and_then (print (RequestLine rpc_address request)) (\<lambda>_.
     and_then (tcp_op env (\<lambda>_. ())) (\<lambda>_.
     and_then (tcp_op env (tcp_line env)) (\<lambda>response.
     print (ReplyLine (trim response)))))))))"

end
