(* ===== verification/Wallet_Facts.thy ===== *)
theory Wallet_Facts
  imports Wallet
begin

text \<open>
  What wallet files hold: opening a file depends on its contents and the password only, what
  \<^const>\<open>store_key_pair\<close> writes opens to the key pair it was given, and no command writes
  anywhere but to its destination.
\<close>

section \<open>What the crates promise\<close>

definition wallet_library_ok :: "'j wallet_library \<Rightarrow> bool" where
  "wallet_library_ok lib \<longleftrightarrow>
     (\<forall>bytes. hex_decode lib (hex_encode lib bytes) = Some bytes) \<and>
     (\<forall>i n. length (random_bytes lib i n) = n) \<and>
     (\<forall>key nce plain c. aead_encrypt lib key nce plain = Some c \<longrightarrow> aead_decrypt lib key nce c = Some plain) \<and>
     (\<forall>wallet bytes. wallet_file_json lib wallet = Some bytes \<longrightarrow>
        (\<exists>value. json_value lib bytes = Some value \<and> has_version lib value \<and>
           as_wallet_file lib value = Some wallet)) \<and>
     (\<forall>payload bytes. payload_json lib payload = Some bytes \<longrightarrow>
        payload_of_json lib bytes = Some payload)"

section \<open>Actions that do not depend on the world\<close>

definition steady :: "('o, 'a) io \<Rightarrow> (failure, 'a) result \<Rightarrow> bool" where
  "steady m r \<longleftrightarrow>
     (\<forall>w. fst (m w) = r \<and> files (snd (m w)) = files w \<and> io_ops (snd (m w)) = io_ops w)"

lemma steady_and_then:
  assumes "steady m r" and "\<And>x. r = Inr x \<Longrightarrow> \<exists>s. steady (f x) s"
  shows "\<exists>s. steady (and_then m f) s"
proof (cases r)
  case (Inl e)
  have "fst (and_then m f w) = Inl e \<and> files (snd (and_then m f w)) = files w \<and>
      io_ops (snd (and_then m f w)) = io_ops w" for w
  proof -
    obtain w1 where "m w = (Inl e, w1)" "files w1 = files w" "io_ops w1 = io_ops w"
      using assms(1) Inl unfolding steady_def by (metis prod.collapse)
    then show ?thesis by (simp add: and_then_def)
  qed
  then show ?thesis unfolding steady_def by blast
next
  case (Inr x)
  then obtain s where s: "steady (f x) s" using assms(2) by blast
  have "fst (and_then m f w) = s \<and> files (snd (and_then m f w)) = files w \<and>
      io_ops (snd (and_then m f w)) = io_ops w" for w
  proof -
    obtain w1 where m: "m w = (Inr x, w1)" "files w1 = files w" "io_ops w1 = io_ops w"
      using assms(1) Inr unfolding steady_def by (metis prod.collapse)
    then show ?thesis using s by (simp add: steady_def and_then_def)
  qed
  then show ?thesis unfolding steady_def by blast
qed

lemma steady_basic:
  "steady (returns x) (Inr x)" "steady (fails e) (Inl e)" "steady (print l) (Inr ())"
  by (simp_all add: steady_def returns_def fails_def print_def)

lemma steady_or_fail: "steady (or_fail e z) (case z of None \<Rightarrow> Inl e | Some x \<Rightarrow> Inr x)"
  by (cases z) (simp_all add: or_fail_def steady_basic)

lemma steady_ex [intro]:
  "\<exists>r. steady (returns x) r" "\<exists>r. steady (fails e) r" "\<exists>r. steady (print l) r"
  "\<exists>r. steady (or_fail e z) r"
  by (rule exI, rule steady_basic)+ (rule exI, rule steady_or_fail)

lemma steady_and_then_ex:
  "\<exists>r. steady m r \<Longrightarrow> (\<And>x. \<exists>s. steady (f x) s) \<Longrightarrow> \<exists>s. steady (and_then m f) s"
  using steady_and_then by blast

lemma steady_if: "\<exists>r. steady m r \<Longrightarrow> \<exists>r. steady n r \<Longrightarrow> \<exists>r. steady (if b then m else n) r"
  by (cases b) simp_all

section \<open>Opening a wallet\<close>

definition open_contents ::
  "'j wallet_library \<Rightarrow> ('pk, 'sk, 'sg) dilithium_keys \<Rightarrow> surroundings \<Rightarrow> u8 list \<Rightarrow>
     ('j, ('pk, 'sk) velo_key_pair) wallet_io"
where
  "open_contents lib keys env bytes =
     and_then (or_fail JsonError (json_value lib bytes)) (\<lambda>value.
     and_then
       (if has_version lib value then
          and_then (or_fail JsonError (as_wallet_file lib value)) (\<lambda>wallet.
          and_then (password env) (\<lambda>pw. decrypt lib wallet pw))
        else and_then (print PlaintextWarning) (\<lambda>_. or_fail JsonError (as_payload lib value)))
       (\<lambda>payload.
     and_then (or_fail HexError (hex_decode lib (wp_public_key payload))) (\<lambda>pk.
     and_then (or_fail HexError (hex_decode lib (wp_secret_key payload))) (\<lambda>sk.
     or_fail BadKeyBytes (key_pair_from_bytes keys pk sk)))))"

lemma load_eq: "wallet_load lib keys env path = and_then (read_file env path) (open_contents lib keys env)"
  unfolding wallet_load_def open_contents_def ..

lemma open_steady: "\<exists>r. steady (open_contents lib keys env bytes) r"
proof -
  have pw: "\<exists>r. steady (password env) r" unfolding password_def by blast
  have nce: "\<exists>r. steady (nonce_from_slice x) r" for x
    unfolding nonce_from_slice_def by (intro steady_if steady_ex)
  have dec: "\<exists>r. steady (decrypt lib wallet pw) r" for wallet pw
    unfolding decrypt_def by (intro steady_if steady_and_then_ex steady_ex nce)
  show ?thesis unfolding open_contents_def
    by (intro steady_and_then_ex steady_if steady_ex pw dec)
qed

definition opens_to ::
  "'j wallet_library \<Rightarrow> ('pk, 'sk, 'sg) dilithium_keys \<Rightarrow> surroundings \<Rightarrow> u8 list \<Rightarrow>
     ('pk, 'sk) velo_key_pair \<Rightarrow> bool"
where
  "opens_to lib keys env bytes kp \<longleftrightarrow> steady (open_contents lib keys env bytes) (Inr kp)"

text \<open>A wallet loads to the key pair its contents open to.\<close>

lemma load_iff:
  "(\<exists>w'. wallet_load lib keys env path w = (Inr kp, w')) \<longleftrightarrow>
     (\<exists>f. files w path = Some f \<and> io_fault env (io_ops w) = None \<and>
          opens_to lib keys env (contents f) kp)"
proof -
  have "(\<exists>w'. open_contents lib keys env bs v = (Inr kp, w')) \<longleftrightarrow> opens_to lib keys env bs kp" for bs v
  proof -
    obtain r where r: "steady (open_contents lib keys env bs) r" using open_steady by blast
    then have "opens_to lib keys env bs kp \<longleftrightarrow> r = Inr kp"
      unfolding opens_to_def steady_def by auto
    moreover have "(\<exists>w'. open_contents lib keys env bs v = (Inr kp, w')) \<longleftrightarrow> r = Inr kp"
      using r unfolding steady_def by (metis fst_conv prod.collapse)
    ultimately show ?thesis by blast
  qed
  then show ?thesis by (auto simp: load_eq io_ok)
qed

lemma load_files: "files (snd (wallet_load lib keys env path w)) = files w"
  and load_ops: "io_ops (snd (wallet_load lib keys env path w)) = Suc (io_ops w)"
proof -
  have "files (snd (open_contents lib keys env bs v)) = files v \<and>
      io_ops (snd (open_contents lib keys env bs v)) = io_ops v" for bs v
    using open_steady [of lib keys env bs] unfolding steady_def by blast
  then show "files (snd (wallet_load lib keys env path w)) = files w"
    "io_ops (snd (wallet_load lib keys env path w)) = Suc (io_ops w)"
    by (auto simp: load_eq and_then_def read_file_def split: option.splits sum.splits prod.splits)
qed

lemma load_Inr:
  assumes "wallet_load lib keys env path w = (Inr kp, w')"
  obtains f where "files w path = Some f" and "opens_to lib keys env (contents f) kp"
    and "files w' = files w" and "io_ops w' = Suc (io_ops w)"
proof -
  obtain f where "files w path = Some f" "opens_to lib keys env (contents f) kp"
    using assms load_iff [of lib keys env path w kp] by blast
  moreover have "files w' = files w" "io_ops w' = Suc (io_ops w)"
    using load_files [of lib keys env path w] load_ops [of lib keys env path w] assms by simp_all
  ultimately show thesis by (rule that)
qed

section \<open>What is stored opens\<close>

lemma encrypt_decrypts:
  assumes lib: "wallet_library_ok lib" and enc: "encrypt lib payload pw w = (Inr wallet, w')"
  shows "steady (decrypt lib wallet pw) (Inr payload)"
proof -
  let ?salt = "random_bytes lib (io_ops w) 16" and ?nce = "random_bytes lib (Suc (io_ops w)) 12"
  from enc obtain key plain ciphertext where
    parts: "argon2 lib pw ?salt = Some key" "payload_json lib payload = Some plain"
      "aead_encrypt lib key ?nce plain = Some ciphertext" and
    wallet: "wallet = \<lparr>wf_version = 1, wf_salt = hex_encode lib ?salt, wf_nonce = hex_encode lib ?nce,
      wf_ciphertext = hex_encode lib ciphertext\<rparr>"
    by (auto simp: encrypt_def io_ok)
  have laws: "hex_decode lib (hex_encode lib bs) = Some bs" "length ?nce = 12"
    "aead_decrypt lib key ?nce ciphertext = Some plain" "payload_of_json lib plain = Some payload" for bs
    using lib parts unfolding wallet_library_ok_def by blast+
  show ?thesis
    by (simp add: steady_def decrypt_def wallet and_then_def or_fail_def returns_def nonce_from_slice_def
        laws parts)
qed

lemma encrypt_files: "encrypt lib payload pw w = (Inr wallet, w') \<Longrightarrow> files w' = files w"
  by (auto simp: encrypt_def io_ok)

lemma store_Inr:
  assumes lib: "wallet_library_ok lib" and keys: "dilithium_ok keys"
    and st: "store_key_pair lib keys env path kp w = (Inr u, w')"
  obtains bytes where "files w' = (files w)(path \<mapsto> \<lparr>contents = bytes, owner_only = True\<rparr>)"
    and "opens_to lib keys env bytes kp"
proof -
  from st obtain pw wallet bytes w1 where
    pw: "env_var env ''VDAG_WALLET_PASSWORD'' = Some pw" and
    enc: "encrypt lib (wallet_payload_of lib keys kp) pw w = (Inr wallet, w1)" and
    js: "wallet_file_json lib wallet = Some bytes" and
    w': "files w' = (files w1)(path \<mapsto> \<lparr>contents = bytes, owner_only = True\<rparr>)"
    by (auto simp: store_key_pair_def io_ok password_def set_private_permissions_def)
  obtain jv where v: "json_value lib bytes = Some jv" "has_version lib jv"
    "as_wallet_file lib jv = Some wallet" using lib js unfolding wallet_library_ok_def by blast
  have hex: "hex_decode lib (hex_encode lib bs) = Some bs" for bs
    using lib unfolding wallet_library_ok_def by blast
  have dec: "\<exists>w'. decrypt lib wallet pw w = (Inr (wallet_payload_of lib keys kp), w') \<and>
      files w' = files w \<and> io_ops w' = io_ops w" for w :: "'a wallet_line world"
    using encrypt_decrypts [OF lib enc] unfolding steady_def by (metis prod.collapse)
  have "opens_to lib keys env bytes kp" unfolding opens_to_def steady_def
  proof
    fix w0 :: "'a wallet_line world"
    obtain w2 where "decrypt lib wallet pw w0 = (Inr (wallet_payload_of lib keys kp), w2)"
      "files w2 = files w0" "io_ops w2 = io_ops w0" using dec by blast
    then show "fst (open_contents lib keys env bytes w0) = Inr kp \<and>
        files (snd (open_contents lib keys env bytes w0)) = files w0 \<and>
        io_ops (snd (open_contents lib keys env bytes w0)) = io_ops w0"
      by (simp add: open_contents_def and_then_def or_fail_def returns_def v pw password_def
          wallet_payload_of_def hex key_pair_bytes [OF keys])
  qed
  moreover have "files w' = (files w)(path \<mapsto> \<lparr>contents = bytes, owner_only = True\<rparr>)"
    using w' encrypt_files [OF enc] by simp
  ultimately show thesis using that by blast
qed

text \<open>The file itself.\<close>

lemma store_written:
  assumes lib: "wallet_library_ok lib" and st: "store_key_pair lib keys env path kp w = (Inr u, w')"
  obtains bytes jv wallet salt nce where
    "files w' path = Some \<lparr>contents = bytes, owner_only = True\<rparr>"
    and "json_value lib bytes = Some jv" and "has_version lib jv" and "as_wallet_file lib jv = Some wallet"
    and "wf_version wallet = 1" and "hex_decode lib (wf_salt wallet) = Some salt" and "length salt = 16"
    and "hex_decode lib (wf_nonce wallet) = Some nce" and "length nce = 12"
proof -
  from st obtain pw wallet bytes w1 where
    enc: "encrypt lib (wallet_payload_of lib keys kp) pw w = (Inr wallet, w1)" and
    js: "wallet_file_json lib wallet = Some bytes" and
    w': "files w' path = Some \<lparr>contents = bytes, owner_only = True\<rparr>"
    by (auto simp: store_key_pair_def io_ok password_def set_private_permissions_def)
  obtain jv where v: "json_value lib bytes = Some jv" "has_version lib jv"
    "as_wallet_file lib jv = Some wallet" using lib js unfolding wallet_library_ok_def by blast
  have wf: "wf_version wallet = 1" "wf_salt wallet = hex_encode lib (random_bytes lib (io_ops w) 16)"
    "wf_nonce wallet = hex_encode lib (random_bytes lib (Suc (io_ops w)) 12)"
    using enc by (auto simp: encrypt_def io_ok)
  have "hex_decode lib (hex_encode lib bs) = Some bs" "length (random_bytes lib i n) = n" for bs i n
    using lib unfolding wallet_library_ok_def by blast+
  then show thesis using w' v wf
    by (intro that [of bytes jv wallet "random_bytes lib (io_ops w) 16" "random_bytes lib (Suc (io_ops w)) 12"])
      simp_all
qed

text \<open>A nonce of any other length is not an error of \<^verbatim>\<open>decrypt\<close> but a panic.\<close>

lemma short_nonce_panics:
  assumes "wf_version wallet = 1" and "hex_decode lib (wf_salt wallet) = Some salt"
    and "hex_decode lib (wf_nonce wallet) = Some nce" and "length nce \<noteq> 12"
    and "hex_decode lib (wf_ciphertext wallet) = Some c" and "argon2 lib pw salt = Some key"
  shows "fst (decrypt lib wallet pw w) = Inl Aborts"
  using assms by (simp add: decrypt_def and_then_def or_fail_def returns_def nonce_from_slice_def fails_def)

section \<open>Every command\<close>

lemma create_Inr:
  assumes "wallet_library_ok lib" and "dilithium_ok keys"
    and "create lib keys sha env path w = (Inr u, w')"
  obtains i bytes where "files w' = (files w)(path \<mapsto> \<lparr>contents = bytes, owner_only = True\<rparr>)"
    and "opens_to lib keys env bytes (generate keys i)"
proof -
  from assms(3) obtain w1 w2 where
    st: "store_key_pair lib keys env path (generate keys (Suc (io_ops w))) w1 = (Inr (), w2)"
    and w: "files w1 = files w" "files w' = files w2"
    by (auto simp: create_def io_ok split: if_splits)
  from store_Inr [OF assms(1,2) st] w that show thesis by metis
qed

lemma load_or_create_Inr:
  assumes "wallet_library_ok lib" and "dilithium_ok keys"
    and run: "load_or_create lib keys sha env path w = (Inr kp, w')"
  obtains f where "files w' path = Some f" and "opens_to lib keys env (contents f) kp"
    and "io_fault env (io_ops w) = None \<Longrightarrow> files w path = None \<Longrightarrow> owner_only f"
proof (cases "io_fault env (io_ops w) = None \<and> files w path \<noteq> None")
  case True
  then have "wallet_load lib keys env path (step_io w) = (Inr kp, w')"
    using run by (auto simp: load_or_create_def io_ok)
  from load_Inr [OF this] True that show thesis by (metis step_io_sels(1))
next
  case False
  with run obtain w1 w2 where
    st: "store_key_pair lib keys env path kp w1 = (Inr (), w2)" and w: "files w' = files w2"
    by (auto simp: load_or_create_def io_ok)
  from store_Inr [OF assms(1,2) st] w that show thesis
    by (metis fun_upd_same stored_file.select_convs)
qed

lemma load_touches: "touches_only ps (wallet_load lib keys env path)"
  by (simp add: touches_only_def load_files)

lemma encrypt_touches: "touches_only ps (encrypt lib payload pw)"
  unfolding encrypt_def by (intro touches)

lemma store_touches: "path \<in> ps \<Longrightarrow> touches_only ps (store_key_pair lib keys env path kp)"
  unfolding store_key_pair_def password_def set_private_permissions_def
  by (intro touches encrypt_touches)

lemma command_touches:
  "touches_only {path} (create lib keys sha env path)"
  "touches_only {path} (load_or_create lib keys sha env path)"
  "touches_only {destination} (backup lib keys env source destination)"
  "touches_only {destination} (restore lib keys env source destination)"
  unfolding create_def load_or_create_def backup_def restore_def set_private_permissions_def
  by (intro touches load_touches store_touches; simp)+

lemma load_or_create_again:
  assumes "wallet_library_ok lib" and "dilithium_ok keys"
    and "load_or_create lib keys sha env path w = (Inr kp, w')"
    and "files v path = files w' path"
    and "io_fault env (io_ops v) = None" and "io_fault env (Suc (io_ops v)) = None"
  shows "\<exists>v'. load_or_create lib keys sha env path v = (Inr kp, v') \<and> files v' = files v"
proof -
  obtain f where f: "files w' path = Some f" "opens_to lib keys env (contents f) kp"
    using load_or_create_Inr [OF assms(1-3)] by metis
  have "\<exists>v'. wallet_load lib keys env path (step_io v) = (Inr kp, v')"
    using f assms(4,6) by (simp add: load_iff)
  then obtain v' where v': "wallet_load lib keys env path (step_io v) = (Inr kp, v')" by blast
  from load_files [of lib keys env path "step_io v"] have "files v' = files v" by (simp add: v')
  moreover have "load_or_create lib keys sha env path v = (Inr kp, v')"
    using v' f assms(4,5) by (simp add: load_or_create_def and_then_def path_exists_def)
  ultimately show ?thesis by blast
qed

text \<open>A copy of a wallet opens to the same key pair.\<close>

lemma backup_Inr:
  assumes "backup lib keys env source destination w = (Inr u, w')"
  obtains f kp where "files w source = Some f" and "opens_to lib keys env (contents f) kp"
    and "files w' = (files w)(destination \<mapsto> \<lparr>contents = contents f, owner_only = True\<rparr>)"
proof -
  from assms obtain kp w1 where ld: "wallet_load lib keys env source w = (Inr kp, w1)"
    by (auto simp: backup_def io_ok)
  from load_Inr [OF ld] obtain f where f: "files w source = Some f"
    "opens_to lib keys env (contents f) kp" "files w1 = files w" by metis
  with assms ld have "files w' = (files w)(destination \<mapsto> \<lparr>contents = contents f, owner_only = True\<rparr>)"
    by (auto simp: backup_def io_ok set_private_permissions_def split: if_splits)
  with f that show thesis by blast
qed

lemma restore_Inr:
  assumes "restore lib keys env source destination w = (Inr u, w')"
  obtains f kp where "files w source = Some f" and "opens_to lib keys env (contents f) kp"
    and "files w' = (files w)(destination \<mapsto> \<lparr>contents = contents f, owner_only = True\<rparr>)"
proof -
  from assms obtain kp w1 where ld: "wallet_load lib keys env source w = (Inr kp, w1)"
    by (auto simp: restore_def io_ok)
  from load_Inr [OF ld] obtain f where f: "files w source = Some f"
    "opens_to lib keys env (contents f) kp" "files w1 = files w" by metis
  let ?w2 = "step_io (put_file destination (contents f) True
      (step_io (put_file destination (contents f) (owner_only f) (step_io w1))))"
  from assms ld f have "\<exists>kp2 w3. wallet_load lib keys env destination ?w2 = (Inr kp2, w3) \<and> files w' = files w3"
    by (auto simp: restore_def io_ok set_private_permissions_def split: if_splits)
  then have "files w' = files ?w2" using load_files by (metis snd_conv)
  with f that show thesis by simp
qed

section \<open>Sending a transfer\<close>

lemma open_shows: "RequestLine a rq \<in> set (shown (snd (open_contents lib keys env bytes w))) \<Longrightarrow>
    RequestLine a rq \<in> set (shown w)"
  by (auto simp: open_contents_def and_then_def or_fail_def returns_def fails_def print_def password_def
      decrypt_def nonce_from_slice_def split: option.splits if_splits)

lemma load_shows: "RequestLine a rq \<in> set (shown (snd (wallet_load lib keys env path w))) \<Longrightarrow>
    RequestLine a rq \<in> set (shown w)"
  using open_shows [where w = "step_io w"]
  by (auto simp: load_eq and_then_def read_file_def split: option.splits if_splits)

lemma parse_address_Inr:
  "parse_address lib t w = (Inr x, w') \<longleftrightarrow> w' = w \<and>
     (\<exists>bytes. hex_decode lib (if starts_with ''0x'' t then drop 2 t else t) = Some bytes \<and>
        length bytes = 32 \<and> x = Bytes32 bytes)"
  by (auto simp: parse_address_def Let_def io_ok split: if_splits)

text \<open>A successful \<^verbatim>\<open>submit\<close> sends one request, for the transfer it was asked for.\<close>

lemma submit_Inr:
  assumes "submit lib keys sha env path to amt nce rpc_address w = (Inr u, w')"
  obtains kp w1 x r where "wallet_load lib keys env path w = (Inr kp, w1)"
    and "parse_address lib to w1 = (Inr x, w1)"
    and "shown w' = shown w1 @
      [RequestLine rpc_address (submit_request lib (signed_transfer keys sha kp x amt nce)), ReplyLine r]"
proof -
  from assms obtain kp w1 x w2 where
    parts: "wallet_load lib keys env path w = (Inr kp, w1)" "parse_address lib to w1 = (Inr x, w2)"
    and rest: "and_then (tcp_op env (\<lambda>_. ())) (\<lambda>_.
     and_then (tcp_op env (\<lambda>_. ())) (\<lambda>_.
     and_then (print (RequestLine rpc_address (submit_request lib (signed_transfer keys sha kp x amt nce)))) (\<lambda>_.
     and_then (tcp_op env (\<lambda>_. ())) (\<lambda>_.
     and_then (tcp_op env (tcp_line env)) (\<lambda>response.
     print (ReplyLine (trim response))))))) w2 = (Inr u, w')"
    by (auto simp: submit_def Let_def and_then_Inr_iff [where m = "wallet_load lib keys env path"]
        and_then_Inr_iff [where m = "parse_address lib to"])
  have w2: "w2 = w1" using parts(2) by (simp add: parse_address_Inr)
  from rest obtain r where "shown w' = shown w2 @
      [RequestLine rpc_address (submit_request lib (signed_transfer keys sha kp x amt nce)), ReplyLine r]"
    by (auto simp: io_ok tcp_op_def split: if_splits)
  with parts w2 that show thesis by simp
qed

lemma submit_sends:
  assumes "submit lib keys sha env path to amt nce rpc_address w = (Inr u, w')"
    and "RequestLine a rq \<in> set (shown w')"
  shows "RequestLine a rq \<in> set (shown w) \<or> (\<exists>tx. rq = submit_request lib tx)"
proof -
  obtain kp w1 x r where "wallet_load lib keys env path w = (Inr kp, w1)"
    "shown w' = shown w1 @
      [RequestLine rpc_address (submit_request lib (signed_transfer keys sha kp x amt nce)), ReplyLine r]"
    using submit_Inr [OF assms(1)] by metis
  then show ?thesis using assms(2) load_shows [of a rq lib keys env path w] by auto
qed

end
