(* ===== verification/Network_Config.thy ===== *)
theory Network_Config
  imports World Block
begin

text \<open>
  The network a node runs on and its list of seeds (\<^verbatim>\<open>vdag-node/src/network_config.rs\<close>).  Ed25519,
  JSON and hexadecimal are third-party crates, the fields of \<open>config_library\<close>.
\<close>

record bootstrap_config =
  bc_network :: string
  bc_network_id :: u64
  bc_genesis_hash :: string
  bc_seeds :: "string list"
  bc_signing_key :: string
  bc_signature :: string

record ('vk, 'es, 'ek) config_library =
  vk_from_bytes :: "u8 list \<Rightarrow> 'vk option"
  vk_to_bytes :: "'vk \<Rightarrow> u8 list"
  es_from_slice :: "u8 list \<Rightarrow> 'es option"
  es_to_bytes :: "'es \<Rightarrow> u8 list"
  verifying_key :: "'ek \<Rightarrow> 'vk"
  ed_sign :: "'ek \<Rightarrow> u8 list \<Rightarrow> 'es"
  ed_verify :: "'vk \<Rightarrow> u8 list \<Rightarrow> 'es \<Rightarrow> bool"
  cfg_hex :: "u8 list \<Rightarrow> string"
  cfg_unhex :: "string \<Rightarrow> u8 list option"
  config_json :: "bootstrap_config \<Rightarrow> u8 list"
  config_of_json :: "string \<Rightarrow> bootstrap_config option"

section \<open>The signature\<close>

definition canonical_payload :: "('vk, 'es, 'ek) config_library \<Rightarrow> bootstrap_config \<Rightarrow> u8 list" where
  "canonical_payload lib c = config_json lib (c\<lparr>bc_signature := [], bc_signing_key := []\<rparr>)"

definition config_verifies :: "('vk, 'es, 'ek) config_library \<Rightarrow> bootstrap_config \<Rightarrow> bool" where
  "config_verifies lib c =
     (if bc_signing_key c = [] \<or> bc_signature c = [] then False else
      case cfg_unhex lib (bc_signing_key c) of None \<Rightarrow> False
      | Some key_bytes \<Rightarrow>
     (case cfg_unhex lib (bc_signature c) of None \<Rightarrow> False
      | Some signature_bytes \<Rightarrow>
          if length key_bytes \<noteq> 32 then False else
     (case vk_from_bytes lib key_bytes of None \<Rightarrow> False
      | Some key \<Rightarrow>
     (case es_from_slice lib signature_bytes of None \<Rightarrow> False
      | Some sg \<Rightarrow> ed_verify lib key (canonical_payload lib c) sg))))"

definition with_signature ::
  "('vk, 'es, 'ek) config_library \<Rightarrow> bootstrap_config \<Rightarrow> 'ek \<Rightarrow> bootstrap_config"
where
  "with_signature lib c secret_key =
     (let c = c\<lparr>bc_signing_key := cfg_hex lib (vk_to_bytes lib (verifying_key lib secret_key))\<rparr>;
          payload = canonical_payload lib c
      in c\<lparr>bc_signature := cfg_hex lib (es_to_bytes lib (ed_sign lib secret_key payload))\<rparr>)"

section \<open>The network\<close>

definition to_ascii_lowercase :: "string \<Rightarrow> string" where
  "to_ascii_lowercase =
     map (\<lambda>c. let n = of_char c :: nat in if 65 \<le> n \<and> n \<le> 90 then char_of (n + 32) else c)"

definition resolve_network_environment :: "surroundings \<Rightarrow> string" where
  "resolve_network_environment env =
     to_ascii_lowercase (case env_var env ''VDAG_NETWORK'' of None \<Rightarrow> ''devnet'' | Some n \<Rightarrow> n)"

definition resolve_network_id :: "string \<Rightarrow> u64" where
  "resolve_network_id network_name =
     (if network_name = ''devnet'' then DEVNET_NETWORK_ID
      else if network_name = ''testnet'' then TESTNET_NETWORK_ID
      else if network_name = ''mainnet'' then MAINNET_NETWORK_ID
      else DEVNET_NETWORK_ID)"

definition genesis_hash_of_network :: "digest \<Rightarrow> string \<Rightarrow> block_hash" where
  "genesis_hash_of_network sha network_name =
     fixed_genesis_hash_for_network sha (resolve_network_id network_name)"

definition default_bootstrap_config ::
  "('vk, 'es, 'ek) config_library \<Rightarrow> digest \<Rightarrow> string \<Rightarrow> bootstrap_config"
where
  "default_bootstrap_config lib sha network_name =
     \<lparr>bc_network = network_name, bc_network_id = resolve_network_id network_name,
      bc_genesis_hash = cfg_hex lib (bytes_of (genesis_hash_of_network sha network_name)),
      bc_seeds =
        (if network_name = ''devnet'' then [''/ip4/127.0.0.1/tcp/4001'']
         else if network_name = ''testnet''
         then [''/ip4/127.0.0.1/tcp/4001'', ''/ip4/127.0.0.1/tcp/4002'']
         else []),
      bc_signing_key = [], bc_signature = []\<rparr>"

section \<open>The bootstrap file\<close>

definition bootstrap_config_path :: "surroundings \<Rightarrow> string \<Rightarrow> string" where
  "bootstrap_config_path env network_name =
     (case env_var env ''VDAG_BOOTSTRAP_CONFIG'' of
        None \<Rightarrow> ''bootstrap.'' @ network_name @ ''.json''
      | Some path \<Rightarrow> path)"

datatype config_error = ParseFailed string | SignatureFailed string

definition load_bootstrap_config_from_path ::
  "('vk, 'es, 'ek) config_library \<Rightarrow> digest \<Rightarrow> surroundings \<Rightarrow> string \<Rightarrow> string \<Rightarrow> 'o world \<Rightarrow>
     (config_error, bootstrap_config) result \<times> 'o world"
where
  "load_bootstrap_config_from_path lib sha env path network_name w =
     (case read_text env path w of
        (Inr text, w') \<Rightarrow>
          (case config_of_json lib text of
             None \<Rightarrow> (Inl (ParseFailed path), w')
           | Some c \<Rightarrow>
               if \<not> config_verifies lib c then (Inl (SignatureFailed path), w') else (Inr c, w'))
      | (Inl _, w') \<Rightarrow> (Inr (default_bootstrap_config lib sha network_name), w'))"

definition load_bootstrap_config ::
  "('vk, 'es, 'ek) config_library \<Rightarrow> digest \<Rightarrow> surroundings \<Rightarrow> string \<Rightarrow> 'o world \<Rightarrow>
     (config_error, bootstrap_config) result \<times> 'o world"
where
  "load_bootstrap_config lib sha env network_name =
     load_bootstrap_config_from_path lib sha env (bootstrap_config_path env network_name) network_name"

text \<open>\<^verbatim>\<open>load_bootstrap_config(..).unwrap_or_else(|_| default_bootstrap_config(..))\<close>\<close>

definition bootstrap_config_or_default ::
  "('vk, 'es, 'ek) config_library \<Rightarrow> digest \<Rightarrow> surroundings \<Rightarrow> string \<Rightarrow> 'o world \<Rightarrow>
     bootstrap_config \<times> 'o world"
where
  "bootstrap_config_or_default lib sha env network_name w =
     (case load_bootstrap_config lib sha env network_name w of
        (Inr c, w') \<Rightarrow> (c, w')
      | (Inl _, w') \<Rightarrow> (default_bootstrap_config lib sha network_name, w'))"

definition seed_addresses_for_environment ::
  "('vk, 'es, 'ek) config_library \<Rightarrow> digest \<Rightarrow> surroundings \<Rightarrow> string \<Rightarrow> 'o world \<Rightarrow>
     string list \<times> 'o world"
where
  "seed_addresses_for_environment lib sha env network_name w =
     (case bootstrap_config_or_default lib sha env network_name w of (c, w') \<Rightarrow> (bc_seeds c, w'))"

section \<open>What the crates promise\<close>

definition config_library_ok :: "('vk, 'es, 'ek) config_library \<Rightarrow> bool" where
  "config_library_ok lib \<longleftrightarrow>
     (\<forall>key. vk_from_bytes lib (vk_to_bytes lib key) = Some key \<and> length (vk_to_bytes lib key) = 32) \<and>
     (\<forall>sg. es_from_slice lib (es_to_bytes lib sg) = Some sg \<and> es_to_bytes lib sg \<noteq> []) \<and>
     (\<forall>secret message. ed_verify lib (verifying_key lib secret) message (ed_sign lib secret message)) \<and>
     (\<forall>bytes. cfg_unhex lib (cfg_hex lib bytes) = Some bytes) \<and>
     (\<forall>bytes. cfg_hex lib bytes = [] \<longrightarrow> bytes = []) \<and>
     (\<forall>c. config_of_json lib (map (\<lambda>b. char_of (unat b)) (config_json lib c)) = Some c) \<and>
     (\<forall>c. valid_utf8 (map unat (config_json lib c)))"

lemma with_signature_fields [simp]:
  "bc_network (with_signature lib c k) = bc_network c"
  "bc_network_id (with_signature lib c k) = bc_network_id c"
  "bc_genesis_hash (with_signature lib c k) = bc_genesis_hash c"
  "bc_seeds (with_signature lib c k) = bc_seeds c"
  "canonical_payload lib (with_signature lib c k) = canonical_payload lib c"
  by (simp_all add: with_signature_def canonical_payload_def Let_def)

lemma with_signature_verifies:
  assumes "config_library_ok lib"
  shows "config_verifies lib (with_signature lib c secret)"
proof -
  let ?key = "vk_to_bytes lib (verifying_key lib secret)"
  let ?sg = "ed_sign lib secret (canonical_payload lib c)"
  have key: "?key \<noteq> []" "length ?key = 32" "vk_from_bytes lib ?key = Some (verifying_key lib secret)"
    using assms unfolding config_library_ok_def by (metis list.size(3) zero_neq_numeral, blast+)
  have sg: "es_to_bytes lib ?sg \<noteq> []" "es_from_slice lib (es_to_bytes lib ?sg) = Some ?sg"
    "ed_verify lib (verifying_key lib secret) (canonical_payload lib c) ?sg"
    using assms unfolding config_library_ok_def by blast+
  have hex: "cfg_unhex lib (cfg_hex lib bs) = Some bs" "cfg_hex lib bs = [] \<Longrightarrow> bs = []" for bs
    using assms unfolding config_library_ok_def by blast+
  have fields: "bc_signing_key (with_signature lib c secret) = cfg_hex lib ?key"
    "bc_signature (with_signature lib c secret) = cfg_hex lib (es_to_bytes lib ?sg)"
    by (simp_all add: with_signature_def canonical_payload_def Let_def)
  show ?thesis unfolding config_verifies_def fields
    using hex(2) key sg by (auto simp: hex(1))
qed

text \<open>What a node uses is its default or a configuration that passes its own check.\<close>

lemma loaded_config_cases:
  "load_bootstrap_config_from_path lib sha env path name w = (Inr c, w') \<Longrightarrow>
     c = default_bootstrap_config lib sha name \<or> config_verifies lib c"
  by (auto simp: load_bootstrap_config_from_path_def split: prod.splits sum.splits option.splits if_splits)

end
