(* ===== verification/Command_Line.thy ===== *)
theory Command_Line
  imports Wallet Network_Config Storage
begin

text \<open>
  The rest of \<^verbatim>\<open>vdag-node/src/main.rs\<close>: how the arguments are read, the wallet commands, the block
  explorer, the node's identity file, and the list of peers it dials.
\<close>

section \<open>Arguments\<close>

definition arg :: "string list \<Rightarrow> nat \<Rightarrow> string option" where
  "arg args i = (if i < length args then Some (args ! i) else None)"

definition cli_dial_targets :: "string list \<Rightarrow> string list" where
  "cli_dial_targets args =
     List.map_filter (\<lambda>(i, a). if a = ''--dial'' then arg args (i + 1) else None)
       (enumerate 0 args)"

definition p2p_port :: "surroundings \<Rightarrow> u16" where
  "p2p_port env =
     (case env_var env ''VDAG_P2P_PORT'' of
        None \<Rightarrow> 0
      | Some p \<Rightarrow> (case parse_unsigned 10 p of None \<Rightarrow> 0 | Some port \<Rightarrow> port))"

datatype run_mode = WalletCommand "string list" | ExploreBlock string | RunNode "string list"

definition run_mode_of :: "string list \<Rightarrow> run_mode" where
  "run_mode_of args =
     (if arg args 1 = Some ''wallet'' then WalletCommand (drop 2 args)
      else if length args > 2 \<and> args ! 1 = ''--get-block'' then ExploreBlock (args ! 2)
      else RunNode (cli_dial_targets args))"

section \<open>Wallet commands\<close>

definition parse_u64 :: "string \<Rightarrow> ('j, u64) wallet_io" where
  "parse_u64 text = or_fail BadNumber (parse_unsigned 10 text)"

definition handle_wallet_command ::
  "'j wallet_library \<Rightarrow> ('pk, 'sk, 'sg) dilithium_keys \<Rightarrow> digest \<Rightarrow> surroundings \<Rightarrow> string list \<Rightarrow>
     ('j, unit) wallet_io"
where
  "handle_wallet_command lib keys sha env args =
     (case args of
        [command, path] \<Rightarrow>
          if command = ''create'' then create lib keys sha env path
          else if command = ''address'' then wallet_address lib keys sha env path
          else if command = ''verify'' then verify lib keys sha env path
          else fails Usage
      | [command, source, destination] \<Rightarrow>
          if command = ''backup'' then backup lib keys env source destination
          else if command = ''restore'' then restore lib keys env source destination
          else fails Usage
      | [command, path, to, amt, nce] \<Rightarrow>
          if command = ''sign-transfer'' then
            and_then (parse_u64 amt) (\<lambda>a.
            and_then (parse_u64 nce) (\<lambda>n. sign_transfer lib keys sha env path to a n))
          else fails Usage
      | [command, path, to, amt, nce, rpc_address] \<Rightarrow>
          if command = ''submit'' then
            and_then (parse_u64 amt) (\<lambda>a.
            and_then (parse_u64 nce) (\<lambda>n. submit lib keys sha env path to a n rpc_address))
          else fails Usage
      | _ \<Rightarrow> fails Usage)"

section \<open>The explorer\<close>

record explorer_dag =
  ex_score :: u64
  ex_blue_count :: nat
  ex_red_count :: nat

record explorer_report =
  ex_height :: u64
  ex_block_nonce :: u64
  ex_transactions :: nat
  ex_miner_subsidy :: u64
  ex_dev_tax :: u64
  ex_dag :: "explorer_dag option"

text \<open>The report it prints, if any; \<^const>\<open>None\<close> on the outside is a panic of \<^const>\<open>decode_hex\<close>.\<close>

definition run_explorer ::
  "faults \<Rightarrow> bincode \<Rightarrow> blockchain_storage \<Rightarrow> string \<Rightarrow>
     explorer_report option option \<times> blockchain_storage"
where
  "run_explorer fault bc st hash_str =
     (case decode_hex hash_str of
        Inl SlicePanic \<Rightarrow> (None, st)
      | Inl BadDigit \<Rightarrow> (Some None, st)
      | Inr bytes \<Rightarrow>
          if length bytes \<noteq> 32 then (Some None, st) else
          (let target_hash = Bytes32 bytes in
           case load_block fault bc target_hash st of
             (Inl _, st) \<Rightarrow> (Some None, st)
           | (Inr None, st) \<Rightarrow> (Some None, st)
           | (Inr (Some blk), st) \<Rightarrow>
               (case load_ghostdag_data fault bc target_hash st of
                  (r, st) \<Rightarrow>
                    (Some (Some
                       \<lparr>ex_height = block_height blk, ex_block_nonce = nonce (header blk),
                        ex_transactions = length (transactions blk),
                        ex_miner_subsidy = coinbase_miner_output blk,
                        ex_dev_tax = coinbase_dev_output blk,
                        ex_dag =
                          (case r of
                             Inr (Some dag) \<Rightarrow>
                               Some \<lparr>ex_score = blue_score dag, ex_blue_count = length (blues dag),
                                     ex_red_count = length (reds dag)\<rparr>
                           | _ \<Rightarrow> None)\<rparr>), st))))"

section \<open>The identity file\<close>

record 'k identity_library =
  id_decode :: "u8 list \<Rightarrow> 'k option"
  id_encode :: "'k \<Rightarrow> u8 list option"
  id_generate :: "nat \<Rightarrow> 'k"

definition new_identity :: "'k identity_library \<Rightarrow> surroundings \<Rightarrow> string \<Rightarrow> ('o, 'k) io" where
  "new_identity lib env path =
     and_then (draw (id_generate lib)) (\<lambda>key.
     and_then (or_fail EncodingError (id_encode lib key)) (\<lambda>bytes.
     and_then (write_file env path bytes) (\<lambda>_.
     returns key)))"

text \<open>A file that cannot be read and a file that does not parse are both replaced.\<close>

definition load_or_create_identity :: "'k identity_library \<Rightarrow> surroundings \<Rightarrow> string \<Rightarrow> ('o, 'k) io" where
  "load_or_create_identity lib env path w =
     (case read_file env path w of
        (Inr bytes, w') \<Rightarrow>
          (case id_decode lib bytes of
             Some key \<Rightarrow> (Inr key, w')
           | None \<Rightarrow> new_identity lib env path w')
      | (Inl _, w') \<Rightarrow> new_identity lib env path w')"

section \<open>Peers to dial\<close>

definition load_bootstrap_peers :: "surroundings \<Rightarrow> string \<Rightarrow> 'o world \<Rightarrow> string list \<times> 'o world" where
  "load_bootstrap_peers env path w =
     (case read_text env path w of
        (Inr text, w') \<Rightarrow>
          (filter (\<lambda>l. l \<noteq> [] \<and> \<not> starts_with ''#'' l) (map trim (lines text)), w')
      | (Inl _, w') \<Rightarrow> ([], w'))"

text \<open>The addresses the node dials: from the command line, the network's seeds, the peer file.\<close>

definition dial_list ::
  "('vk, 'es, 'ek) config_library \<Rightarrow> digest \<Rightarrow> surroundings \<Rightarrow> string list \<Rightarrow> string \<Rightarrow> 'o world \<Rightarrow>
     string list \<times> 'o world"
where
  "dial_list lib sha env cli network_name w =
     (case bootstrap_config_or_default lib sha env network_name w of (c, w) \<Rightarrow>
      case load_bootstrap_peers env ''bootstrap_peers.txt'' w of (peers, w) \<Rightarrow>
        (cli @ bc_seeds c @ peers, w))"

section \<open>What they do\<close>

text \<open>A hash of an odd number of digits makes the explorer panic.\<close>

lemma run_explorer_odd:
  "d < 16 \<Longrightarrow> run_explorer fault bc st (encode_hex bytes @ [hex_digit d]) = (None, st)"
  by (simp add: run_explorer_def decode_odd)

lemma run_explorer_stored:
  assumes "\<And>i. \<not> fault i" and "blocks_tree st h = Some bytes" and "de_block bc bytes = Some b"
  shows "\<exists>report st'. run_explorer fault bc st (encode_hex (bytes_of h)) = (Some (Some report), st') \<and>
    ex_height report = block_height b \<and> ex_block_nonce report = nonce (header b) \<and>
    ex_transactions report = length (transactions b) \<and>
    ex_miner_subsidy report = coinbase_miner_output b \<and> ex_dev_tax report = coinbase_dev_output b"
proof -
  obtain st1 where "load_block fault bc h st = (Inr (Some b), st1)"
    using assms by (auto simp: load_block_def read_entry_def db_op_def Let_def)
  then show ?thesis
    by (auto simp: run_explorer_def Let_def bytes_of_inverse split: prod.splits)
qed

lemma new_identity_Inr:
  "new_identity lib env path w = (Inr key, w') \<longleftrightarrow>
     io_fault env (Suc (io_ops w)) = None \<and> key = id_generate lib (io_ops w) \<and>
     (\<exists>bytes. id_encode lib key = Some bytes \<and>
        w' = step_io (put_file path bytes (mode_of (step_io w) path) (step_io w)))"
  by (auto simp: new_identity_def io_ok)

text \<open>Once stored, an identity is what every later start loads.\<close>

lemma load_identity_again:
  assumes codec: "\<And>key bytes. id_encode lib key = Some bytes \<Longrightarrow> id_decode lib bytes = Some key"
    and run: "load_or_create_identity lib env path w = (Inr key, w')"
    and same: "files v path = files w' path" and read: "io_fault env (io_ops v) = None"
  shows "load_or_create_identity lib env path v = (Inr key, step_io v)"
proof -
  have "\<exists>f. files w' path = Some f \<and> id_decode lib (contents f) = Some key"
    using run
    by (auto simp: load_or_create_identity_def read_file_def new_identity_Inr
        split: prod.splits sum.splits option.splits if_splits dest!: codec)
  then show ?thesis using same read by (auto simp: load_or_create_identity_def read_file_def)
qed

text \<open>One failed read is enough to lose it.\<close>

lemma identity_lost:
  assumes "io_fault env (io_ops w) \<noteq> None" and "io_fault env (Suc (Suc (io_ops w))) = None"
    and "id_encode lib (id_generate lib (Suc (io_ops w))) = Some bytes"
  shows "\<exists>w' f. load_or_create_identity lib env path w = (Inr (id_generate lib (Suc (io_ops w))), w') \<and>
    files w' path = Some f \<and> contents f = bytes"
  using assms
  by (auto simp: load_or_create_identity_def read_file_def new_identity_def and_then_def draw_def
      or_fail_def returns_def write_file_def split: option.splits)

end
