(* ===== verification/Rpc_Server.thy ===== *)
theory Rpc_Server
  imports Rpc World
begin

text \<open>
  The RPC server around its dispatcher (\<^verbatim>\<open>serve\<close> and \<^verbatim>\<open>handle_connection\<close> of
  \<^verbatim>\<open>vdag-node/src/rpc.rs\<close>): the two connection limits, and the lines of one connection.
\<close>

definition MAX_CONCURRENT_RPC_CONNECTIONS :: nat where
  "MAX_CONCURRENT_RPC_CONNECTIONS = 256"

definition RPC_MAX_CONNECTIONS_PER_IP :: nat where
  "RPC_MAX_CONNECTIONS_PER_IP = 16"

section \<open>Accepting connections\<close>

text \<open>The free permits of the semaphore and the connections of every address.\<close>

record 'i rpc_server =
  free_permits :: nat
  per_ip_connections :: "'i \<rightharpoonup> nat"

definition rpc_server_new :: "'i rpc_server" where
  "rpc_server_new =
     \<lparr>free_permits = MAX_CONCURRENT_RPC_CONNECTIONS, per_ip_connections = Map.empty\<rparr>"

text \<open>
  One round of the accept loop, \<^const>\<open>True\<close> when the connection gets its task.  The permit of a
  refused connection is given back at once.
\<close>

definition rpc_accept :: "'i rpc_server \<Rightarrow> 'i \<Rightarrow> bool \<times> 'i rpc_server" where
  "rpc_accept s ip =
     (if free_permits s = 0 then (False, s) else
      let s = s\<lparr>free_permits := free_permits s - 1\<rparr>;
          n = get_or 0 (per_ip_connections s) ip;
          s = s\<lparr>per_ip_connections := (per_ip_connections s)(ip \<mapsto> n)\<rparr>
      in if n \<ge> RPC_MAX_CONNECTIONS_PER_IP
         then (False, s\<lparr>free_permits := free_permits s + 1\<rparr>)
         else (True, s\<lparr>per_ip_connections := (per_ip_connections s)(ip \<mapsto> n + 1)\<rparr>))"

text \<open>The end of a connection's task: first its address is uncounted, then its permit dropped.\<close>

definition rpc_uncount :: "'i rpc_server \<Rightarrow> 'i \<Rightarrow> 'i rpc_server" where
  "rpc_uncount s ip =
     (case per_ip_connections s ip of
        None \<Rightarrow> s
      | Some n \<Rightarrow>
          if n - 1 = 0
          then s\<lparr>per_ip_connections := (per_ip_connections s)(ip := None)\<rparr>
          else s\<lparr>per_ip_connections := (per_ip_connections s)(ip \<mapsto> n - 1)\<rparr>)"

definition rpc_drop_permit :: "'i rpc_server \<Rightarrow> 'i rpc_server" where
  "rpc_drop_permit s = s\<lparr>free_permits := free_permits s + 1\<rparr>"

section \<open>Starting to serve\<close>

datatype serve_notice = ServesUnprotected | ServesAuthenticated

record 'i serving =
  sv_token :: "string option"
  sv_notice :: "serve_notice option"
  sv_server :: "'i rpc_server"

text \<open>\<^const>\<open>None\<close> is the error of \<^verbatim>\<open>serve\<close> when it cannot bind its address.\<close>

definition serve_start :: "(string \<Rightarrow> bool) \<Rightarrow> surroundings \<Rightarrow> string \<Rightarrow> 'i serving option" where
  "serve_start bind env address =
     (if \<not> bind address then None else
      let auth_token = env_var env ''VDAG_RPC_TOKEN'';
          is_loopback = starts_with ''127.0.0.1'' address \<or> starts_with ''localhost'' address
      in Some
        \<lparr>sv_token = auth_token,
         sv_notice =
           (case (auth_token, is_loopback) of
              (None, False) \<Rightarrow> Some ServesUnprotected
            | (Some _, _) \<Rightarrow> Some ServesAuthenticated
            | (None, True) \<Rightarrow> None),
         sv_server = rpc_server_new\<rparr>)"

text \<open>
  The accept loop, fed with the address of the next connection or with a failed \<^verbatim>\<open>accept\<close>, which
  ends \<^verbatim>\<open>serve\<close> and so the server.
\<close>

definition serve_step :: "'i rpc_server option \<Rightarrow> 'i option \<Rightarrow> 'i rpc_server option" where
  "serve_step s conn =
     (case s of
        None \<Rightarrow> None
      | Some server \<Rightarrow>
          (case conn of None \<Rightarrow> None | Some ip \<Rightarrow> Some (snd (rpc_accept server ip))))"

lemma serve_ends: "foldl serve_step s (before @ None # later) = None"
proof -
  have "foldl serve_step None conns = None" for conns :: "'a option list"
    by (induction conns) (simp_all add: serve_step_def)
  then show ?thesis by (simp add: serve_step_def split: option.split)
qed

text \<open>
  The tasks and the accept loop interleave: \<open>open\<close> are the addresses of the connections being
  served, \<open>closing\<close> the number of tasks between their two last steps.
\<close>

inductive rpc_run :: "'i list \<Rightarrow> nat \<Rightarrow> 'i rpc_server \<Rightarrow> bool" where
  start: "rpc_run [] 0 rpc_server_new"
| accepted: "rpc_run conns closing s \<Longrightarrow> rpc_accept s ip = (True, s') \<Longrightarrow> rpc_run (ip # conns) closing s'"
| refused: "rpc_run conns closing s \<Longrightarrow> rpc_accept s ip = (False, s') \<Longrightarrow> rpc_run conns closing s'"
| uncounted: "rpc_run conns closing s \<Longrightarrow> ip \<in> set conns \<Longrightarrow>
    rpc_run (remove1 ip conns) (Suc closing) (rpc_uncount s ip)"
| dropped: "rpc_run conns (Suc closing) s \<Longrightarrow> rpc_run conns closing (rpc_drop_permit s)"

definition rpc_counted :: "'i list \<Rightarrow> nat \<Rightarrow> 'i rpc_server \<Rightarrow> bool" where
  "rpc_counted conns closing s \<longleftrightarrow>
     free_permits s + length conns + closing = MAX_CONCURRENT_RPC_CONNECTIONS \<and>
     (\<forall>ip. per_ip_connections s ip =
        (if ip \<in> set conns then Some (count_list conns ip) else None)) \<and>
     (\<forall>ip. count_list conns ip \<le> RPC_MAX_CONNECTIONS_PER_IP)"

lemma count_list_remove1:
  "count_list (remove1 x xs) y = (if x = y then count_list xs y - 1 else count_list xs y)"
  by (induction xs) (auto simp: count_list_0_iff)

lemma in_remove1_count: "y \<in> set (remove1 x xs) \<longleftrightarrow> 0 < count_list (remove1 x xs) y"
  by (metis count_list_0_iff gr0I less_irrefl)

lemma counted_get: "rpc_counted conns closing s \<Longrightarrow> get_or 0 (per_ip_connections s) ip = count_list conns ip"
  by (auto simp: rpc_counted_def get_or_def count_list_0_iff)

lemma counted_accept:
  assumes "rpc_counted conns closing s" and "rpc_accept s ip = (ok, s')"
  shows "rpc_counted (if ok then ip # conns else conns) closing s'"
proof (cases "free_permits s = 0 \<or> RPC_MAX_CONNECTIONS_PER_IP \<le> count_list conns ip")
  case True
  then have no: "ok = False" "free_permits s' = free_permits s"
    "per_ip_connections s' = (if free_permits s = 0 then per_ip_connections s
       else (per_ip_connections s)(ip \<mapsto> count_list conns ip))"
    using assms(2) counted_get [OF assms(1), of ip]
    by (auto simp: rpc_accept_def Let_def split: if_splits)
  have "ip \<in> set conns" if "free_permits s \<noteq> 0"
    using True that count_list_0_iff [of conns ip] by (auto simp: RPC_MAX_CONNECTIONS_PER_IP_def)
  then show ?thesis using assms(1) no by (auto simp: rpc_counted_def)
next
  case False
  then have "ok = True" "free_permits s' = free_permits s - 1"
    "per_ip_connections s' = (per_ip_connections s)(ip \<mapsto> count_list conns ip + 1)"
    using assms(2) counted_get [OF assms(1), of ip]
    by (auto simp: rpc_accept_def Let_def split: if_splits)
  then show ?thesis using assms(1) False by (auto simp: rpc_counted_def count_list_0_iff)
qed

lemma counted_uncount:
  assumes "rpc_counted conns closing s" and "ip \<in> set conns"
  shows "rpc_counted (remove1 ip conns) (Suc closing) (rpc_uncount s ip)"
proof -
  have at: "per_ip_connections s ip = Some (count_list conns ip)"
    and all: "\<And>i. per_ip_connections s i = (if i \<in> set conns then Some (count_list conns i) else None)"
    and pos: "0 < count_list conns ip"
    using assms count_list_0_iff [of conns ip] by (auto simp: rpc_counted_def)
  have "free_permits (rpc_uncount s ip) = free_permits s"
    by (simp add: rpc_uncount_def split: option.split)
  moreover have "per_ip_connections (rpc_uncount s ip) i =
      (if i \<in> set (remove1 ip conns) then Some (count_list (remove1 ip conns) i) else None)" for i
  proof (cases "i = ip")
    case True
    then show ?thesis using at by (simp add: rpc_uncount_def in_remove1_count count_list_remove1)
  next
    case False
    then show ?thesis using at all [of i]
      by (simp add: rpc_uncount_def count_list_remove1)
  qed
  moreover have "length (remove1 ip conns) = length conns - 1"
    using assms(2) by (auto simp: length_remove1)
  moreover have "count_list (remove1 ip conns) i \<le> RPC_MAX_CONNECTIONS_PER_IP" for i
  proof -
    have "count_list conns i \<le> RPC_MAX_CONNECTIONS_PER_IP" using assms(1) by (simp add: rpc_counted_def)
    then show ?thesis by (simp add: count_list_remove1)
  qed
  moreover have "Suc (length conns - 1) = length conns" using assms(2) by (cases conns) auto
  moreover have "free_permits s + length conns + closing = MAX_CONCURRENT_RPC_CONNECTIONS"
    using assms(1) by (simp add: rpc_counted_def)
  ultimately show ?thesis unfolding rpc_counted_def by simp
qed

lemma rpc_run_counted: "rpc_run conns closing s \<Longrightarrow> rpc_counted conns closing s"
proof (induction rule: rpc_run.induct)
  case start
  show ?case by (simp add: rpc_counted_def rpc_server_new_def)
next
  case (accepted conns closing s ip s')
  then show ?case using counted_accept [of conns closing s ip True s'] by simp
next
  case (refused conns closing s ip s')
  then show ?case using counted_accept [of conns closing s ip False s'] by simp
next
  case (uncounted conns closing s ip)
  then show ?case by (simp add: counted_uncount)
next
  case (dropped conns closing s)
  then show ?case by (simp add: rpc_counted_def rpc_drop_permit_def)
qed

section \<open>One connection\<close>

datatype line_result = RequestText string | FramingFault

text \<open>
  A line that arrives: when, what, the ledger at that moment, what the rest of the node has done
  to the mempool before it, and whether the response can be written.
\<close>

record incoming =
  in_time :: nat
  in_line :: line_result
  in_ledger :: ledger_state
  in_others :: "mempool \<Rightarrow> mempool"
  in_written :: bool

definition handle_line ::
  "('pk, 'sg) dilithium \<Rightarrow> digest \<Rightarrow> 'j rpc_codec \<Rightarrow> (string \<Rightarrow> 'j rpc_request option) \<Rightarrow>
     string option \<Rightarrow> incoming \<Rightarrow> rate_limiter \<Rightarrow> mempool \<Rightarrow>
     ('j option \<times> rpc_response) \<times> rate_limiter \<times> mempool"
where
  "handle_line lib sha codec parse auth_token line limiter pool =
     (let pool = in_others line pool in
      case in_line line of
        FramingFault \<Rightarrow> ((None, RpcError FramingFailed), limiter, pool)
      | RequestText text \<Rightarrow>
          (case rate_check (in_time line) limiter of (allowed, limiter) \<Rightarrow>
             if \<not> allowed then ((None, RpcError RateLimited), limiter, pool) else
             case parse text of
               None \<Rightarrow> ((None, RpcError InvalidRequest), limiter, pool)
             | Some request \<Rightarrow>
                 (case dispatch lib sha codec auth_token (in_ledger line) request pool of
                    (response, pool) \<Rightarrow> (response, limiter, pool))))"

text \<open>The loop over the lines; a response that cannot be written ends the connection.\<close>

fun serve_lines ::
  "('pk, 'sg) dilithium \<Rightarrow> digest \<Rightarrow> 'j rpc_codec \<Rightarrow> (string \<Rightarrow> 'j rpc_request option) \<Rightarrow>
     string option \<Rightarrow> incoming list \<Rightarrow> rate_limiter \<Rightarrow> mempool \<Rightarrow>
     ('j option \<times> rpc_response) list \<times> mempool"
where
  "serve_lines lib sha codec parse auth_token [] limiter pool = ([], pool)"
| "serve_lines lib sha codec parse auth_token (line # rest) limiter pool =
     (case handle_line lib sha codec parse auth_token line limiter pool of
        (response, limiter, pool) \<Rightarrow>
          if \<not> in_written line then ([], pool) else
          (case serve_lines lib sha codec parse auth_token rest limiter pool of
             (responses, pool) \<Rightarrow> (response # responses, pool)))"

definition handle_connection ::
  "('pk, 'sg) dilithium \<Rightarrow> digest \<Rightarrow> 'j rpc_codec \<Rightarrow> (string \<Rightarrow> 'j rpc_request option) \<Rightarrow>
     string option \<Rightarrow> nat \<Rightarrow> incoming list \<Rightarrow> mempool \<Rightarrow> ('j option \<times> rpc_response) list \<times> mempool"
where
  "handle_connection lib sha codec parse auth_token now rest pool =
     serve_lines lib sha codec parse auth_token rest
       (rate_limiter_new now MAX_REQUESTS_PER_SECOND_PER_CONNECTION) pool"

lemma handle_line_signed:
  assumes "mempool_signed lib sha pool"
    and "\<And>p. mempool_signed lib sha p \<Longrightarrow> mempool_signed lib sha (in_others line p)"
    and "handle_line lib sha codec parse token line limiter pool = (r, l', pool')"
  shows "mempool_signed lib sha pool'"
proof -
  let ?p = "in_others line pool"
  have "pool' = ?p \<or> (\<exists>request. snd (dispatch lib sha codec token (in_ledger line) request ?p) = pool')"
  proof (cases "in_line line")
    case (RequestText t)
    obtain ok l1 where c: "rate_check (in_time line) limiter = (ok, l1)"
      by (cases "rate_check (in_time line) limiter")
    from assms(3) show ?thesis
      by (cases ok; cases "parse t")
        (auto simp: handle_line_def RequestText c intro!: exI [of _ "the (parse t)"] split: prod.splits)
  next
    case FramingFault
    then show ?thesis using assms(3) by (simp add: handle_line_def)
  qed
  then show ?thesis using assms(1,2) dispatch_signed by (metis prod.collapse)
qed

lemma serve_lines_signed:
  assumes "mempool_signed lib sha pool"
    and "\<And>line p. line \<in> set rest \<Longrightarrow> mempool_signed lib sha p \<Longrightarrow> mempool_signed lib sha (in_others line p)"
    and "serve_lines lib sha codec parse token rest limiter pool = (rs, pool')"
  shows "mempool_signed lib sha pool'"
  using assms
proof (induction rest arbitrary: limiter pool rs)
  case Nil
  then show ?case by simp
next
  case (Cons line rest)
  obtain r l1 p1 where h: "handle_line lib sha codec parse token line limiter pool = (r, l1, p1)"
    by (metis prod_cases3)
  have p1: "mempool_signed lib sha p1" using handle_line_signed [OF Cons.prems(1) _ h] Cons.prems(2) by simp
  show ?case
  proof (cases "in_written line")
    case True
    then obtain rs' where "serve_lines lib sha codec parse token rest l1 p1 = (rs', pool')"
      using Cons.prems(3) h by (auto split: prod.splits)
    from Cons.IH [OF p1 _ this] Cons.prems(2) show ?thesis by simp
  next
    case False
    then show ?thesis using Cons.prems(3) h p1 by simp
  qed
qed

section \<open>The rate\<close>

text \<open>Which requests at these times pass the limiter.\<close>

fun rate_run :: "rate_limiter \<Rightarrow> nat list \<Rightarrow> bool list \<times> rate_limiter" where
  "rate_run rl [] = ([], rl)"
| "rate_run rl (now # ts) =
     (case rate_check now rl of (ok, rl) \<Rightarrow>
      case rate_run rl ts of (oks, rl) \<Rightarrow> (ok # oks, rl))"

abbreviation passed :: "bool list \<Rightarrow> nat" where
  "passed oks \<equiv> length (filter (\<lambda>ok. ok) oks)"

lemma rate_run_Cons:
  "rate_check now rl = (ok, rl1) \<Longrightarrow> fst (rate_run rl (now # ts)) = ok # fst (rate_run rl1 ts)"
  "rate_check now rl = (ok, rl1) \<Longrightarrow> snd (rate_run rl (now # ts)) = snd (rate_run rl1 ts)"
  by (simp_all add: split_beta)

declare rate_run.simps(2) [simp del]

lemma rate_run_append:
  "fst (rate_run rl (xs @ ys)) = fst (rate_run rl xs) @ fst (rate_run (snd (rate_run rl xs)) ys)"
proof (induction xs arbitrary: rl)
  case (Cons x xs)
  obtain ok rl1 where "rate_check x rl = (ok, rl1)" by (cases "rate_check x rl")
  then show ?case using Cons.IH [of rl1] by (simp add: rate_run_Cons)
qed simp

lemma rate_run_length [simp]: "length (fst (rate_run rl ts)) = length ts"
proof (induction ts arbitrary: rl)
  case (Cons t ts)
  obtain ok rl1 where "rate_check t rl = (ok, rl1)" by (cases "rate_check t rl")
  then show ?case using Cons.IH [of rl1] by (simp add: rate_run_Cons)
qed simp

lemma unat_Suc_small32: "unat x + 1 < 2 ^ 32 \<Longrightarrow> unat (x + 1) = unat x + 1" for x :: u32
  using unat_add_lem [of x 1] by simp

lemma rate_check_cases:
  assumes "rate_check now rl = (ok, rl')" and "unat (rl_count rl) + 1 < 2 ^ 32"
  shows "max_per_second rl' = max_per_second rl" and "ok \<longleftrightarrow> unat (rl_count rl') \<le> unat (max_per_second rl)"
    and "now - window_start rl < 1000000000 \<Longrightarrow>
      window_start rl' = window_start rl \<and> unat (rl_count rl') = unat (rl_count rl) + 1"
    and "\<not> now - window_start rl < 1000000000 \<Longrightarrow> window_start rl' = now \<and> unat (rl_count rl') = 1"
proof -
  have "unat (rl_count rl + 1) = unat (rl_count rl) + 1" using assms(2) by (intro unat_Suc_small32)
  then show "max_per_second rl' = max_per_second rl" "ok \<longleftrightarrow> unat (rl_count rl') \<le> unat (max_per_second rl)"
    "now - window_start rl < 1000000000 \<Longrightarrow>
      window_start rl' = window_start rl \<and> unat (rl_count rl') = unat (rl_count rl) + 1"
    "\<not> now - window_start rl < 1000000000 \<Longrightarrow> window_start rl' = now \<and> unat (rl_count rl') = 1"
    using assms(1) by (auto simp: rate_check_def Let_def word_le_nat_alt split: if_splits)
qed

lemma rate_run_count:
  assumes "unat (rl_count rl) + length ts < 2 ^ 32"
  shows "unat (rl_count (snd (rate_run rl ts))) \<le> unat (rl_count rl) + length ts"
    and "max_per_second (snd (rate_run rl ts)) = max_per_second rl"
  using assms
proof (induction ts arbitrary: rl)
  case (Cons now ts)
  case 1
  obtain ok rl1 where c: "rate_check now rl = (ok, rl1)" by (cases "rate_check now rl")
  from rate_check_cases [OF c] 1 have "unat (rl_count rl1) \<le> unat (rl_count rl) + 1"
    by (cases "now - window_start rl < 1000000000") auto
  with Cons.IH(1) [of rl1] 1 show ?case by (simp add: rate_run_Cons [OF c])
next
  case (Cons now ts)
  case 2
  obtain ok rl1 where c: "rate_check now rl = (ok, rl1)" by (cases "rate_check now rl")
  from rate_check_cases [OF c] 2 have "unat (rl_count rl1) \<le> unat (rl_count rl) + 1"
    "max_per_second rl1 = max_per_second rl"
    by (cases "now - window_start rl < 1000000000", auto)
  with Cons.IH(2) [of rl1] 2 show ?case by (simp add: rate_run_Cons [OF c])
qed simp_all

text \<open>Within one window, what is left of its budget.\<close>

lemma rate_segment:
  assumes "\<forall>t \<in> set ts. t - window_start rl < 1000000000"
    and "unat (rl_count rl) + length ts < 2 ^ 32"
  shows "passed (fst (rate_run rl ts)) \<le> unat (max_per_second rl) - unat (rl_count rl)"
  using assms
proof (induction ts arbitrary: rl)
  case (Cons now ts)
  obtain ok rl1 where c: "rate_check now rl = (ok, rl1)" by (cases "rate_check now rl")
  note rc = rate_check_cases [OF c]
  have rl1: "window_start rl1 = window_start rl" "unat (rl_count rl1) = unat (rl_count rl) + 1"
    "max_per_second rl1 = max_per_second rl" "ok \<longleftrightarrow> unat (rl_count rl) + 1 \<le> unat (max_per_second rl)"
    using rc Cons.prems by auto
  then have "passed (fst (rate_run rl1 ts)) \<le> unat (max_per_second rl) - (unat (rl_count rl) + 1)"
    using Cons.IH [of rl1] Cons.prems by simp
  then show ?case using rl1(4) by (auto simp: rate_run_Cons [OF c])
qed simp

text \<open>Less than a second meets at most two windows.\<close>

lemma rate_second:
  assumes "sorted ts" and "\<forall>t \<in> set ts. t0 \<le> t \<and> t < t0 + 1000000000"
    and "unat (rl_count rl) + length ts < 2 ^ 32"
  shows "passed (fst (rate_run rl ts)) \<le>
    (unat (max_per_second rl) - unat (rl_count rl)) + unat (max_per_second rl)"
  using assms
proof (induction ts arbitrary: rl)
  case (Cons now ts)
  obtain ok rl1 where c: "rate_check now rl = (ok, rl1)" by (cases "rate_check now rl")
  note rc = rate_check_cases [OF c]
  show ?case
  proof (cases "now - window_start rl < 1000000000")
    case True
    then have rl1: "unat (rl_count rl1) = unat (rl_count rl) + 1"
      "max_per_second rl1 = max_per_second rl" "ok \<longleftrightarrow> unat (rl_count rl) + 1 \<le> unat (max_per_second rl)"
      using rc Cons.prems(3) by auto
    then have "passed (fst (rate_run rl1 ts)) \<le>
        unat (max_per_second rl) - (unat (rl_count rl) + 1) + unat (max_per_second rl)"
      using Cons.IH [of rl1] Cons.prems by simp
    then show ?thesis using rl1(3) by (auto simp: rate_run_Cons [OF c])
  next
    case False
    then have rl1: "window_start rl1 = now" "unat (rl_count rl1) = 1"
      "max_per_second rl1 = max_per_second rl" "ok \<longleftrightarrow> 1 \<le> unat (max_per_second rl)"
      using rc Cons.prems(3) by auto
    have "\<forall>t \<in> set ts. t - window_start rl1 < 1000000000"
      using Cons.prems(1,2) by (auto simp: rl1(1))
    from rate_segment [OF this] have "passed (fst (rate_run rl1 ts)) \<le> unat (max_per_second rl) - 1"
      using Cons.prems(3) rl1 by simp
    then show ?thesis using rl1(4) by (auto simp: rate_run_Cons [OF c])
  qed
qed simp

text \<open>A burst that the budget of its window covers passes.\<close>

lemma rate_burst:
  assumes "t - window_start rl < 1000000000" and "unat (rl_count rl) + n \<le> unat (max_per_second rl)"
  shows "passed (fst (rate_run rl (replicate n t))) = n \<and>
    window_start (snd (rate_run rl (replicate n t))) = window_start rl \<and>
    max_per_second (snd (rate_run rl (replicate n t))) = max_per_second rl"
  using assms
proof (induction n arbitrary: rl)
  case (Suc n)
  obtain ok rl1 where c: "rate_check t rl = (ok, rl1)" by (cases "rate_check t rl")
  have "unat (rl_count rl) + 1 < 2 ^ 32"
    using Suc.prems(2) unsigned_less [of "max_per_second rl", where ?'a = nat] by simp
  from rate_check_cases [OF c this] Suc.prems have "ok" "window_start rl1 = window_start rl"
    "unat (rl_count rl1) = unat (rl_count rl) + 1" "max_per_second rl1 = max_per_second rl"
    by auto
  then show ?case using Suc.IH [of rl1] Suc.prems by (simp add: rate_run_Cons [OF c])
qed simp

lemma rate_burst_new_window:
  assumes "1000000000 \<le> t - window_start rl" and "Suc n \<le> unat (max_per_second rl)"
    and "unat (rl_count rl) + 1 < 2 ^ 32"
  shows "passed (fst (rate_run rl (replicate (Suc n) t))) = Suc n"
proof -
  obtain ok rl1 where c: "rate_check t rl = (ok, rl1)" by (cases "rate_check t rl")
  from rate_check_cases [OF c assms(3)] assms(1,2) have rl1: "ok" "window_start rl1 = t"
    "unat (rl_count rl1) = 1" "max_per_second rl1 = max_per_second rl" by auto
  then show ?thesis using rate_burst [of t rl1 n] assms(2) by (simp add: rate_run_Cons [OF c])
qed

end
