(* ===== verification/Service_Examples.thy ===== *)
theory Service_Examples
  imports Wallet_Facts Command_Line Rpc_Server Node_Examples Examples
begin

text \<open>
  Concrete third-party functions on which the witnesses about the wallet, the network
  configuration and the RPC server run: they satisfy what the models assume of the crates, and
  do nothing more.
\<close>

section \<open>Surroundings\<close>

definition calm :: surroundings where
  "calm =
     \<lparr>io_fault = (\<lambda>n. None),
      env_var = (\<lambda>v. if v = ''VDAG_WALLET_PASSWORD'' then Some ''secret'' else None),
      tcp_line = (\<lambda>n. ''ok'')\<rparr>"

lemma calm_sels [simp]:
  "io_fault calm n = None" "env_var calm ''VDAG_WALLET_PASSWORD'' = Some ''secret''"
  "tcp_line calm n = ''ok''"
  by (simp_all add: calm_def)

definition no_files :: "'o world" where
  "no_files = \<lparr>files = Map.empty, io_ops = 0, shown = []\<rparr>"

lemma no_files_sels [simp]: "files no_files = Map.empty" "io_ops no_files = 0" "shown no_files = []"
  by (simp_all add: no_files_def)

section \<open>Keys\<close>

definition plain_keys :: "(u8 list, u8 list, u8 list) dilithium_keys" where
  "plain_keys =
     \<lparr>verifier = plain_dilithium, keypair = (\<lambda>i. (replicate 8 (of_nat i) @ [3], [of_nat i])), sk_from_bytes = Some,
      sk_as_bytes = (\<lambda>sk. sk), detached_sign = (\<lambda>m sk. m), sig_as_bytes = (\<lambda>sg. sg)\<rparr>"

lemma plain_keys_ok: "dilithium_ok plain_keys"
  by (simp add: dilithium_ok_def plain_keys_def plain_dilithium_def)

section \<open>Text as bytes\<close>

definition enc_text :: "string \<Rightarrow> u8 list" where
  "enc_text = enc_list (\<lambda>c. [of_nat (of_char c)])"

definition dec_text :: "string parser" where
  "dec_text = dec_list (dec_as (\<lambda>b. char_of (unat b)) dec_byte)"

lemma char_byte: "char_of (unat (of_nat (of_char c) :: u8)) = c"
proof -
  have "(of_char c :: nat) < 256" by simp
  then have "unat (of_nat (of_char c) :: u8) = of_char c" by (subst unat_of_nat) simp
  then show ?thesis by simp
qed

interpretation char_codec: prefix_codec "\<lambda>c. [of_nat (of_char c)]" "dec_as (\<lambda>b. char_of (unat b)) dec_byte"
  by (rule codec_as [OF byte.prefix_codec_axioms, of "\<lambda>b. char_of (unat b)" "\<lambda>c. of_nat (of_char c)"])
    (rule char_byte)

interpretation text_codec: prefix_codec enc_text dec_text
  unfolding enc_text_def dec_text_def by (rule char_codec.codec_list)

section \<open>The wallet's crates\<close>

definition enc_wallet_file :: "wallet_file \<Rightarrow> u8 list" where
  "enc_wallet_file wallet =
     enc_pair (\<lambda>b. [b]) (enc_pair enc_text (enc_pair enc_text enc_text))
       (wf_version wallet, wf_salt wallet, wf_nonce wallet, wf_ciphertext wallet)"

definition dec_wallet_file :: "wallet_file parser" where
  "dec_wallet_file =
     dec_as (\<lambda>(v, s, n, c). \<lparr>wf_version = v, wf_salt = s, wf_nonce = n, wf_ciphertext = c\<rparr>)
       (dec_pair dec_byte (dec_pair dec_text (dec_pair dec_text dec_text)))"

interpretation wallet_codec: prefix_codec enc_wallet_file dec_wallet_file
proof -
  have "prefix_codec (\<lambda>wallet. enc_pair (\<lambda>b. [b]) (enc_pair enc_text (enc_pair enc_text enc_text))
      (wf_version wallet, wf_salt wallet, wf_nonce wallet, wf_ciphertext wallet)) dec_wallet_file"
    unfolding dec_wallet_file_def
    by (intro codec_as codec_pair byte.prefix_codec_axioms text_codec.prefix_codec_axioms) simp
  then show "prefix_codec enc_wallet_file dec_wallet_file" by (simp add: enc_wallet_file_def [abs_def])
qed

definition enc_payload :: "wallet_payload \<Rightarrow> u8 list" where
  "enc_payload payload = enc_pair enc_text enc_text (wp_public_key payload, wp_secret_key payload)"

definition dec_payload :: "wallet_payload parser" where
  "dec_payload =
     dec_as (\<lambda>(p, s). \<lparr>wp_public_key = p, wp_secret_key = s\<rparr>) (dec_pair dec_text dec_text)"

interpretation payload_codec: prefix_codec enc_payload dec_payload
proof -
  have "prefix_codec (\<lambda>payload. enc_pair enc_text enc_text (wp_public_key payload, wp_secret_key payload))
      dec_payload"
    unfolding dec_payload_def
    by (intro codec_as codec_pair text_codec.prefix_codec_axioms) simp
  then show "prefix_codec enc_payload dec_payload" by (simp add: enc_payload_def [abs_def])
qed

datatype plain_json =
    JsonOne
  | JsonFile wallet_file
  | JsonPayload wallet_payload
  | JsonParams submit_transaction_params

definition unhex_plain :: "string \<Rightarrow> u8 list option" where
  "unhex_plain text = (case decode_hex text of Inl e \<Rightarrow> None | Inr bytes \<Rightarrow> Some bytes)"

text \<open>The cipher keeps key and nonce in front of the plain text, the key is password and salt.\<close>

definition plain_wallet :: "plain_json wallet_library" where
  "plain_wallet =
     \<lparr>hex_encode = encode_hex, hex_decode = unhex_plain,
      random_bytes = (\<lambda>i n. replicate n (of_nat i)),
      argon2 = (\<lambda>pw salt. Some (enc_text pw @ salt)),
      aead_encrypt = (\<lambda>key nce plain. Some (key @ nce @ plain)),
      aead_decrypt = (\<lambda>key nce c.
        let n = length key + length nce
        in if take n c = key @ nce then Some (drop n c) else None),
      json_value = (\<lambda>bytes. map_option (\<lambda>(wallet, rest). JsonFile wallet) (dec_wallet_file bytes)),
      has_version = (\<lambda>j. case j of JsonFile _ \<Rightarrow> True | _ \<Rightarrow> False),
      as_wallet_file = (\<lambda>j. case j of JsonFile wallet \<Rightarrow> Some wallet | _ \<Rightarrow> None),
      as_payload = (\<lambda>j. case j of JsonPayload payload \<Rightarrow> Some payload | _ \<Rightarrow> None),
      wallet_file_json = (\<lambda>wallet. Some (enc_wallet_file wallet)),
      payload_json = (\<lambda>payload. Some (enc_payload payload)),
      payload_of_json = (\<lambda>bytes. map_option fst (dec_payload bytes)),
      json_id_one = JsonOne, params_json = JsonParams\<rparr>"

lemma plain_wallet_ok: "wallet_library_ok plain_wallet"
  by (simp add: wallet_library_ok_def plain_wallet_def unhex_plain_def Let_def
      wallet_codec.dec_all payload_codec.dec_all)

definition plain_rpc :: "plain_json rpc_codec" where
  "plain_rpc =
     \<lparr>unhex = unhex_plain,
      submit_params = (\<lambda>j. case j of JsonParams params \<Rightarrow> Some params | _ \<Rightarrow> None),
      address_param = (\<lambda>j. None), tx_id_param = (\<lambda>j. None)\<rparr>"

lemma plain_parse: "parse_address plain_wallet (encode_hex (bytes_of to)) w = (Inr to, w)"
proof -
  have "\<not> starts_with ''0x'' (encode_hex (bytes_of to))"
  proof
    assume "starts_with ''0x'' (encode_hex (bytes_of to))"
    then have t: "take (length ''0x'') (encode_hex (bytes_of to)) = ''0x''" by (simp only: starts_with_def)
    from set_take_subset [of "length ''0x''" "encode_hex (bytes_of to)"] show False
      unfolding t using encode_hex_no_x [of "bytes_of to"] by simp
  qed
  then show ?thesis
    by (simp add: parse_address_def Let_def plain_wallet_def unhex_plain_def and_then_def or_fail_def
        returns_def bytes_of_inverse)
qed

text \<open>A wallet made on an empty disk.\<close>

lemma plain_create:
  "\<exists>kp w. load_or_create plain_wallet plain_keys sha calm path no_files = (Inr kp, w) \<and>
     kp = generate plain_keys 1"
  by (simp add: load_or_create_def and_then_def path_exists_def draw_def store_key_pair_def password_def
      or_fail_def returns_def encrypt_def plain_wallet_def write_file_def set_private_permissions_def
      set_owner_only_def print_def)

section \<open>The crates of the network configuration\<close>

definition enc_config :: "bootstrap_config \<Rightarrow> u8 list" where
  "enc_config c =
     enc_pair enc_text (enc_pair u64_le (enc_pair enc_text (enc_pair (enc_list enc_text)
       (enc_pair enc_text enc_text))))
       (bc_network c, bc_network_id c, bc_genesis_hash c, bc_seeds c, bc_signing_key c, bc_signature c)"

definition dec_config :: "bootstrap_config parser" where
  "dec_config =
     dec_as (\<lambda>(n, i, g, s, k, sg). \<lparr>bc_network = n, bc_network_id = i, bc_genesis_hash = g, bc_seeds = s,
         bc_signing_key = k, bc_signature = sg\<rparr>)
       (dec_pair dec_text (dec_pair dec_u64 (dec_pair dec_text (dec_pair (dec_list dec_text)
         (dec_pair dec_text dec_text)))))"

interpretation config_codec: prefix_codec enc_config dec_config
proof -
  have "prefix_codec (\<lambda>c. enc_pair enc_text (enc_pair u64_le (enc_pair enc_text
      (enc_pair (enc_list enc_text) (enc_pair enc_text enc_text))))
      (bc_network c, bc_network_id c, bc_genesis_hash c, bc_seeds c, bc_signing_key c, bc_signature c))
      dec_config"
    unfolding dec_config_def
    by (intro codec_as codec_pair text_codec.prefix_codec_axioms word64.prefix_codec_axioms
        text_codec.codec_list) simp
  then show "prefix_codec enc_config dec_config" by (simp add: enc_config_def [abs_def])
qed

definition plain_config :: "(bytes32, u8 list, bytes32) config_library" where
  "plain_config =
     \<lparr>vk_from_bytes = (\<lambda>bytes. if length bytes = 32 then Some (Bytes32 bytes) else None),
      vk_to_bytes = bytes_of,
      es_from_slice = (\<lambda>bytes. case bytes of [] \<Rightarrow> None | b # sg \<Rightarrow> Some sg),
      es_to_bytes = (\<lambda>sg. 1 # sg), verifying_key = (\<lambda>k. k), ed_sign = (\<lambda>k message. message),
      ed_verify = (\<lambda>key message sg. sg = message), cfg_hex = encode_hex, cfg_unhex = unhex_plain,
      config_json = (\<lambda>c. map (\<lambda>ch. of_nat (of_char ch)) (encode_hex (enc_config c))),
      config_of_json = (\<lambda>text. case unhex_plain text of
        None \<Rightarrow> None | Some bytes \<Rightarrow> map_option fst (dec_config bytes))\<rparr>"

lemma byte_char: "(of_char c :: nat) < 128 \<Longrightarrow> unat (of_nat (of_char c) :: u8) < 128"
  by (subst unat_of_nat) simp

lemma plain_config_ok: "config_library_ok plain_config"
proof -
  have chars: "map (\<lambda>b. char_of (unat b)) (map (\<lambda>ch. of_nat (of_char ch) :: u8) t) = t" for t
    by (simp add: comp_def char_byte)
  have ascii: "valid_utf8 (map unat (map (\<lambda>ch. of_nat (of_char ch) :: u8) (encode_hex bytes)))" for bytes
    by (rule valid_utf8_ascii) (use encode_hex_ascii byte_char in auto)
  have "encode_hex bytes = [] \<Longrightarrow> bytes = []" for bytes using length_encode_hex [of bytes] by auto
  then show ?thesis
    by (simp add: config_library_ok_def plain_config_def unhex_plain_def chars ascii bytes_of_inverse
        config_codec.dec_all del: list.map map_map)
qed

end
