(* ===== verification/Service_Properties.thy ===== *)
theory Service_Properties
  imports Service_Examples
begin

text \<open>
  The promises of the wallet, the command line, the network configuration and the RPC server,
  with witnesses on the plain crates of \<open>Service_Examples\<close>.
\<close>

section \<open>The wallet\<close>

text \<open>C30: The miner's key survives a restart: whatever key pair \<^verbatim>\<open>load_or_create\<close> returned, a later
  call on the same file returns it again and changes no file.\<close>

theorem wallet_key_survives:
  assumes "wallet_library_ok lib" and "dilithium_ok keys"
    and "load_or_create lib keys sha env path w = (Inr kp, w')"
    and "files v path = files w' path"
    and "io_fault env (io_ops v) = None" and "io_fault env (Suc (io_ops v)) = None"
  shows "\<exists>v'. load_or_create lib keys sha env path v = (Inr kp, v') \<and> files v' = files v"
  by (rule load_or_create_again [OF assms])

theorem wallet_key_survives_witness:
  "\<exists>w v'. load_or_create plain_wallet plain_keys checksum calm ''miner'' no_files
       = (Inr (generate plain_keys 1), w) \<and>
     load_or_create plain_wallet plain_keys checksum calm ''miner'' w = (Inr (generate plain_keys 1), v')"
proof -
  obtain w where w: "load_or_create plain_wallet plain_keys checksum calm ''miner'' no_files
      = (Inr (generate plain_keys 1), w)" using plain_create by blast
  from wallet_key_survives [OF plain_wallet_ok plain_keys_ok w, of w] w show ?thesis by auto
qed

text \<open>What a command may write: nothing, or the one file it is to create.\<close>

lemma quiet_commands:
  "touches_only {} (wallet_address lib keys sha env path)" "touches_only {} (verify lib keys sha env path)"
  "touches_only {} (sign_transfer lib keys sha env path to amt nce)"
  "touches_only {} (submit lib keys sha env path to amt nce rpc_address)"
  "touches_only {} (parse_u64 text)"
  unfolding wallet_address_def verify_def sign_transfer_def submit_def parse_u64_def parse_address_def Let_def
  by (intro touches load_touches; simp add: touches_only_def tcp_op_def)+

lemma untouched: "touches_only ps m \<Longrightarrow> p \<notin> ps \<Longrightarrow> files (snd (m w)) p = files w p"
  by (simp add: touches_only_def)

lemma creating_commands:
  assumes "files w p \<noteq> None" and "io_fault env (io_ops w) = None" and "io_fault env (Suc (io_ops w)) = None"
  shows "create lib keys sha env p w = (Inl WalletExists, step_io w)"
    and "load_or_create lib keys sha env p w = wallet_load lib keys env p (step_io w)"
    and "fst (wallet_load lib keys env source w) = Inr kp \<Longrightarrow>
      fst (backup lib keys env source p w) = Inl BackupExists \<and>
      fst (restore lib keys env source p w) = Inl RestoreExists"
    and "files (snd (backup lib keys env source p w)) = files w"
    and "files (snd (restore lib keys env source p w)) = files w"
proof -
  have there: "path_exists env p w = (Inr True, step_io w)" using assms by (simp add: path_exists_def)
  obtain r w1 where ld: "wallet_load lib keys env source w = (r, w1)" by fastforce
  have w1: "files w1 = files w" "io_ops w1 = Suc (io_ops w)"
    using load_files [of lib keys env source w] load_ops [of lib keys env source w] by (simp_all add: ld)
  then have there1: "path_exists env p w1 = (Inr True, step_io w1)" using assms by (simp add: path_exists_def)
  note defs = create_def load_or_create_def backup_def restore_def and_then_def there there1 ld w1 fails_def
  show "create lib keys sha env p w = (Inl WalletExists, step_io w)"
    "load_or_create lib keys sha env p w = wallet_load lib keys env p (step_io w)"
    by (simp_all add: defs)
  show "fst (backup lib keys env source p w) = Inl BackupExists \<and>
      fst (restore lib keys env source p w) = Inl RestoreExists"
    if "fst (wallet_load lib keys env source w) = Inr kp" using that by (simp add: defs)
  show "files (snd (backup lib keys env source p w)) = files w"
    "files (snd (restore lib keys env source p w)) = files w"
    by (simp_all add: defs split: sum.split)
qed

lemma wallet_command_cases:
  assumes "P (fails Usage)" and "\<And>path. P (create lib keys sha env path)"
    and "\<And>path. P (wallet_address lib keys sha env path)" and "\<And>path. P (verify lib keys sha env path)"
    and "\<And>source destination. P (backup lib keys env source destination)"
    and "\<And>source destination. P (restore lib keys env source destination)"
    and "\<And>path to a n. P (and_then (parse_u64 a) (\<lambda>a. and_then (parse_u64 n) (\<lambda>n.
      sign_transfer lib keys sha env path to a n)))"
    and "\<And>path to a n rpc_address. P (and_then (parse_u64 a) (\<lambda>a. and_then (parse_u64 n) (\<lambda>n.
      submit lib keys sha env path to a n rpc_address)))"
  shows "P (handle_wallet_command lib keys sha env args)"
  unfolding handle_wallet_command_def by (simp add: assms split: list.split)

text \<open>C31: No wallet command replaces a file, as long as the test whether the file exists can be made:
  whatever the arguments of the wallet are (\<^verbatim>\<open>create\<close>, \<^verbatim>\<open>address\<close>, \<^verbatim>\<open>verify\<close>, \<^verbatim>\<open>backup\<close>,
  \<^verbatim>\<open>restore\<close>, \<^verbatim>\<open>sign-transfer\<close>, \<^verbatim>\<open>submit\<close> or none of them), every file on the disk is afterwards
  what it was before, and so it is after the \<^verbatim>\<open>load_or_create\<close> of the node, whatever goes wrong
  later; \<^verbatim>\<open>create\<close> over an existing file fails with \<open>WalletExists\<close>, and \<^verbatim>\<open>backup\<close> and
  \<^verbatim>\<open>restore\<close> of a wallet that opens fail with their errors.  The condition is that the first two
  operations on files do not fail, of which one is that test: \<^verbatim>\<open>Path::exists\<close> answers no when it
  cannot tell.\<close>

theorem wallet_never_overwrites:
  assumes "files w p = Some f" and "io_fault env (io_ops w) = None"
    and "io_fault env (Suc (io_ops w)) = None"
  shows "files (snd (handle_wallet_command lib keys sha env args w)) p = Some f \<and>
    files (snd (load_or_create lib keys sha env path w)) p = Some f \<and>
    fst (create lib keys sha env p w) = Inl WalletExists \<and>
    (fst (wallet_load lib keys env source w) = Inr kp \<longrightarrow>
       fst (backup lib keys env source p w) = Inl BackupExists \<and>
       fst (restore lib keys env source p w) = Inl RestoreExists)"
proof -
  have there: "files w p \<noteq> None" using assms(1) by simp
  note old = creating_commands [OF there assms(2,3)]
  have "files (snd (create lib keys sha env q w)) p = Some f" for q
    by (cases "q = p") (simp_all add: old(1) assms(1) untouched [OF command_touches(1)])
  moreover have "files (snd (load_or_create lib keys sha env q w)) p = Some f" for q
    by (cases "q = p") (simp_all add: old(2) load_files assms(1) untouched [OF command_touches(2)])
  moreover have "files (snd (backup lib keys env src q w)) p = Some f" for src q
    by (cases "q = p") (simp_all add: old(4) assms(1) untouched [OF command_touches(3)])
  moreover have "files (snd (restore lib keys env src q w)) p = Some f" for src q
    by (cases "q = p") (simp_all add: old(5) assms(1) untouched [OF command_touches(4)])
  moreover have "files (snd (m w)) p = Some f" if "touches_only {} m" for m :: "('a, unit) wallet_io"
    using untouched [OF that] assms(1) by simp
  ultimately have "files (snd (handle_wallet_command lib keys sha env args w)) p = Some f"
    by (intro wallet_command_cases [where P = "\<lambda>m. files (snd (m w)) p = Some f"])
      (simp_all add: touches quiet_commands)
  then show ?thesis
    using \<open>\<And>q. files (snd (load_or_create lib keys sha env q w)) p = Some f\<close> by (simp add: old(1,3))
qed

theorem wallet_never_overwrites_witness:
  "\<exists>w f. files w ''miner'' = Some f \<and>
     fst (create plain_wallet plain_keys checksum calm ''miner'' w) = Inl WalletExists \<and>
     files (snd (handle_wallet_command plain_wallet plain_keys checksum calm
       [''restore'', ''copy'', ''miner''] w)) ''miner'' = Some f"
proof -
  obtain w where w: "load_or_create plain_wallet plain_keys checksum calm ''miner'' no_files
      = (Inr (generate plain_keys 1), w)" using plain_create by blast
  obtain f where f: "files w ''miner'' = Some f"
    using load_or_create_Inr [OF plain_wallet_ok plain_keys_ok w] by auto
  from wallet_never_overwrites [OF f calm_sels(1) calm_sels(1)] f show ?thesis by blast
qed

text \<open>
  Without the condition it is false: if the test cannot be made, \<^verbatim>\<open>create\<close> puts a new key pair in
  the place of the old one and reports success.
\<close>

lemma untested_wallet_replaced:
  assumes "dark = calm\<lparr>io_fault := (\<lambda>n. if n = 0 then Some Untouched else None)\<rparr>"
    and "w = no_files\<lparr>files := [''miner'' \<mapsto> \<lparr>contents = [], owner_only = True\<rparr>]\<rparr>"
  shows "\<exists>w' f. create plain_wallet plain_keys sha dark ''miner'' w = (Inr (), w') \<and>
    files w' ''miner'' = Some f \<and> contents f \<noteq> []"
  by (simp add: assms create_def and_then_def path_exists_def draw_def store_key_pair_def password_def
      or_fail_def returns_def encrypt_def plain_wallet_def write_file_def set_private_permissions_def
      set_owner_only_def print_def enc_wallet_file_def enc_pair_def)

text \<open>A wallet restored from a backup opens to the key pair of the original, and can be read by
  its owner only.\<close>

theorem wallet_copies_open:
  assumes "backup lib keys env source copied w = (Inr u, w1)"
    and "files v copied = files w1 copied" and "restore lib keys env copied destination v = (Inr u', v1)"
    and "files x destination = files v1 destination" and "io_fault env (io_ops x) = None"
  shows "\<exists>kp w2 x2 f. wallet_load lib keys env source w = (Inr kp, w2) \<and>
    wallet_load lib keys env destination x = (Inr kp, x2) \<and> files x destination = Some f \<and> owner_only f"
proof -
  obtain kp w2 where ld: "wallet_load lib keys env source w = (Inr kp, w2)"
    using assms(1) by (auto simp: backup_def io_ok)
  from load_Inr [OF ld] obtain f where f: "files w source = Some f" "opens_to lib keys env (contents f) kp"
    by metis
  obtain f' where "files w source = Some f'"
    "files w1 = (files w)(copied \<mapsto> \<lparr>contents = contents f', owner_only = True\<rparr>)"
    using backup_Inr [OF assms(1)] by metis
  then have c: "files v copied = Some \<lparr>contents = contents f, owner_only = True\<rparr>"
    using f(1) assms(2) by simp
  obtain f2 where "files v copied = Some f2"
    "files v1 = (files v)(destination \<mapsto> \<lparr>contents = contents f2, owner_only = True\<rparr>)"
    using restore_Inr [OF assms(3)] by metis
  then have d: "files x destination = Some \<lparr>contents = contents f, owner_only = True\<rparr>"
    using c assms(4) by (metis fun_upd_same option.inject stored_file.select_convs(1))
  then have "\<exists>x2. wallet_load lib keys env destination x = (Inr kp, x2)"
    using f(2) assms(5) by (simp add: load_iff)
  then show ?thesis using ld d by force
qed

lemma plain_backup:
  assumes "files w source = Some f" and "opens_to plain_wallet keys calm (contents f) kp"
    and "files w destination = None"
  shows "\<exists>w'. backup plain_wallet keys calm source destination w = (Inr (), w')"
    and "\<exists>w'. restore plain_wallet keys calm source destination w = (Inr (), w')"
proof -
  have "\<exists>w'. wallet_load plain_wallet keys calm source w = (Inr kp, w')" using assms by (simp add: load_iff)
  then obtain w1 where w1: "wallet_load plain_wallet keys calm source w = (Inr kp, w1)" by blast
  from load_files [of plain_wallet keys calm source w] have fl: "files w1 = files w" by (simp add: w1)
  show "\<exists>w'. backup plain_wallet keys calm source destination w = (Inr (), w')"
    using assms fl
    by (simp add: backup_def and_then_def w1 path_exists_def copy_file_def set_private_permissions_def
        set_owner_only_def print_def)
  let ?x = "step_io (put_file destination (contents f) True
      (step_io (put_file destination (contents f) (owner_only f) (step_io w1))))"
  have "\<exists>w'. wallet_load plain_wallet keys calm destination ?x = (Inr kp, w')"
    using assms by (simp add: load_iff)
  then obtain x1 where x1: "wallet_load plain_wallet keys calm destination ?x = (Inr kp, x1)" by blast
  show "\<exists>w'. restore plain_wallet keys calm source destination w = (Inr (), w')"
    using assms fl x1
    by (simp add: restore_def and_then_def w1 path_exists_def copy_file_def set_private_permissions_def
        set_owner_only_def print_def)
qed

theorem wallet_copies_open_witness:
  "\<exists>w kp w2 x x2. wallet_load plain_wallet plain_keys calm ''miner'' w = (Inr kp, w2) \<and>
     wallet_load plain_wallet plain_keys calm ''restored'' x = (Inr kp, x2)"
proof -
  obtain w where w: "load_or_create plain_wallet plain_keys checksum calm ''miner'' no_files
      = (Inr (generate plain_keys 1), w)" using plain_create by blast
  obtain f where f: "files w ''miner'' = Some f"
    "opens_to plain_wallet plain_keys calm (contents f) (generate plain_keys 1)"
    using load_or_create_Inr [OF plain_wallet_ok plain_keys_ok w] by metis
  have only: "files w q = None" if "q \<noteq> ''miner''" for q
    using command_touches(2) [of "''miner''" plain_wallet plain_keys checksum calm] that w
    unfolding touches_only_def by (metis no_files_sels(1) singletonD snd_conv)
  obtain w1 where w1: "backup plain_wallet plain_keys calm ''miner'' ''copy'' w = (Inr (), w1)"
    using plain_backup(1) [OF f only [of "''copy''"]] by auto
  obtain g where g: "files w ''miner'' = Some g"
    "files w1 = (files w)(''copy'' \<mapsto> \<lparr>contents = contents g, owner_only = True\<rparr>)"
    using backup_Inr [OF w1] by metis
  have "files w1 ''copy'' = Some \<lparr>contents = contents f, owner_only = True\<rparr>" "files w1 ''restored'' = None"
    using g f only [of "''restored''"] by simp_all
  then obtain v1 where v1: "restore plain_wallet plain_keys calm ''copy'' ''restored'' w1 = (Inr (), v1)"
    using plain_backup(2) [of w1 "''copy''" _ plain_keys] f(2) by fastforce
  from wallet_copies_open [OF w1 refl v1 refl] show ?thesis by (simp add: ) blast
qed

text \<open>C32: What \<^verbatim>\<open>create\<close> leaves on disk is a version 1 file with a salt of sixteen bytes and a nonce
  of twelve, readable by its owner only, that opens to the generated pair; so loading it never
  runs into the panic of a malformed nonce.\<close>

theorem created_wallet_well_formed:
  assumes "wallet_library_ok lib" and "dilithium_ok keys"
    and "create lib keys sha env path w = (Inr u, w')"
  shows "\<exists>f jv wallet salt nce i. files w' path = Some f \<and> owner_only f \<and>
    json_value lib (contents f) = Some jv \<and> has_version lib jv \<and> as_wallet_file lib jv = Some wallet \<and>
    wf_version wallet = 1 \<and> hex_decode lib (wf_salt wallet) = Some salt \<and> length salt = 16 \<and>
    hex_decode lib (wf_nonce wallet) = Some nce \<and> length nce = 12 \<and>
    opens_to lib keys env (contents f) (generate keys i)"
proof -
  obtain w1 w2 where st: "store_key_pair lib keys env path (generate keys (Suc (io_ops w))) w1 = (Inr (), w2)"
    "files w' = files w2"
    using assms(3) by (auto simp: create_def io_ok split: if_splits)
  from store_written [OF assms(1) st(1)] obtain bytes jv wallet salt nce where
    wr: "files w2 path = Some \<lparr>contents = bytes, owner_only = True\<rparr>"
      "json_value lib bytes = Some jv" "has_version lib jv" "as_wallet_file lib jv = Some wallet"
      "wf_version wallet = 1" "hex_decode lib (wf_salt wallet) = Some salt" "length salt = 16"
      "hex_decode lib (wf_nonce wallet) = Some nce" "length nce = 12" by metis
  obtain bytes' where
    "files w2 path = Some \<lparr>contents = bytes', owner_only = True\<rparr>" and
    op: "opens_to lib keys env bytes' (generate keys (Suc (io_ops w)))"
    using store_Inr [OF assms(1,2) st(1)] by (metis fun_upd_same)
  then have "bytes' = bytes" using wr(1) by simp
  with op wr st(2) show ?thesis
    by (intro exI [of _ "\<lparr>contents = bytes, owner_only = True\<rparr>"] exI [of _ jv] exI [of _ wallet]
        exI [of _ salt] exI [of _ nce] exI [of _ "Suc (io_ops w)"]) simp
qed

theorem created_wallet_well_formed_witness:
  "\<exists>w' f. create plain_wallet plain_keys checksum calm ''miner'' no_files = (Inr (), w') \<and>
     files w' ''miner'' = Some f \<and> owner_only f"
proof -
  obtain w' where w': "create plain_wallet plain_keys checksum calm ''miner'' no_files = (Inr (), w')"
    by (simp add: create_def and_then_def path_exists_def draw_def store_key_pair_def password_def
      or_fail_def returns_def encrypt_def plain_wallet_def write_file_def set_private_permissions_def
      set_owner_only_def print_def)
  from created_wallet_well_formed [OF plain_wallet_ok plain_keys_ok w'] w' show ?thesis by blast
qed

section \<open>Requests of the wallet\<close>

text \<open>A wallet on an otherwise empty disk, for the witnesses.\<close>

lemma plain_submit:
  assumes "files w path = Some f" and "opens_to plain_wallet plain_keys calm (contents f) kp"
    and "shown w = []"
  shows "\<exists>w'. submit plain_wallet plain_keys sha calm path (encode_hex (bytes_of to)) amt nce a w = (Inr (), w')
    \<and> RequestLine a (submit_request plain_wallet (signed_transfer plain_keys sha kp to amt nce)) \<in> set (shown w')"
proof -
  have "\<exists>w'. wallet_load plain_wallet plain_keys calm path w = (Inr kp, w')"
    using assms by (simp add: load_iff)
  then obtain w1 where w1: "wallet_load plain_wallet plain_keys calm path w = (Inr kp, w1)" by blast
  show ?thesis
    by (simp add: submit_def and_then_def w1 plain_parse tcp_op_def print_def)
qed

text \<open>The disk with one wallet on it, before anything is shown.\<close>

lemma plain_disk:
  obtains w :: "plain_json wallet_line world" and f where "files w ''miner'' = Some f"
    and "opens_to plain_wallet plain_keys calm (contents f) (generate plain_keys 1)" and "shown w = []"
proof -
  obtain w where w: "load_or_create plain_wallet plain_keys checksum calm ''miner'' no_files
      = (Inr (generate plain_keys 1), w)" using plain_create by blast
  obtain f where "files w ''miner'' = Some f"
    "opens_to plain_wallet plain_keys calm (contents f) (generate plain_keys 1)"
    using load_or_create_Inr [OF plain_wallet_ok plain_keys_ok w] by metis
  then show thesis using that [of "w\<lparr>shown := []\<rparr>" f] by simp
qed

text \<open>\<^verbatim>\<open>wallet submit\<close> has no way to present a token: every request it sends to a server that
  requires one is refused, and leaves the mempool as it was.\<close>

theorem submit_refused_with_token:
  assumes "submit lib keys sha env path to amt nce rpc_address w = (Inr u, w')" and "shown w = []"
    and "RequestLine a request \<in> set (shown w')"
  shows "dispatch dil sha codec (Some token) ledger request pool =
    ((rq_id request, RpcError Unauthorized), pool)"
proof -
  obtain tx where "request = submit_request lib tx"
    using submit_sends [OF assms(1)] assms(2,3) by auto
  then show ?thesis by (simp add: submit_request_def dispatch_def Let_def)
qed

theorem submit_refused_with_token_witness:
  "\<exists>w w' request. submit plain_wallet plain_keys checksum calm ''miner'' (encode_hex (bytes_of (fill 2))) 5 0
       ''127.0.0.1:9000'' w = (Inr (), w') \<and>
     RequestLine ''127.0.0.1:9000'' request \<in> set (shown w') \<and>
     dispatch plain_dilithium checksum plain_rpc (Some ''t'') ledger_default request mempool_new =
       ((rq_id request, RpcError Unauthorized), mempool_new)"
proof -
  obtain w :: "plain_json wallet_line world" and f where w: "files w ''miner'' = Some f"
    "opens_to plain_wallet plain_keys calm (contents f) (generate plain_keys 1)" "shown w = []"
    by (rule plain_disk)
  from plain_submit [OF w, of checksum "fill 2" 5 0 "''127.0.0.1:9000''"] obtain w' rq where
    "submit plain_wallet plain_keys checksum calm ''miner'' (encode_hex (bytes_of (fill 2))) 5 0
       ''127.0.0.1:9000'' w = (Inr (), w')" "RequestLine ''127.0.0.1:9000'' rq \<in> set (shown w')" by blast
  with submit_refused_with_token [OF this(1) w(3) this(2)] show ?thesis by blast
qed

section \<open>The bootstrap file\<close>

text \<open>C38: A configuration signed with any key survives the file: it is loaded as it was written, for
  every network name.  The signature is checked against the key in the file, and neither key nor
  network is compared with what the node expects.\<close>

theorem signed_config_loads:
  assumes "config_library_ok lib" and "files w path = Some f"
    and "contents f = config_json lib (with_signature lib c key)" and "io_fault env (io_ops w) = None"
  shows "load_bootstrap_config_from_path lib sha env path network_name w =
      (Inr (with_signature lib c key), step_io w) \<and>
    canonical_payload lib (with_signature lib c key) = canonical_payload lib c \<and>
    bc_seeds (with_signature lib c key) = bc_seeds c"
proof -
  have "valid_utf8 (map unat (contents f))"
    "config_of_json lib (map (\<lambda>b. char_of (unat b)) (contents f)) = Some (with_signature lib c key)"
    using assms(1,3) unfolding config_library_ok_def by auto
  then show ?thesis
    using assms(2,4) with_signature_verifies [OF assms(1), of c key]
    by (simp add: load_bootstrap_config_from_path_def read_text_def and_then_def read_file_def returns_def)
qed

definition other_seeds :: bootstrap_config where
  "other_seeds =
     \<lparr>bc_network = ''testnet'', bc_network_id = 2, bc_genesis_hash = [],
      bc_seeds = [''/ip4/10.0.0.1/tcp/4001''], bc_signing_key = [], bc_signature = []\<rparr>"

theorem signed_config_loads_witness:
  "\<exists>w c. load_bootstrap_config_from_path plain_config checksum calm ''b'' ''mainnet'' w = (Inr c, step_io w) \<and>
     bc_network c = ''testnet'' \<and> bc_seeds c = [''/ip4/10.0.0.1/tcp/4001'']"
proof -
  let ?c = "with_signature plain_config other_seeds (fill 1)"
  let ?w = "put_file ''b'' (config_json plain_config ?c) False no_files"
  from signed_config_loads [OF plain_config_ok, of ?w "''b''" _ other_seeds "fill 1" calm checksum "''mainnet''"]
  have "load_bootstrap_config_from_path plain_config checksum calm ''b'' ''mainnet'' ?w = (Inr ?c, step_io ?w)"
    by simp
  moreover have "bc_network ?c = ''testnet'' \<and> bc_seeds ?c = [''/ip4/10.0.0.1/tcp/4001'']"
    by (simp add: other_seeds_def)
  ultimately show ?thesis by blast
qed

section \<open>The RPC server\<close>

text \<open>C33: However accepts and ends of connections interleave, at most 256 RPC connections are served
  and at most 16 of one address; the counters are exact, and a connection is accepted exactly when
  both limits allow it.\<close>

theorem rpc_connections_bounded:
  assumes "rpc_run conns closing s"
  shows "length conns + closing \<le> 256 \<and> count_list conns ip \<le> 16 \<and>
    per_ip_connections s ip = (if ip \<in> set conns then Some (count_list conns ip) else None) \<and>
    free_permits s = 256 - (length conns + closing) \<and>
    (fst (rpc_accept s ip) \<longleftrightarrow> length conns + closing < 256 \<and> count_list conns ip < 16)"
proof -
  note c = rpc_run_counted [OF assms]
  have "length conns + closing \<le> 256" "count_list conns ip \<le> 16"
    "per_ip_connections s ip = (if ip \<in> set conns then Some (count_list conns ip) else None)"
    "free_permits s = 256 - (length conns + closing)"
    using c by (auto simp: rpc_counted_def MAX_CONCURRENT_RPC_CONNECTIONS_def RPC_MAX_CONNECTIONS_PER_IP_def)
  then show ?thesis
    using counted_get [OF c, of ip] by (auto simp: rpc_accept_def Let_def RPC_MAX_CONNECTIONS_PER_IP_def)
qed

theorem rpc_connections_bounded_witness:
  "\<exists>s. rpc_run [7 :: nat] 0 s \<and> per_ip_connections s 7 = Some 1"
proof -
  have "rpc_accept rpc_server_new (7 :: nat) = (True, snd (rpc_accept rpc_server_new 7))"
    by (simp add: rpc_accept_def rpc_server_new_def MAX_CONCURRENT_RPC_CONNECTIONS_def Let_def
        RPC_MAX_CONNECTIONS_PER_IP_def get_or_def)
  from rpc_run.accepted [OF rpc_run.start this] have run: "rpc_run [7 :: nat] 0 (snd (rpc_accept rpc_server_new 7))" .
  from rpc_connections_bounded [OF run, of 7] run show ?thesis by auto
qed

text \<open>C34: Within less than a second a connection gets at most twice its limit of requests through:
  once before and once after a window begins.  The bound is met, so the limiter is a fixed window
  and not a rolling one.\<close>

theorem rate_limit_per_second:
  assumes "sorted recent" and "\<forall>t \<in> set recent. t0 \<le> t \<and> t < t0 + 1000000000"
    and "length earlier + length recent < 2 ^ 32"
  shows "passed (drop (length earlier) (fst (rate_run (rate_limiter_new now limit) (earlier @ recent))))
      \<le> 2 * unat limit \<and>
    (\<exists>times. sorted times \<and> set times \<subseteq> {999999999, 1000000000} \<and>
       passed (fst (rate_run (rate_limiter_new 0 MAX_REQUESTS_PER_SECOND_PER_CONNECTION) times)) = 100)"
proof
  let ?rl = "snd (rate_run (rate_limiter_new now limit) earlier)"
  have new: "rl_count (rate_limiter_new now limit) = 0" "max_per_second (rate_limiter_new now limit) = limit"
    by (simp_all add: rate_limiter_new_def)
  have rl: "unat (rl_count ?rl) \<le> length earlier" "max_per_second ?rl = limit"
    using rate_run_count [of "rate_limiter_new now limit" earlier] assms(3) new by simp_all
  have "passed (fst (rate_run ?rl recent)) \<le> (unat limit - unat (rl_count ?rl)) + unat limit"
    using rate_second [OF assms(1,2), of ?rl] rl assms(3) by simp
  then show "passed (drop (length earlier) (fst (rate_run (rate_limiter_new now limit) (earlier @ recent))))
      \<le> 2 * unat limit"
    by (simp add: rate_run_append rate_run_length)
next
  let ?times = "replicate 50 999999999 @ replicate 50 (1000000000 :: nat)"
  let ?rl = "rate_limiter_new 0 MAX_REQUESTS_PER_SECOND_PER_CONNECTION"
  have rl: "window_start ?rl = 0" "rl_count ?rl = 0" "unat (max_per_second ?rl) = 50"
    by (simp_all add: rate_limiter_new_def MAX_REQUESTS_PER_SECOND_PER_CONNECTION_def)
  note first = rate_burst [of 999999999 ?rl 50, simplified rl, simplified]
  let ?rl1 = "snd (rate_run ?rl (replicate 50 999999999))"
  have "unat (rl_count ?rl1) \<le> 50" using rate_run_count(1) [of ?rl "replicate 50 999999999"] rl by simp
  then have "passed (fst (rate_run ?rl1 (replicate (Suc 49) 1000000000))) = Suc 49"
    using first rl by (intro rate_burst_new_window) simp_all
  then have "passed (fst (rate_run ?rl ?times)) = 100"
    using first by (simp add: rate_run_append)
  then show "\<exists>times. sorted times \<and> set times \<subseteq> {999999999, 1000000000 :: nat} \<and>
      passed (fst (rate_run (rate_limiter_new 0 MAX_REQUESTS_PER_SECOND_PER_CONNECTION) times)) = 100"
    by (intro exI [of _ ?times]) (simp add: sorted_append)
qed

theorem rate_limit_per_second_witness:
  "passed (fst (rate_run (rate_limiter_new 0 50) [5, 6, 7])) \<le> 100"
  using rate_limit_per_second [of "[5, 6, 7]" 5 "[]" 0 50] by simp

section \<open>The command line\<close>

text \<open>The hexadecimal helpers are inverse, whatever the bytes, and a block hash with one digit too
  many does not get an error from the explorer but makes it panic.\<close>

theorem hex_round_trip:
  "decode_hex (encode_hex bytes) = Inr bytes \<and> length (encode_hex bytes) = 2 * length bytes \<and>
   set (encode_hex bytes) \<subseteq> set ''0123456789abcdef'' \<and>
   run_explorer fault bc st (encode_hex bytes @ ''0'') = (None, st)"
proof -
  have "hex_digit ` {..<16} \<subseteq> set ''0123456789abcdef''" by code_simp
  then have "set (encode_hex bytes) \<subseteq> set ''0123456789abcdef''" using encode_hex_digits by blast
  moreover have "hex_digit 0 = CHR ''0''" by code_simp
  then have "run_explorer fault bc st (encode_hex bytes @ ''0'') = (None, st)"
    using run_explorer_odd [of 0 fault bc st bytes] by simp
  ultimately show ?thesis by simp
qed

text \<open>The explorer finds every block a running node holds, under its hash, and reports its
  header fields and coinbase.\<close>

theorem explorer_shows_stored_blocks:
  assumes "node_run env codec token i miner_address mining job lost nd pool" and "reliable env"
    and "dag_size nd < 2 ^ 32" and "hm_get (block_store (n_dag nd)) h = Some b"
  shows "\<exists>report st. run_explorer (sled_fault env) (bin env) (n_storage nd) (encode_hex (bytes_of h)) =
      (Some (Some report), st) \<and>
    ex_height report = block_height b \<and> ex_block_nonce report = nonce (header b) \<and>
    ex_transactions report = length (transactions b) \<and>
    ex_miner_subsidy report = coinbase_miner_output b \<and> ex_dev_tax report = coinbase_dev_output b"
proof -
  have "node_inv env (fixed_genesis_hash_for_network (sha3 env) i) nd"
    using node_run_inv [OF assms(1,2)] assms(2,3) by (simp add: guarded_def node_sound_def)
  then have "rel_option (\<lambda>bytes b. de_block (bin env) bytes = Some b)
      (blocks_tree (n_storage nd) h) (hm_get (block_store (n_dag nd)) h)"
    unfolding node_inv_def by blast
  then obtain bytes where "blocks_tree (n_storage nd) h = Some bytes" "de_block (bin env) bytes = Some b"
    using assms(4) by (auto simp: option_rel_Some2)
  moreover have "\<not> sled_fault env n" for n using assms(2) by (simp add: reliable_def reliable_db_def)
  ultimately show ?thesis by (intro run_explorer_stored) auto
qed

theorem explorer_shows_stored_blocks_witness:
  "\<exists>report st. run_explorer (sled_fault ex_env) (bin ex_env) (n_storage ex_next)
     (encode_hex (bytes_of (fill 1))) = (Some (Some report), st) \<and> ex_height report = 1"
proof -
  have "block_height block_one = 1" by (simp add: block_one_def)
  moreover have "dag_size ex_next < 2 ^ 32" using ex_next_size by simp
  ultimately show ?thesis
    using explorer_shows_stored_blocks [OF ex_next_run ex_env_reliable _ ex_next_get] by (metis One_nat_def)
qed

end
