(* ===== verification/Node_Liveness.thy ===== *)
theory Node_Liveness
  imports Node_Runs Node_Acceptance Examples
begin

text \<open>
  Progress of a miner: a tick that no synchronisation holds back stores a new block on the
  canonical tip, as long as some nonce meets the target and the database works.
\<close>

lemma mine_block_total:
  assumes "verify_pow sha pm (with_nonce b n)"
  shows "\<exists>r. mine_block sha pm b = Some r"
proof -
  let ?k = "nonce (header b)"
  let ?ok = "\<lambda>i. verify_pow sha pm (with_nonce b (?k + of_nat i))"
  have "?ok (unat (n - ?k))" using assms by simp
  then have "?ok (LEAST i. ?ok i)" and "\<And>i. i < (LEAST i. ?ok i) \<Longrightarrow> \<not> ?ok i"
    by (rule LeastI, use not_less_Least in blast)
  from mine_block_finds [OF this(2) this(1)] show ?thesis by simp
qed

text \<open>The next block of a miner: the one the template grows into.\<close>

definition extends_tip :: "block_hash \<Rightarrow> u64 \<Rightarrow> velo_block \<Rightarrow> bool" where
  "extends_tip t h b \<longleftrightarrow> block_parents b = [t] \<and> block_height b = h + 1"

lemma store_mined_target:
  "n_target (store_mined env h b nd) = n_target nd"
  "n_sync_pending (store_mined env h b nd) = n_sync_pending nd"
  by (auto simp: store_mined_def Let_def emit_def split: prod.split sum.split option.split)

lemma settle_pending: "settle env h nd = (r, nd') \<Longrightarrow> n_sync_pending nd' = n_sync_pending nd"
  by (auto simp: settle_def Let_def split: option.splits sum.splits)

lemma select_single:
  assumes "tx_guard sha (scratch_of l) tx" and "ledger_supply l < 2 ^ 64"
  shows "fst (select_affordable sha l [tx] m d) = [tx]"
proof -
  have "map_total (s_balances (scratch_of l)) < 2 ^ 64" using assms(2) by (simp add: ledger_supply_def)
  from commit_guard [OF this assms(1), of m d] obtain sc where
    "try_fold (commit_transaction sha m d) (scratch_of l) [tx] = Inr sc" by auto
  from select_loop_complete [OF this] show ?thesis by (simp add: select_affordable_def)
qed

lemma tick_progress:
  fixes nd :: "'p node"
  assumes inv: "node_inv env g nd" and rel: "reliable env" and led: "\<And>l. ser_ledger (bin env) l \<noteq> None"
    and win: "0 < window_size (difficulty_mgr env)"
    and idle: "\<not> n_sync_pending nd" and size: "dag_size nd + 1 < 2 ^ 32"
    and pool: "mempool_signed (dili env) (sha3 env) pool"
    and room: "ledger_supply (n_ledger nd) + 83238 < 2 ^ 64"
    and tip: "hm_get (block_store (n_dag nd)) (mining_tip g (n_dag nd)) = Some tb"
    and height: "block_height tb + 1 \<noteq> 0"
    and template: "T = block_template env g me (wall_clock env (n_reads nd)) (fst (drain_to_batch pool 10)) nd"
    and work: "\<exists>n. calculate_hash (sha3 env) (with_nonce T n) \<le> n_target nd"
    and fresh: "\<And>n. calculate_hash (sha3 env) (with_nonce T n) \<le> n_target nd \<Longrightarrow>
      hm_get (block_store (n_dag nd)) (calculate_hash (sha3 env) (with_nonce T n)) = None"
  shows "\<exists>nd' pool' b txs. mining_tick env g me nd pool = ((Inr (), nd'), pool') \<and>
    drain_to_batch pool 10 = (txs, pool') \<and>
    transactions b = fst (select_affordable (sha3 env) (n_ledger nd) txs me DEV_TREASURY_ADDRESS) \<and>
    n_history nd' = n_history nd @ [b] \<and> (\<exists>n. b = with_nonce T n) \<and>
    hm_get (block_store (n_dag nd')) (calculate_hash (sha3 env) b) = Some b \<and>
    extends_tip (mining_tip g (n_dag nd)) (block_height tb) b \<and>
    coinbase_miner_address b = me \<and> node_inv env g nd' \<and> \<not> n_sync_pending nd' \<and>
    (let tip = (case select_canonical_tip (n_dag nd') of
                  Some t \<Rightarrow> t | None \<Rightarrow> calculate_hash (sha3 env) b)
     in (\<forall>l. recompute_ledger (sha3 env) (n_dag nd') tip = Some (Inr l) \<longrightarrow> n_ledger nd' = l) \<and>
        (\<forall>bs. canonical_block_order (n_dag nd') tip = Some bs \<longrightarrow>
           calculate_next_target (difficulty_mgr env) bs (n_target nd) = Some (n_target nd')))"
proof -
  obtain txs pool' where dr: "drain_to_batch pool 10 = (txs, pool')" by fastforce
  define nd2 where "nd2 = nd\<lparr>n_reads := Suc (n_reads nd)\<rparr>"
  define b0 where "b0 = block_template env g me (wall_clock env (n_reads nd)) txs nd2"
  have nd2 [simp]: "n_dag nd2 = n_dag nd" "n_ledger nd2 = n_ledger nd" "n_target nd2 = n_target nd"
    "n_storage nd2 = n_storage nd" "n_history nd2 = n_history nd" by (simp_all add: nd2_def)
  have b0: "b0 = T" by (simp add: b0_def template dr block_template_def Let_def)
  have ext: "extends_tip (mining_tip g (n_dag nd)) (block_height tb) (with_nonce b0 n)" for n
    by (simp add: extends_tip_def b0_def tip)
  have h0: "block_height b0 \<noteq> 0" using height by (simp add: b0_def tip)
  have cb: "verify_coinbase_rewards b0" unfolding b0_def by (rule template_coinbase)
  obtain acc rej where sel: "select_loop (sha3 env) me DEV_TREASURY_ADDRESS (scratch_of (n_ledger nd)) txs
      = (acc, rej)" by fastforce
  have "transactions b0 = acc" by (simp add: b0_def select_affordable_def sel)
  moreover obtain sc where "try_fold (commit_transaction (sha3 env) me DEV_TREASURY_ADDRESS)
      (scratch_of (n_ledger nd)) acc = Inr sc"
    using select_loop_sound [OF sel, of "scratch_of (n_ledger nd)"] room
    by (auto simp: refines_scratch_def ledger_supply_def)
  ultimately obtain l where ap: "apply_block (sha3 env) (n_ledger nd) b0 = (Inr (), l)"
    using apply_block_fits [OF cb _ h0 room] by (auto simp: b0_def)
  obtain bytes where "ser_ledger (bin env) l = Some bytes" using led by blast
  then obtain st where sv: "save_ledger_state (sled_fault env) (bin env) l (n_storage nd) = (Inr (), st)"
    and tree: "blocks_tree st = blocks_tree (n_storage nd)"
    using rel save_ledger_reliable unfolding reliable_def by metis
  obtain n0 where "calculate_hash (sha3 env) (with_nonce b0 n0) \<le> n_target nd"
    using work b0 by blast
  then have "verify_pow (sha3 env) (pow_new (n_target nd)) (with_nonce b0 n0)"
    by (simp add: verify_pow_def pow_new_def)
  from mine_block_total [OF this] obtain r where mb: "mine_block (sha3 env) (pow_new (n_target nd)) b0 = Some r"
    by blast
  from mine_block_sound [OF mb] obtain b n where b: "r = (calculate_hash (sha3 env) b, b)"
    "b = with_nonce b0 n" "calculate_hash (sha3 env) b \<le> n_target nd"
    by (cases r) (auto simp: verify_pow_def pow_new_def)
  define nd1 where "nd1 = nd2\<lparr>n_ledger := l, n_storage := st,
      n_log := log_record (n_log nd2) (block_height b0) (n_target nd)\<rparr>"
  let ?h = "calculate_hash (sha3 env) b"
  obtain res nd' where st': "settle env ?h (store_mined env ?h b nd1) = (res, nd')" by fastforce
  have target: "n_target nd1 = n_target nd" by (simp add: nd1_def nd2_def)
  have tick: "mining_tick env g me nd pool = ((res, nd'), pool')"
    using idle cb ap sv mb b(1) st' target
    by (simp add: mining_tick_def begin_mining_def tick_def dr Let_def nd2_def [symmetric] b0_def [symmetric]
        nd1_def [symmetric])
  have same: "same_store nd nd1" using tree by (simp add: same_store_def nd1_def)
  have inv1: "node_inv env g nd1" by (rule node_inv_store [OF same inv])
  have d1: "n_dag nd1 = n_dag nd" "n_history nd1 = n_history nd" by (simp_all add: nd1_def)
  note after = mined_history [OF st']
  have sound: "block_sound env (n_dag nd1) b"
    using template_sound [OF _ pool dr, where g = g and nd = nd2 and b = b and m = me and n = n and
        now = "wall_clock env (n_reads nd)"] b h0 inv
      node_inv_store [of nd nd2 env g] d1
    by (simp add: b0_def same_store_def)
  have new: "hm_get (block_store (n_dag nd1)) ?h = None" using fresh [of n] b(2,3) b0 d1 by simp
  have size': "dag_size nd' < 2 ^ 32"
    using size new by (simp add: dag_size_def after(2) d1 dag_insert_def length_hm_insert)
  have inv': "node_inv env g nd'"
    by (rule node_inv_add [OF rel inv1 sound refl new after(2,1,4) size'])
  let ?s = "store_mined env ?h b nd1"
  have inv_s: "dag_inv (n_dag ?s)"
    using node_inv_dag [OF inv'] by (simp add: after(2) store_mined_frame)
  from settle_returns [OF inv_s win st'] have res: "res = Inr ()" .
  note settled = settle_result [OF inv_s win refl st']
  have dag: "n_dag ?s = n_dag nd'" by (simp add: after(2) store_mined_frame)
  have target: "n_target ?s = n_target nd" by (simp add: store_mined_target nd1_def)
  have pending: "\<not> n_sync_pending nd'"
    using idle settle_pending [OF st'] by (simp add: store_mined_target nd1_def nd2_def)
  show ?thesis
  proof (intro exI conjI)
    show "mining_tick env g me nd pool = ((Inr (), nd'), pool')" using tick res by simp
    show "drain_to_batch pool 10 = (txs, pool')" by (rule dr)
    show "n_history nd' = n_history nd @ [b]" using after d1 by simp
    show "b = with_nonce T n" using b(2) b0 by simp
    show "hm_get (block_store (n_dag nd')) ?h = Some b" using after by simp
    show "node_inv env g nd'" "\<not> n_sync_pending nd'" by (rule inv', rule pending)
    show "let tip = (case select_canonical_tip (n_dag nd') of Some t \<Rightarrow> t | None \<Rightarrow> ?h)
     in (\<forall>l. recompute_ledger (sha3 env) (n_dag nd') tip = Some (Inr l) \<longrightarrow> n_ledger nd' = l) \<and>
        (\<forall>bs. canonical_block_order (n_dag nd') tip = Some bs \<longrightarrow>
           calculate_next_target (difficulty_mgr env) bs (n_target nd) = Some (n_target nd'))"
      using settled(2,4) unfolding dag target Let_def by blast
  qed (use b(2) ext [of n] in \<open>simp_all add: b0_def\<close>)
qed

end
