(* ===== verification/Progress_Example.thy ===== *)
theory Progress_Example
  imports Node_Liveness Service_Examples
begin

text \<open>
  The example node after its first tick: two blocks, and a miner with a balance to spend.
\<close>

lemma ex_node_run_rpc:
  "node_run ex_env plain_rpc None DEVNET_NETWORK_ID (fill 3) mining None [] ex_node mempool_new"
  by (rule node_run.start [OF _ ex_node_start]) (simp add: storage_empty_def)

lemma ex_empty_pool: "mempool_signed lib sha mempool_new" "drain_to_batch mempool_new 10 = ([], mempool_new)"
  using mempool_inv_new [of sha] by (simp_all add: mempool_signed_def mempool_new_def drain_to_batch_def Let_def)

lemma extends_height_digest: "extends_tip t h b \<Longrightarrow> calculate_hash height_digest b = fill (ucast (h + 1))"
  by (simp add: height_digest_block extends_tip_def)

text \<open>The first tick, with everything \<open>tick_progress\<close> says of it.\<close>

lemma ex_first_tick:
  obtains nd :: "nat node" and b where
    "mining_tick ex_env (fill 0) (fill 3) ex_node mempool_new = ((Inr (), nd), mempool_new)"
    "n_history nd = [ex_genesis, b]" "hm_get (block_store (n_dag nd)) (fill 1) = Some b"
    "extends_tip (fill 0) 0 b" "transactions b = []" "coinbase_miner_address b = fill 3"
    "node_inv ex_env (fill 0) nd" "\<not> n_sync_pending nd"
    "let tip = (case select_canonical_tip (n_dag nd) of Some t \<Rightarrow> t | None \<Rightarrow> fill 1)
     in (\<forall>l. recompute_ledger height_digest (n_dag nd) tip = Some (Inr l) \<longrightarrow> n_ledger nd = l) \<and>
        (\<forall>bs. canonical_block_order (n_dag nd) tip = Some bs \<longrightarrow>
           calculate_next_target (difficulty_mgr ex_env) bs (fill 15) = Some (n_target nd))"
proof -
  have tip: "mining_tip (fill 0) (n_dag ex_node) = fill 0"
    using mining_tip_stored(1) [OF ex_node_inv] by (auto simp: ex_node_get split: if_splits)
  have room: "ledger_supply (n_ledger ex_node) + 83238 < 2 ^ 64"
    by (simp add: ex_node_shape ledger_supply_default)
  have hash: "calculate_hash height_digest b = fill 1" if "extends_tip (fill 0) 0 b" for b
    using extends_height_digest [OF that] by simp
  have "\<exists>nd' pool' b txs. mining_tick ex_env (fill 0) (fill 3) ex_node mempool_new = ((Inr (), nd'), pool') \<and>
    drain_to_batch mempool_new 10 = (txs, pool') \<and>
    transactions b = fst (select_affordable (sha3 ex_env) (n_ledger ex_node) txs (fill 3) DEV_TREASURY_ADDRESS) \<and>
    n_history nd' = n_history ex_node @ [b] \<and>
    (\<exists>n. b = with_nonce (block_template ex_env (fill 0) (fill 3) (wall_clock ex_env (n_reads ex_node))
      (fst (drain_to_batch mempool_new 10)) ex_node) n) \<and>
    hm_get (block_store (n_dag nd')) (calculate_hash (sha3 ex_env) b) = Some b \<and>
    extends_tip (mining_tip (fill 0) (n_dag ex_node)) (block_height ex_genesis) b \<and>
    coinbase_miner_address b = fill 3 \<and> node_inv ex_env (fill 0) nd' \<and> \<not> n_sync_pending nd' \<and>
    (let tip = (case select_canonical_tip (n_dag nd') of
                  Some t \<Rightarrow> t | None \<Rightarrow> calculate_hash (sha3 ex_env) b)
     in (\<forall>l. recompute_ledger (sha3 ex_env) (n_dag nd') tip = Some (Inr l) \<longrightarrow> n_ledger nd' = l) \<and>
        (\<forall>bs. canonical_block_order (n_dag nd') tip = Some bs \<longrightarrow>
           calculate_next_target (difficulty_mgr ex_env) bs (n_target ex_node) = Some (n_target nd')))"
  proof (rule tick_progress [OF ex_node_inv ex_env_reliable _ ex_env_window ex_node_idle _ ex_empty_pool(1) room])
    let ?b = "with_nonce (block_template ex_env (fill 0) (fill 3) (wall_clock ex_env (n_reads ex_node))
      (fst (drain_to_batch mempool_new 10)) ex_node)"
    have one: "calculate_hash height_digest (?b n) = fill 1" for n
      by (rule hash) (simp add: extends_tip_def tip ex_node_get)
    show "hm_get (block_store (n_dag ex_node)) (calculate_hash (sha3 ex_env) (?b n)) = None" for n
      using one [of n] by (simp add: ex_node_get)
    have "calculate_hash (sha3 ex_env) (?b 0) \<le> n_target ex_node"
      using one [of 0] by (simp add: ex_node_shape)
    then show "\<exists>n. calculate_hash (sha3 ex_env) (?b n) \<le> n_target ex_node" by blast
  qed (simp_all add: plain_bincode_def ex_node_size tip ex_node_get)
  then obtain nd b txs pool' where t:
    "mining_tick ex_env (fill 0) (fill 3) ex_node mempool_new = ((Inr (), nd), pool')"
    "drain_to_batch mempool_new 10 = (txs, pool')"
    "transactions b = fst (select_affordable height_digest (n_ledger ex_node) txs (fill 3) DEV_TREASURY_ADDRESS)"
    "n_history nd = n_history ex_node @ [b]"
    "hm_get (block_store (n_dag nd)) (calculate_hash height_digest b) = Some b"
    "extends_tip (mining_tip (fill 0) (n_dag ex_node)) (block_height ex_genesis) b"
    "coinbase_miner_address b = fill 3" "node_inv ex_env (fill 0) nd" "\<not> n_sync_pending nd"
    "let tip = (case select_canonical_tip (n_dag nd) of
                  Some t \<Rightarrow> t | None \<Rightarrow> calculate_hash height_digest b)
     in (\<forall>l. recompute_ledger height_digest (n_dag nd) tip = Some (Inr l) \<longrightarrow> n_ledger nd = l) \<and>
        (\<forall>bs. canonical_block_order (n_dag nd) tip = Some bs \<longrightarrow>
           calculate_next_target (difficulty_mgr ex_env) bs (n_target ex_node) = Some (n_target nd))"
    unfolding ex_env_sels by blast
  have ext: "extends_tip (fill 0) 0 b" using t(6) by (simp add: tip)
  have h: "calculate_hash height_digest b = fill 1" using hash [OF ext] by simp
  have e: "txs = []" "pool' = mempool_new" using t(2) by (simp_all add: ex_empty_pool(2))
  show thesis
    by (rule that [of nd b])
      (use t ext in \<open>simp_all only: h e ex_node_shape(2,3) append.simps select_affordable_def select_loop.simps fst_conv not_False_eq_True\<close>)
qed

section \<open>The node after the tick\<close>

text \<open>The replay of the two blocks, in either order, leaves what the mined block pays.\<close>

lemma two_block_orders: "distinct order \<Longrightarrow> set order = {x, y} \<Longrightarrow> x \<noteq> y \<Longrightarrow> order = [x, y] \<or> order = [y, x]"
proof -
  assume o: "distinct order" "set order = {x, y}" "x \<noteq> y"
  then have "length order = 2" using distinct_card [of order] by simp
  then obtain a b where "order = [a, b]" by (auto simp: length_Suc_conv numeral_2_eq_2)
  then show ?thesis using o by auto
qed

lemma ex_mined_ledger:
  assumes "content_ok ex_env b" and "block_height b = 1" and "transactions b = []"
    and "coinbase_miner_address b = fill 3" and "coinbase_dev_address b = DEV_TREASURY_ADDRESS"
  obtains l where "apply_block height_digest ledger_default b = (Inr (), l)"
    and "105 \<le> unat (ledger_balance l (fill 3))" and "get_or 0 (next_nonces l) (fill 3) = 0"
    and "confirmed_transactions l = {}" and "ledger_supply l + 83238 < 2 ^ 64"
proof -
  have cb: "verify_coinbase_rewards b" using assms(1) by (simp add: content_ok_def)
  obtain l where l: "apply_block height_digest ledger_default b = (Inr (), l)"
    using apply_block_fits [OF cb assms(5), of ledger_default height_digest] assms(2,3)
    by (auto simp: ledger_supply_default)
  have out: "coinbase_miner_output b = fst (calculate_subsidy_split 1)"
    using cb assms(2) by (simp add: verify_coinbase_rewards_def split_beta)
  have "uint (ledger_balance l (fill 3)) = uint (coinbase_miner_output b)"
    using apply_block_delta [OF l, of "fill 3"] assms(2-5)
    by (simp add: block_delta_def ledger_balance_def ledger_default_def DEV_TREASURY_ADDRESS_def)
  moreover have "105 \<le> unat (fst (calculate_subsidy_split 1))"
    using calculate_subsidy_split_parts [of 1] by (simp add: emission_at_def)
  ultimately have funds: "105 \<le> unat (ledger_balance l (fill 3))"
    unfolding out by (metis word_uint_eq_iff)
  have rest: "next_nonces l = Map.empty" "confirmed_transactions l = {}"
  proof -
    have "block_height b \<noteq> 0" using assms(2) by simp
    from apply_block_Inr [OF l this] obtain sc bal where
      "try_fold (commit_transaction height_digest (coinbase_miner_address b) (coinbase_dev_address b))
         (scratch_of ledger_default) (transactions b) = Inr sc"
      "l = \<lparr>balances = bal, next_nonces = s_nonces sc, confirmed_transactions = s_confirmed sc\<rparr>" by blast
    then show "next_nonces l = Map.empty" "confirmed_transactions l = {}"
      by (auto simp: scratch_of_def ledger_default_def assms(3))
  qed
  have room: "ledger_supply l + 83238 < 2 ^ 64"
    using apply_block_supply [OF l] assms(2,3) coinbase_total [OF cb]
    by (simp add: ledger_supply_default block_burn_def block_issue_def subsidy_total_eq emission_at_def)
  show thesis using that l funds rest room by simp
qed

lemma ex_mined_node:
  obtains nd :: "nat node" and b where
    "node_run ex_env plain_rpc None DEVNET_NETWORK_ID (fill 3) True None [] nd mempool_new"
    "\<forall>h. hm_get (block_store (n_dag nd)) h = (if h = fill 0 then Some ex_genesis else if h = fill 1 then Some b else None)"
    "block_height b = 1" "mining_tip (fill 0) (n_dag nd) = fill 1" "dag_size nd = 2"
    "n_target nd = fill 15" "\<not> n_sync_pending nd"
    "105 \<le> unat (ledger_balance (n_ledger nd) (fill 3))" "get_or 0 (next_nonces (n_ledger nd)) (fill 3) = 0"
    "confirmed_transactions (n_ledger nd) = {}" "ledger_supply (n_ledger nd) + 83238 < 2 ^ 64"
proof -
  obtain nd :: "nat node" and b where t:
    "mining_tick ex_env (fill 0) (fill 3) ex_node mempool_new = ((Inr (), nd), mempool_new)"
    "n_history nd = [ex_genesis, b]" "hm_get (block_store (n_dag nd)) (fill 1) = Some b"
    "extends_tip (fill 0) 0 b" "transactions b = []" "coinbase_miner_address b = fill 3"
    "node_inv ex_env (fill 0) nd" "\<not> n_sync_pending nd"
    "let tip = (case select_canonical_tip (n_dag nd) of Some t \<Rightarrow> t | None \<Rightarrow> fill 1)
     in (\<forall>l. recompute_ledger height_digest (n_dag nd) tip = Some (Inr l) \<longrightarrow> n_ledger nd = l) \<and>
        (\<forall>bs. canonical_block_order (n_dag nd) tip = Some bs \<longrightarrow>
           calculate_next_target (difficulty_mgr ex_env) bs (fill 15) = Some (n_target nd))"
    by (rule ex_first_tick)
  let ?m = "n_dag nd"
  note inv = node_inv_dag [OF t(7)]
  have b: "block_parents b = [fill 0]" "block_height b = 1" using t(4) by (simp_all add: extends_tip_def)
  have run: "node_run ex_env plain_rpc None DEVNET_NETWORK_ID (fill 3) True None [] nd mempool_new"
  proof (rule node_run_tick [OF ex_node_run_rpc])
    show "mining_tick ex_env (fixed_genesis_hash_for_network (sha3 ex_env) DEVNET_NETWORK_ID) (fill 3) ex_node
        mempool_new = ((Inr (), nd), mempool_new)" using t(1) by (simp add: ex_genesis_hash)
    have "height_digest (block_preimage c) = fill (ucast (block_height c))" for c
      using height_digest_block [of c] by (simp add: calculate_hash_def)
    then show "inj_on (sha3 ex_env) (block_preimage ` set (n_history nd))"
      using b(2) by (simp add: t(2) inj_on_def)
  qed simp_all
  obtain gb where g0: "hm_get (block_store ?m) (fill 0) = Some gb" "block_height gb = 0"
    using t(7) unfolding node_inv_def by blast
  have hist: "map snd (block_store ?m) = [ex_genesis, b]" using t(2,7) by (simp add: node_inv_def)
  then obtain x y where store: "block_store ?m = [(x, ex_genesis), (y, b)]" by auto
  have xy: "x = fill 0 \<and> y = fill 1"
    using g0 t(3) b(2) by (auto simp: store hm_get_def split: if_splits)
  then have get: "hm_get (block_store ?m) h =
      (if h = fill 0 then Some ex_genesis else if h = fill 1 then Some b else None)" for h
    by (simp add: store hm_get_def)
  have par: "parents_of ?m (fill 1) = [fill 0]" by (simp add: parents_of_def get b(1))
  have tip: "mining_tip (fill 0) ?m = fill 1"
    using mining_tip_stored(1) [OF t(7)] mining_tip_stored(2) [OF t(7), of "fill 1"]
    by (auto simp: get par split: if_splits)
  then have tip2: "(case select_canonical_tip ?m of Some t \<Rightarrow> t | None \<Rightarrow> fill 1) = fill 1"
    by (simp add: mining_tip_def split: option.splits)
  obtain d where d: "ghostdag_cache ?m (fill 1) = Some d" using dag_inv_simps(4) [OF inv t(3)] by blast
  from get_linear_sort_spec [OF inv d] obtain order where order: "get_linear_sort ?m (fill 1) = Some order"
    "distinct order" "set order = insert (fill 1) (get_past_set ?m (fill 1))" by metis
  have "get_past_set ?m (fill 1) = {fill 0}"
  proof -
    have "get_past_set ?m (fill 0) = {}" by (subst past_unfold) (simp add: parents_of_def get)
    then show ?thesis using past_unfold [of ?m "fill 1"] by (simp add: par)
  qed
  then have ord: "order = [fill 1, fill 0] \<or> order = [fill 0, fill 1]"
    using two_block_orders [OF order(2), of "fill 1" "fill 0"] order(3) by simp
  have "fill 1 \<noteq> fill 0" by simp
  then have "block_sound ex_env ?m b" using t(3,7) unfolding node_inv_def by blast
  then have sound: "content_ok ex_env b" "coinbase_dev_address b = DEV_TREASURY_ADDRESS"
    by (simp_all add: block_sound_def)
  obtain l where l: "apply_block height_digest ledger_default b = (Inr (), l)"
    "105 \<le> unat (ledger_balance l (fill 3))" "get_or 0 (next_nonces l) (fill 3) = 0"
    "confirmed_transactions l = {}" "ledger_supply l + 83238 < 2 ^ 64"
    using ex_mined_ledger [OF sound(1) b(2) t(5,6) sound(2)] by blast
  have "recompute_ledger height_digest ?m (fill 1) = Some (Inr l)"
    using ord l(1) by (auto simp: recompute_ledger_def order(1) replay_step_def get ledger_step_def genesis_applies)
  then have led: "n_ledger nd = l" using t(9) by (simp add: tip2)
  have "calculate_next_target (difficulty_mgr ex_env) (List.map_filter (hm_get (block_store ?m)) order) (fill 15)
      = Some (n_target nd)"
    using t(9) by (simp add: tip2 canonical_block_order_def order(1))
  moreover have "length (List.map_filter (hm_get (block_store ?m)) order) = 2"
    using ord by (auto simp: get List.map_filter_simps)
  ultimately have target: "n_target nd = fill 15" by (simp add: calculate_next_target_def difficulty_new_def)
  have "dag_size nd = 2" by (simp add: dag_size_def store)
  then show thesis using that run get b(2) tip target t(8) l(2-5) led by blast
qed

end
