(* ===== verification/Boot.thy ===== *)
theory Boot
  imports Command_Line Node_Startup Rpc_Server
begin

text \<open>
  \<^verbatim>\<open>main\<close> of \<^verbatim>\<open>vdag-node/src/main.rs\<close> up to its event loop: what the arguments ask for, the
  database, the node's identity, the swarm, the peers it dials, the chain, the miner's wallet and
  the RPC server.  The swarm is third-party: whether it can be built, listens and dials is what
  the fields of \<open>swarm_library\<close> say.
\<close>

section \<open>The crates\<close>

record ('k, 'm) swarm_library =
  identities :: "'k identity_library"
  swarm_set_up :: "'k \<Rightarrow> bool"
  parse_multiaddr :: "string \<Rightarrow> 'm option"
  swarm_listen :: "'m \<Rightarrow> bool"
  swarm_dial :: "nat \<Rightarrow> 'm \<Rightarrow> bool"
  rpc_bind :: "string \<Rightarrow> bool"

record ('j, 'pk, 'sk, 'sg, 'vk, 'es, 'ek, 'k, 'm) crates =
  cr_wallet :: "'j wallet_library"
  cr_keys :: "('pk, 'sk, 'sg) dilithium_keys"
  cr_config :: "('vk, 'es, 'ek) config_library"
  cr_swarm :: "('k, 'm) swarm_library"

section \<open>Joining the network\<close>

fun decimal :: "nat \<Rightarrow> string" where
  "decimal n = (if n < 10 then [char_of (48 + n)] else decimal (n div 10) @ [char_of (48 + n mod 10)])"

declare decimal.simps [simp del]

definition listen_address :: "u16 \<Rightarrow> string" where
  "listen_address port = ''/ip4/0.0.0.0/tcp/'' @ decimal (unat port)"

datatype dial_report = Dialing string | DialFailed string | BadAddress string

text \<open>The dialling loop; a dial is identified by its place in the list.\<close>

fun dial_peers :: "('k, 'm) swarm_library \<Rightarrow> nat \<Rightarrow> string list \<Rightarrow> dial_report list" where
  "dial_peers net n [] = []"
| "dial_peers net n (addr_str # targets) =
     (case parse_multiaddr net addr_str of
        None \<Rightarrow> BadAddress addr_str
      | Some remote \<Rightarrow> if swarm_dial net n remote then Dialing addr_str else DialFailed addr_str)
     # dial_peers net (Suc n) targets"

definition or_swarm_fails :: "bool \<Rightarrow> ('o, unit) io" where
  "or_swarm_fails ok = (if ok then returns () else fails SwarmFailed)"

definition dial_all ::
  "('j, 'pk, 'sk, 'sg, 'vk, 'es, 'ek, 'k, 'm) crates \<Rightarrow> digest \<Rightarrow> surroundings \<Rightarrow> string list \<Rightarrow>
     string \<Rightarrow> ('o, dial_report list) io"
where
  "dial_all cr sha sur cli network_name w =
     (case dial_list (cr_config cr) sha sur cli network_name w of
        (targets, w) \<Rightarrow> (Inr (dial_peers (cr_swarm cr) 0 targets), w))"

text \<open>The identity, the swarm built and listening, the peers dialled.\<close>

definition join_network ::
  "('j, 'pk, 'sk, 'sg, 'vk, 'es, 'ek, 'k, 'm) crates \<Rightarrow> digest \<Rightarrow> surroundings \<Rightarrow> string list \<Rightarrow>
     string \<Rightarrow> ('o, 'k \<times> dial_report list) io"
where
  "join_network cr sha sur cli network_name =
     and_then (load_or_create_identity (identities (cr_swarm cr)) sur ''node_identity.key'') (\<lambda>local_key.
     and_then (or_swarm_fails (swarm_set_up (cr_swarm cr) local_key)) (\<lambda>_.
     and_then (or_fail SwarmFailed (parse_multiaddr (cr_swarm cr) (listen_address (p2p_port sur)))) (\<lambda>addr.
     and_then (or_swarm_fails (swarm_listen (cr_swarm cr) addr)) (\<lambda>_.
     and_then (dial_all cr sha sur cli network_name) (\<lambda>dials.
     returns (local_key, dials))))))"

section \<open>The main function\<close>

text \<open>What the event loop starts with.  The RPC server is a task of its own: when it could not
  start, the node runs without it.\<close>

record ('k, 'p, 'pk, 'sk, 'i) launched =
  la_identity :: 'k
  la_dials :: "dial_report list"
  la_network :: u64
  la_node :: "'p node"
  la_keys :: "('pk, 'sk) velo_key_pair"
  la_miner :: address
  la_mempool :: mempool
  la_serving :: "'i serving option"

datatype 'r exit =
    Finished
  | Explored "explorer_report option"
  | Failed failure
  | Crashed node_error
  | Running 'r

definition serve_address :: "surroundings \<Rightarrow> string" where
  "serve_address sur =
     (case env_var sur ''VDAG_RPC_ADDR'' of None \<Rightarrow> ''127.0.0.1:8545'' | Some a \<Rightarrow> a)"

definition launch ::
  "('j, 'pk, 'sk, 'sg, 'vk, 'es, 'ek, 'k, 'm) crates \<Rightarrow> ('pk, 'sg) environment \<Rightarrow> surroundings \<Rightarrow>
     string list \<Rightarrow> 'j wallet_line world \<Rightarrow> blockchain_storage \<Rightarrow>
     ('k, 'p, 'pk, 'sk, 'i) launched exit \<times> 'j wallet_line world"
where
  "launch cr env sur cli w st =
     (let network_name = resolve_network_environment sur;
          network_id = resolve_network_id network_name
      in case join_network cr (sha3 env) sur cli network_name w of
           (Inl e, w) \<Rightarrow> (Failed e, w)
         | (Inr (local_key, dials), w) \<Rightarrow>
             (case start_node env network_id st of
                Inl e \<Rightarrow> (Crashed e, w)
              | Inr nd \<Rightarrow>
                  (case load_or_create (cr_wallet cr) (cr_keys cr) (sha3 env) sur ''miner_wallet.json'' w of
                     (Inl e, w) \<Rightarrow> (Failed e, w)
                   | (Inr miner_keys, w) \<Rightarrow>
                       (Running
                          \<lparr>la_identity = local_key, la_dials = dials, la_network = network_id,
                           la_node = nd, la_keys = miner_keys,
                           la_miner = derive_address (verifier (cr_keys cr)) (sha3 env) (kp_public miner_keys),
                           la_mempool = mempool_new,
                           la_serving = serve_start (rpc_bind (cr_swarm cr)) sur (serve_address sur)\<rparr>, w))))"

definition main_program ::
  "('j, 'pk, 'sk, 'sg, 'vk, 'es, 'ek, 'k, 'm) crates \<Rightarrow> ('pk, 'sg) environment \<Rightarrow> surroundings \<Rightarrow>
     string list \<Rightarrow> 'j wallet_line world \<Rightarrow> blockchain_storage \<Rightarrow>
     ('k, 'p, 'pk, 'sk, 'i) launched exit \<times> 'j wallet_line world"
where
  "main_program cr env sur args w st =
     (case run_mode_of args of
        WalletCommand rest \<Rightarrow>
          (case handle_wallet_command (cr_wallet cr) (cr_keys cr) (sha3 env) sur rest w of
             (Inl e, w) \<Rightarrow> (Failed e, w)
           | (Inr _, w) \<Rightarrow> (Finished, w))
      | ExploreBlock hash_str \<Rightarrow>
          (case storage_open (sled_fault env) st of
             (None, _) \<Rightarrow> (Crashed Panic, w)
           | (Some _, st) \<Rightarrow>
               (case run_explorer (sled_fault env) (bin env) st hash_str of
                  (None, _) \<Rightarrow> (Crashed Panic, w)
                | (Some report, _) \<Rightarrow> (Explored report, w)))
      | RunNode cli \<Rightarrow>
          (case storage_open (sled_fault env) st of
             (None, _) \<Rightarrow> (Crashed Panic, w)
           | (Some _, st) \<Rightarrow> launch cr env sur cli w st))"

end
