(* ===== verification/Boot_Facts.thy ===== *)
theory Boot_Facts
  imports Boot Wallet_Facts Node_Runs
begin

text \<open>
  What the main function leaves on the disk and finds there again: which files its steps touch,
  what a start that reaches the event loop went through, and what the next start makes of it.
\<close>

section \<open>Files\<close>

lemma read_text_files: "files (snd (read_text env p w)) = files w"
  by (simp add: read_text_def and_then_def read_file_def returns_def fails_def split: option.split)

lemma config_files: "files (snd (bootstrap_config_or_default lib sha env name w)) = files w"
  using read_text_files [of env "bootstrap_config_path env name" w]
  by (cases "read_text env (bootstrap_config_path env name) w")
    (simp add: bootstrap_config_or_default_def load_bootstrap_config_def
      load_bootstrap_config_from_path_def split: sum.split option.split)

lemma peers_files: "files (snd (load_bootstrap_peers env path w)) = files w"
  using read_text_files [of env path w]
  by (cases "read_text env path w") (simp add: load_bootstrap_peers_def split: sum.split)

lemma dial_all_runs: "\<exists>ds w'. dial_all cr sha sur cli name w = (Inr ds, w') \<and> files w' = files w"
proof -
  obtain c w1 where c: "bootstrap_config_or_default (cr_config cr) sha sur name w = (c, w1)" by fastforce
  obtain ps w2 where ps: "load_bootstrap_peers sur ''bootstrap_peers.txt'' w1 = (ps, w2)" by fastforce
  have "files w2 = files w" by (metis c ps config_files peers_files snd_conv)
  then show ?thesis by (simp add: dial_all_def dial_list_def c ps)
qed

lemma load_or_create_other:
  "load_or_create lib keys sha env path w = (r, w') \<Longrightarrow> q \<noteq> path \<Longrightarrow> files w' q = files w q"
  using command_touches(2) [of path lib keys sha env] unfolding touches_only_def
  by (metis singletonD snd_conv)

section \<open>Joining\<close>

lemma join_Inr:
  assumes "join_network cr sha sur cli name w = (Inr (key, ds), w')"
  obtains w1 addr where
    "load_or_create_identity (identities (cr_swarm cr)) sur ''node_identity.key'' w = (Inr key, w1)"
    "swarm_set_up (cr_swarm cr) key"
    "parse_multiaddr (cr_swarm cr) (listen_address (p2p_port sur)) = Some addr"
    "swarm_listen (cr_swarm cr) addr" "files w' = files w1"
proof -
  from assms obtain w1 addr where
    k: "load_or_create_identity (identities (cr_swarm cr)) sur ''node_identity.key'' w = (Inr key, w1)"
    and rest: "swarm_set_up (cr_swarm cr) key"
    "parse_multiaddr (cr_swarm cr) (listen_address (p2p_port sur)) = Some addr"
    "swarm_listen (cr_swarm cr) addr"
    and d: "dial_all cr sha sur cli name w1 = (Inr ds, w')"
    by (auto simp: join_network_def or_swarm_fails_def io_ok split: if_splits)
  have "files w' = files w1" using dial_all_runs [of cr sha sur cli name w1] d by auto
  with k rest that show thesis by blast
qed

lemma join_runs:
  assumes "load_or_create_identity (identities (cr_swarm cr)) sur ''node_identity.key'' w = (Inr key, w1)"
    "swarm_set_up (cr_swarm cr) key"
    "parse_multiaddr (cr_swarm cr) (listen_address (p2p_port sur)) = Some addr"
    "swarm_listen (cr_swarm cr) addr"
  obtains ds w' where "join_network cr sha sur cli name w = (Inr (key, ds), w')" "files w' = files w1"
proof -
  obtain ds w' where "dial_all cr sha sur cli name w1 = (Inr ds, w')" "files w' = files w1"
    using dial_all_runs by blast
  with assms have "join_network cr sha sur cli name w = (Inr (key, ds), w')" "files w' = files w1"
    by (simp_all add: join_network_def and_then_def or_swarm_fails_def or_fail_def returns_def)
  then show thesis by (rule that)
qed

section \<open>Launching\<close>

lemma main_Running:
  assumes "main_program cr env sur args w st = (Running r, w')"
  obtains cli st1 w1 where "run_mode_of args = RunNode cli" "storage_open (sled_fault env) st = (Some (), st1)"
    "join_network cr (sha3 env) sur cli (resolve_network_environment sur) w =
       (Inr (la_identity r, la_dials r), w1)"
    "start_node env (la_network r) st1 = Inr (la_node r)"
    "load_or_create (cr_wallet cr) (cr_keys cr) (sha3 env) sur ''miner_wallet.json'' w1 = (Inr (la_keys r), w')"
    "la_network r = resolve_network_id (resolve_network_environment sur)"
    "la_miner r = derive_address (verifier (cr_keys cr)) (sha3 env) (kp_public (la_keys r))"
    "la_mempool r = mempool_new"
    "la_serving r = serve_start (rpc_bind (cr_swarm cr)) sur (serve_address sur)"
  using assms that
  by (fastforce simp: main_program_def launch_def Let_def split: run_mode.splits prod.splits sum.splits
      option.splits)

lemma main_runs:
  assumes "run_mode_of args = RunNode cli" "storage_open (sled_fault env) st = (Some (), st1)"
    "join_network cr (sha3 env) sur cli (resolve_network_environment sur) w = (Inr (key, ds), w1)"
    "start_node env (resolve_network_id (resolve_network_environment sur)) st1 = Inr nd"
    "load_or_create (cr_wallet cr) (cr_keys cr) (sha3 env) sur ''miner_wallet.json'' w1 = (Inr kp, w')"
  shows "main_program cr env sur args w st =
    (Running \<lparr>la_identity = key, la_dials = ds,
       la_network = resolve_network_id (resolve_network_environment sur), la_node = nd, la_keys = kp,
       la_miner = derive_address (verifier (cr_keys cr)) (sha3 env) (kp_public kp),
       la_mempool = mempool_new,
       la_serving = serve_start (rpc_bind (cr_swarm cr)) sur (serve_address sur)\<rparr>, w')"
  using assms by (simp add: main_program_def launch_def Let_def)

text \<open>An RPC address that cannot be bound does not stop the node.\<close>

lemma unbound_server_ignored:
  assumes "main_program cr env sur args w st = (Running r, w')"
    and "\<not> rpc_bind (cr_swarm cr) (serve_address sur)"
  shows "la_serving r = None"
  using assms(1) by (rule main_Running) (use assms(2) in \<open>simp add: serve_start_def\<close>)

text \<open>A first start, on an empty database, is the start of a run.\<close>

lemma main_starts_run:
  assumes "main_program cr env sur args w st = (Running r, w')" and "blocks_tree st = Map.empty"
  shows "node_run env codec token (la_network r) miner mining None [] (la_node r) (la_mempool r)"
proof -
  from assms(1) obtain st1 where o: "storage_open (sled_fault env) st = (Some (), st1)"
    and s: "start_node env (la_network r) st1 = Inr (la_node r)" and m: "la_mempool r = mempool_new"
    by (rule main_Running) blast
  have "blocks_tree st1 = Map.empty" using storage_open_trees [of "sled_fault env" st] o assms(2) by simp
  then show ?thesis using node_run.start s m by metis
qed

text \<open>A later start on the same files and blocks, without faults, finds everything again.\<close>

lemma main_again:
  fixes nd :: "'p node" and r :: "('k, 'p, 'pk, 'sk, 'i) launched"
  assumes lib: "wallet_library_ok (cr_wallet cr)" "dilithium_ok (cr_keys cr)"
    and codec: "\<And>key bytes. id_encode (identities (cr_swarm cr)) key = Some bytes \<Longrightarrow>
      id_decode (identities (cr_swarm cr)) bytes = Some key"
    and first: "main_program cr env sur args w st = (Running r, w1)"
    and inv: "node_inv env (fixed_genesis_hash_for_network (sha3 env) (la_network r)) nd"
    and rel: "reliable env" and calm: "\<And>n. io_fault sur n = None"
    and same: "files v ''node_identity.key'' = files w1 ''node_identity.key''"
      "files v ''miner_wallet.json'' = files w1 ''miner_wallet.json''"
  obtains ds v' and nd' :: "'p node" where
    "main_program cr env sur args v (n_storage nd) = (Running (r\<lparr>la_dials := ds, la_node := nd'\<rparr>), v')"
    "files v' = files v" "hm_get (block_store (n_dag nd')) = hm_get (block_store (n_dag nd))"
    "ghostdag_cache (n_dag nd') = ghostdag_cache (n_dag nd)"
    "select_canonical_tip (n_dag nd') = select_canonical_tip (n_dag nd)"
    "\<forall>t l. select_canonical_tip (n_dag nd) = Some t \<longrightarrow>
       recompute_ledger (sha3 env) (n_dag nd) t = Some (Inr l) \<longrightarrow> n_ledger nd' = l"
proof -
  let ?id = "identities (cr_swarm cr)" and ?net = "resolve_network_environment sur"
  from first obtain cli w0 where mode: "run_mode_of args = RunNode cli"
    and join: "join_network cr (sha3 env) sur cli ?net w = (Inr (la_identity r, la_dials r), w0)"
    and key: "load_or_create (cr_wallet cr) (cr_keys cr) (sha3 env) sur ''miner_wallet.json'' w0 = (Inr (la_keys r), w1)"
    and r: "la_network r = resolve_network_id ?net"
      "la_miner r = derive_address (verifier (cr_keys cr)) (sha3 env) (kp_public (la_keys r))"
      "la_mempool r = mempool_new" "la_serving r = serve_start (rpc_bind (cr_swarm cr)) sur (serve_address sur)"
    by (rule main_Running) blast
  from join obtain wi addr where idr: "load_or_create_identity ?id sur ''node_identity.key'' w = (Inr (la_identity r), wi)"
    and sw: "swarm_set_up (cr_swarm cr) (la_identity r)"
      "parse_multiaddr (cr_swarm cr) (listen_address (p2p_port sur)) = Some addr"
      "swarm_listen (cr_swarm cr) addr" and wi: "files w0 = files wi"
    by (rule join_Inr)
  have "files v ''node_identity.key'' = files wi ''node_identity.key''"
    using load_or_create_other [OF key, of "''node_identity.key''"] same(1) wi by simp
  from load_identity_again [OF codec idr this calm]
  have "load_or_create_identity ?id sur ''node_identity.key'' v = (Inr (la_identity r), step_io v)" by simp
  from join_runs [OF this sw] obtain ds v1 where
    join2: "join_network cr (sha3 env) sur cli ?net v = (Inr (la_identity r, ds), v1)" and v1: "files v1 = files v"
    by (metis step_io_sels(1))
  have "files v1 ''miner_wallet.json'' = files w1 ''miner_wallet.json''" using same(2) v1 by simp
  from load_or_create_again [OF lib key this calm calm] obtain v' where
    key2: "load_or_create (cr_wallet cr) (cr_keys cr) (sha3 env) sur ''miner_wallet.json'' v1 = (Inr (la_keys r), v')"
    and v': "files v' = files v1" by blast
  obtain st1 where st1: "storage_open (sled_fault env) (n_storage nd) = (Some (), st1)"
    using storage_open_reliable [of "sled_fault env" "n_storage nd"] rel
    by (metis prod.collapse reliable_def reliable_db_def)
  have "blocks_tree st1 = blocks_tree (n_storage nd)"
    using storage_open_trees [of "sled_fault env" "n_storage nd"] st1 by simp
  from restart_chain [OF rel inv this] obtain nd' :: "'p node" where
    nd': "start_node env (la_network r) st1 = Inr nd'"
    "hm_get (block_store (n_dag nd')) = hm_get (block_store (n_dag nd))"
    "ghostdag_cache (n_dag nd') = ghostdag_cache (n_dag nd)"
    "select_canonical_tip (n_dag nd') = select_canonical_tip (n_dag nd)"
    "\<forall>t l. select_canonical_tip (n_dag nd) = Some t \<longrightarrow>
       recompute_ledger (sha3 env) (n_dag nd) t = Some (Inr l) \<longrightarrow> n_ledger nd' = l" by blast
  have "main_program cr env sur args v (n_storage nd) = (Running (r\<lparr>la_dials := ds, la_node := nd'\<rparr>), v')"
    using main_runs [OF mode st1 join2 nd'(1) [unfolded r(1)] key2] r by (cases r) simp
  with nd' v' v1 that show thesis by simp
qed

end
