(* ===== verification/Boot_Example.thy ===== *)
theory Boot_Example
  imports Boot_Facts Service_Examples
begin

text \<open>
  A first start on an empty disk and an empty database, with the concrete crates of
  \<open>Service_Examples\<close> and a swarm that always comes up.
\<close>

definition plain_swarm :: "(u8 list, string) swarm_library" where
  "plain_swarm =
     \<lparr>identities = \<lparr>id_decode = Some, id_encode = Some, id_generate = (\<lambda>i. [of_nat i])\<rparr>,
      swarm_set_up = (\<lambda>k. True), parse_multiaddr = Some, swarm_listen = (\<lambda>a. True),
      swarm_dial = (\<lambda>i a. True), rpc_bind = (\<lambda>a. True)\<rparr>"

definition plain_crates ::
  "(plain_json, u8 list, u8 list, u8 list, bytes32, u8 list, bytes32, u8 list, string) crates"
where
  "plain_crates =
     \<lparr>cr_wallet = plain_wallet, cr_keys = plain_keys, cr_config = plain_config, cr_swarm = plain_swarm\<rparr>"

lemma plain_crates_sels [simp]:
  "cr_wallet plain_crates = plain_wallet" "cr_keys plain_crates = plain_keys"
  "cr_swarm plain_crates = plain_swarm"
  by (simp_all add: plain_crates_def)

lemma plain_swarm_sels [simp]:
  "swarm_set_up plain_swarm = (\<lambda>k. True)" "parse_multiaddr plain_swarm = Some"
  "swarm_listen plain_swarm = (\<lambda>a. True)" "id_encode (identities plain_swarm) = Some"
  "id_decode (identities plain_swarm) = Some"
  by (simp_all add: plain_swarm_def)

lemma calm_network: "resolve_network_id (resolve_network_environment calm) = DEVNET_NETWORK_ID"
  by (simp add: calm_def resolve_network_environment_def to_ascii_lowercase_def resolve_network_id_def)

text \<open>On a calm disk a wallet is made wherever there is none.\<close>

lemma plain_creates:
  assumes "files w path = None"
  shows "\<exists>kp w'. load_or_create plain_wallet plain_keys sha calm path w = (Inr kp, w')"
  using assms
  by (simp add: load_or_create_def and_then_def path_exists_def draw_def store_key_pair_def password_def
      or_fail_def returns_def encrypt_def plain_wallet_def write_file_def set_private_permissions_def
      set_owner_only_def print_def)

lemma plain_first_start:
  obtains r :: "(u8 list, nat, u8 list, u8 list, nat) launched" and w where
    "main_program plain_crates ex_env calm [''velodag''] no_files storage_empty = (Running r, w)"
    "la_network r = DEVNET_NETWORK_ID"
proof -
  let ?st = "storage_empty\<lparr>db_ops := 4\<rparr>" and ?net = "resolve_network_environment calm"
  have mode: "run_mode_of [''velodag''] = RunNode []"
    by (simp add: run_mode_of_def arg_def cli_dial_targets_def List.map_filter_def)
  have st: "storage_open (sled_fault ex_env) storage_empty = (Some (), ?st)"
    by (simp add: storage_open_def expect_op_def db_op_def Let_def storage_empty_def)
  have "\<exists>key (w :: plain_json wallet_line world). load_or_create_identity (identities plain_swarm) calm ''node_identity.key'' no_files = (Inr key, w) \<and>
      files w ''miner_wallet.json'' = None"
    by (simp add: load_or_create_identity_def read_file_def new_identity_def and_then_def draw_def
        or_fail_def returns_def write_file_def)
  then obtain key and w0 :: "plain_json wallet_line world" where key:
    "load_or_create_identity (identities (cr_swarm plain_crates)) calm ''node_identity.key'' no_files = (Inr key, w0)"
    "files w0 ''miner_wallet.json'' = None" by auto
  obtain ds and w1 :: "plain_json wallet_line world" where join: "join_network plain_crates (sha3 ex_env) calm [] ?net no_files = (Inr (key, ds), w1)"
    and w1: "files w1 = files w0"
    by (rule join_runs [OF key(1), where sha = "sha3 ex_env" and cli = "[]" and name = ?net]) simp_all
  have "\<exists>nd :: nat node. start_node ex_env DEVNET_NETWORK_ID ?st = Inr nd"
    by (simp add: start_node_def start_fresh_def Let_def load_ledger_state_def load_block_def
        read_entry_def db_op_def storage_empty_def ex_genesis_hash base_node_def genesis_applies
        unwrapped_def save_block_def save_ghostdag_data_def save_ledger_state_def write_entry_def
        plain_bincode_def)
  then obtain nd :: "nat node" where nd: "start_node ex_env (resolve_network_id ?net) ?st = Inr nd"
    by (auto simp: calm_network)
  from plain_creates [of w1 "''miner_wallet.json''" "sha3 ex_env"] key(2) w1 obtain kp w2 where
    "load_or_create (cr_wallet plain_crates) (cr_keys plain_crates) (sha3 ex_env) calm ''miner_wallet.json'' w1
       = (Inr kp, w2)" by auto
  from main_runs [OF mode st join nd this] show thesis by (rule that) (simp add: calm_network)
qed

end
