(* ===== verification/Node_Gossip.thy ===== *)
theory Node_Gossip
  imports Node_Runs Node_Acceptance
begin

text \<open>
  Two nodes of one network.  They share the code, the digest and the codec, but each has its own
  database and clocks.  Nodes that hold the same blocks, ledger and target still do after one of
  them mines a block and the other receives it.
\<close>

section \<open>Another machine\<close>

definition elsewhere ::
  "('pk, 'sg) environment \<Rightarrow> faults \<Rightarrow> (nat \<Rightarrow> u64) \<Rightarrow> (nat \<Rightarrow> nat) \<Rightarrow> ('pk, 'sg) environment"
where
  "elsewhere env fault clock monotonic = env\<lparr>sled_fault := fault, wall_clock := clock, mono_clock := monotonic\<rparr>"

lemma elsewhere_sels [simp]:
  "sha3 (elsewhere env f w c) = sha3 env" "dili (elsewhere env f w c) = dili env"
  "bin (elsewhere env f w c) = bin env" "difficulty_mgr (elsewhere env f w c) = difficulty_mgr env"
  "sled_fault (elsewhere env f w c) = f" "wall_clock (elsewhere env f w c) = w"
  by (simp_all add: elsewhere_def)

lemma elsewhere_checks [simp]:
  "content_ok (elsewhere env f w c) = content_ok env"
  "block_sound (elsewhere env f w c) = block_sound env"
  "block_valid (elsewhere env f w c) = block_valid env"
  by (intro ext; simp add: content_ok_def block_sound_def block_valid_def)+

lemma elsewhere_inv [simp]: "node_inv (elsewhere env f w c) g nd = node_inv env g nd"
  by (simp add: node_inv_def)

section \<open>Nodes in step\<close>

definition in_step :: "'p node \<Rightarrow> 'p node \<Rightarrow> bool" where
  "in_step nd peer \<longleftrightarrow>
     hm_get (block_store (n_dag peer)) = hm_get (block_store (n_dag nd)) \<and>
     n_ledger peer = n_ledger nd \<and> n_target peer = n_target nd"

lemma in_step_blocks:
  assumes "in_step nd peer" and "node_inv env g nd" and "node_inv env g peer"
  shows "same_blocks (n_dag nd) (n_dag peer)"
proof -
  have "gd_k (n_dag nd) = gd_k (n_dag peer)"
    using assms(2,3) dag_reachable_k unfolding node_inv_def by metis
  then show ?thesis using assms(1) by (simp add: same_blocks_def in_step_def)
qed

text \<open>What both do after storing the same block.\<close>

lemma settle_in_step:
  assumes inv: "dag_inv (n_dag nd)" "dag_inv (n_dag peer)" and same: "same_blocks (n_dag nd) (n_dag peer)"
    and win: "0 < window_size (difficulty_mgr env)"
    and start: "n_ledger peer = n_ledger nd" "n_target peer = n_target nd"
    and call: "settle env h nd = (r, nd')" "settle (elsewhere env f w c) h peer = (r', peer')"
  shows "n_ledger peer' = n_ledger nd' \<and> n_target peer' = n_target nd'"
proof -
  define tip where "tip = (case select_canonical_tip (n_dag nd) of Some t \<Rightarrow> t | None \<Rightarrow> h)"
  have tip': "tip = (case select_canonical_tip (n_dag peer) of Some t \<Rightarrow> t | None \<Rightarrow> h)"
    using same_canonical_tip [OF inv same] by (simp add: tip_def)
  note order = same_order [OF inv same]
  have rec: "recompute_ledger (sha3 env) (n_dag peer) tip = recompute_ledger (sha3 env) (n_dag nd) tip"
    using order same_replay [OF same] by (simp add: recompute_ledger_def)
  have blocks: "canonical_block_order (n_dag peer) tip = canonical_block_order (n_dag nd) tip"
    using order same by (simp add: canonical_block_order_def same_blocks_def)
  obtain order where o: "get_linear_sort (n_dag nd) tip = Some order"
    using get_linear_sort_total [OF inv(1)] by blast
  then obtain replay bs where replay: "recompute_ledger (sha3 env) (n_dag nd) tip = Some replay"
    and bs: "canonical_block_order (n_dag nd) tip = Some bs"
    by (simp add: recompute_ledger_def canonical_block_order_def)
  note here = settle_result [OF inv(1) win tip_def call(1)]
  note there = settle_result [OF inv(2) _ tip' call(2), simplified, OF win]
  have "calculate_next_target (difficulty_mgr env) bs (n_target nd) = Some (n_target nd')"
    "calculate_next_target (difficulty_mgr env) bs (n_target nd) = Some (n_target peer')"
    using here(4) there(4) bs blocks start(2) by simp_all
  moreover have "n_ledger peer' = n_ledger nd'"
    using here(2,3) there(2,3) replay rec start(1) by (cases replay) simp_all
  ultimately show ?thesis by simp
qed

section \<open>The receiving side\<close>

text \<open>A node in step takes a block that extends its DAG, if no orphan waits for it.\<close>

lemma accept_settles:
  fixes peer :: "'p node"
  assumes rel: "reliable env" and ser: "ser_ledger (bin env) l \<noteq> None"
    and win: "0 < window_size (difficulty_mgr env)" and inv: "node_inv env g peer"
    and new: "hm_get (block_store (n_dag peer)) (calculate_hash (sha3 env) b) = None"
    and valid: "block_valid env (n_dag peer) b" and target: "difficulty_target (header b) = n_target peer"
    and drift: "timestamp (header b) \<le>
      saturating_add (wall_clock env (n_reads peer)) MAX_FUTURE_DRIFT_SECS"
    and ledger: "apply_block (sha3 env) (n_ledger peer) b = (Inr (), l)"
    and alone: "waiting_on (n_orphans peer) (calculate_hash (sha3 env) b) = None"
    and size: "dag_size peer + 1 < 2 ^ 32"
  obtains peer1 peer' where "validate env b source peer = (Inr (), peer')"
    "settle env (calculate_hash (sha3 env) b) peer1 = (Inr (), peer')"
    "n_dag peer1 = dag_insert (n_dag peer) (calculate_hash (sha3 env) b) b"
    "dag_inv (n_dag peer1)" "n_ledger peer1 = l" "n_target peer1 = n_target peer" "n_guard peer' = n_guard peer"
    "n_orphans peer' = n_orphans peer"
proof -
  let ?h = "calculate_hash (sha3 env) b"
  have db: "reliable_db (sled_fault env)" using rel by (simp add: reliable_def)
  obtain p2 where p2: "validate env b source peer =
      accept_block env (validate_and_ingest env (max_size (n_orphans peer))) b source p2"
    "n_dag p2 = n_dag peer" "n_ledger p2 = n_ledger peer" "n_target p2 = n_target peer"
    "n_orphans p2 = n_orphans peer" "n_guard p2 = n_guard peer"
    by (rule validate_passes [OF db inv new valid target drift, of source]) blast
  obtain bytes where "ser_ledger (bin env) l = Some bytes" using ser by blast
  then obtain st where sv: "save_ledger_state (sled_fault env) (bin env) l (n_storage p2) = (Inr (), st)"
    using save_ledger_reliable [OF db] by metis
  obtain h p3 where ing: "ingest_block_only env b (p2\<lparr>n_ledger := l, n_storage := st\<rparr>) = (h, p3)" by fastforce
  note fr = ingest_frame [OF ing]
  have p3: "n_dag p3 = dag_insert (n_dag peer) ?h b" "n_ledger p3 = l" "n_target p3 = n_target peer"
    "n_orphans p3 = n_orphans peer" using fr p2 by simp_all
  have guard: "n_guard p3 = n_guard peer" using ing p2(6) by (auto simp: ingest_block_only_def Let_def)
  have reach: "dag_reachable 3 (n_dag p3)" unfolding p3(1)
  proof (rule dag_reachable.insert)
    show "dag_reachable 3 (n_dag peer)" using inv by (simp add: node_inv_def)
    show "set (block_parents b) \<subseteq> dom (hm_get (block_store (n_dag peer)))"
      using valid by (simp add: block_valid_def block_sound_def)
  qed (use new size in \<open>simp_all add: dag_size_def\<close>)
  then have inv3: "dag_inv (n_dag p3)" by (rule dag_reachable_inv)
  obtain r p4 where se: "settle env ?h p3 = (r, p4)" by fastforce
  have r: "r = Inr ()" by (rule settle_returns [OF inv3 win se])
  have orph: "n_orphans p4 = n_orphans peer" using settle_frame(3) [OF se] p3(4) by simp
  then have none: "take_ready (n_orphans p4) ?h = ([], n_orphans p4)" using alone by (simp add: take_ready_def)
  have "accept_block env again b source p2 = (Inr (), p4)" for again
    using ledger sv ing fr(1) se r none by (simp add: accept_block_def p2(3))
  moreover have "n_guard p4 = n_guard peer"
    using se guard by (auto simp: settle_def Let_def split: option.splits sum.splits)
  ultimately show thesis
    using p2(1) se r p3 inv3 orph by (intro that [of p4 p3]) simp_all
qed

section \<open>The mining side\<close>

lemma store_mined_publishes:
  assumes "reliable env" and "ser_block (bin env) b = Some payload"
  shows "n_outbox (store_mined env h b nd) = n_outbox nd @ [PublishBlock payload]"
  using assms
  by (simp add: store_mined_def Let_def save_block_def write_entry_def db_op_def reliable_def reliable_db_def
      emit_def split: prod.split)

lemma settle_outbox: "settle env h nd = (r, nd') \<Longrightarrow> n_outbox nd' = n_outbox nd"
  by (auto simp: settle_def Let_def split: option.splits sum.splits)

lemma settle_reads: "settle env h nd = (r, nd') \<Longrightarrow> n_reads nd' = n_reads nd"
  by (auto simp: settle_def Let_def split: option.splits sum.splits)

text \<open>The block of a tick that mined one: valid, new, published, and settled in the miner's node.\<close>

lemma tick_mined:
  fixes nd nd' :: "'p node"
  assumes rel: "reliable env" and inv: "node_inv env g nd" and pool: "mempool_signed (dili env) (sha3 env) pool"
    and call: "mining_tick env g me nd pool = ((r, nd'), pool')" and changed: "n_history nd' \<noteq> n_history nd"
    and inj: "inj_on (sha3 env) (block_preimage ` set (n_history nd'))"
    and size: "dag_size nd + 1 < 2 ^ 32"
    and clock: "\<And>tip. hm_get (block_store (n_dag nd)) (mining_tip g (n_dag nd)) = Some tip \<Longrightarrow>
      timestamp (header tip) \<le> wall_clock env (n_reads nd)"
  obtains b payload nd1 where "block_valid env (n_dag nd) b" "difficulty_target (header b) = n_target nd"
    "timestamp (header b) = wall_clock env (n_reads nd)" "ser_block (bin env) b = Some payload"
    "hm_get (block_store (n_dag nd)) (calculate_hash (sha3 env) b) = None"
    "n_outbox nd' = n_outbox nd @ [PublishBlock payload]"
    "apply_block (sha3 env) (n_ledger nd) b = (Inr (), n_ledger nd1)"
    "settle env (calculate_hash (sha3 env) b) nd1 = (r, nd')" "n_target nd1 = n_target nd"
    "n_dag nd1 = dag_insert (n_dag nd) (calculate_hash (sha3 env) b) b" "node_inv env g nd'"
    "n_history nd' = n_history nd @ [b]" "n_reads nd' = Suc (n_reads nd)" "dag_size nd' = dag_size nd + 1"
  using call
proof (cases rule: mining_step)
  case idle
  then show thesis using changed by (simp add: same_store_def)
next
  case (mined nd1 nd2 txs b n)
  note after = mined_history [OF mined(10)]
  let ?h = "calculate_hash (sha3 env) b" and ?t = "mining_tip g (n_dag nd)"
  have d: "n_dag nd1 = n_dag nd" "n_history nd1 = n_history nd" "n_dag nd2 = n_dag nd"
    using mined(1,3) by (simp_all add: same_store_def)
  have inv1: "node_inv env g nd1" by (rule node_inv_store [OF mined(1) inv])
  have sound: "block_sound env (n_dag nd1) b"
    using template_sound [OF node_inv_store [OF mined(3) inv] pool mined(6,7)] mined(4,8,9) d by simp
  have par: "block_parents b = [mining_tip g (n_dag nd1)]" using mined(7) d by simp
  have "inj_on (sha3 env) (block_preimage ` insert b (set (n_history nd1)))"
    using inj by (simp add: after(1))
  note fresh = mined_fresh [OF inv1 par this]
  have "dag_size nd' < 2 ^ 32"
    using size fresh d(1) by (simp add: dag_size_def after(2) dag_insert_def length_hm_insert)
  note inv' = node_inv_add [OF rel inv1 sound refl fresh after(2,1,4) this]
  obtain tb where tb: "hm_get (block_store (n_dag nd)) ?t = Some tb"
    using mining_tip_stored(1) [OF inv] by blast
  have time: "timestamp (header b) = wall_clock env (n_reads nd)" using mined(7) by simp
  have "parent_times (n_dag nd) b = {timestamp (header tb)}"
    using par d(1) by (simp add: parent_times_def stored_block_def tb)
  then have valid: "block_valid env (n_dag nd) b"
    using sound clock [OF tb] time d(1) by (simp add: block_valid_def)
  obtain payload where ser: "ser_block (bin env) b = Some payload"
    using rel unfolding reliable_def block_codec_ok_def by blast
  have out: "n_outbox nd' = n_outbox nd @ [PublishBlock payload]"
    using settle_outbox [OF mined(10)] store_mined_publishes [OF rel ser, of ?h nd1] mined(13) by simp
  have ledger: "n_ledger (store_mined env ?h b nd1) = n_ledger nd1"
    by (auto simp: store_mined_def Let_def emit_def split: prod.split sum.split option.split)
  have "n_reads (store_mined env ?h b nd1) = n_reads nd1"
    by (auto simp: store_mined_def Let_def emit_def split: prod.split sum.split option.split)
  then have reads: "n_reads nd' = Suc (n_reads nd)" using settle_reads [OF mined(10)] mined(14) by simp
  have grown: "dag_size nd' = dag_size nd + 1"
    using fresh d(1) by (simp add: dag_size_def after(2) dag_insert_def length_hm_insert)
  show thesis
  proof (rule that [of b payload "store_mined env ?h b nd1"])
    show "difficulty_target (header b) = n_target nd" using mined(4,7) by simp
    show "apply_block (sha3 env) (n_ledger nd) b = (Inr (), n_ledger (store_mined env ?h b nd1))"
      using mined(11) ledger by simp
    show "n_target (store_mined env ?h b nd1) = n_target nd"
      using mined(12) by (auto simp: store_mined_def Let_def emit_def split: prod.split sum.split option.split)
    show "n_dag (store_mined env ?h b nd1) = dag_insert (n_dag nd) ?h b"
      using d(1) by (simp add: store_mined_frame)
  qed (use valid time ser fresh d out mined(10) inv' after(1) reads grown in simp_all)
qed

section \<open>Together\<close>

text \<open>The other node takes the mined block and is in step again.\<close>

lemma block_taken:
  fixes nd nd' peer :: "'p node"
  assumes rel: "reliable (elsewhere env f w c)" and led: "\<And>l. ser_ledger (bin env) l \<noteq> None"
    and win: "0 < window_size (difficulty_mgr env)"
    and inv: "node_inv env g nd" "node_inv env g peer" and step: "in_step nd peer"
    and size: "dag_size nd + 1 < 2 ^ 32"
    and b: "block_valid env (n_dag nd) b" "difficulty_target (header b) = n_target nd"
      "hm_get (block_store (n_dag nd)) (calculate_hash (sha3 env) b) = None"
    and ap: "apply_block (sha3 env) (n_ledger nd) b = (Inr (), n_ledger nd1)"
    and se: "settle env (calculate_hash (sha3 env) b) nd1 = (r, nd')" "n_target nd1 = n_target nd"
      "n_dag nd1 = dag_insert (n_dag nd) (calculate_hash (sha3 env) b) b" and inv': "node_inv env g nd'"
    and alone: "waiting_on (n_orphans peer) (calculate_hash (sha3 env) b) = None"
    and drift: "timestamp (header b) \<le> saturating_add (w (n_reads peer)) MAX_FUTURE_DRIFT_SECS"
  obtains peer' where "validate (elsewhere env f w c) b (Some source) peer = (Inr (), peer')"
    "in_step nd' peer'" "n_guard peer' = n_guard peer" "n_orphans peer' = n_orphans peer" "dag_inv (n_dag peer')"
proof -
  let ?E = "elsewhere env f w c" and ?h = "calculate_hash (sha3 env) b"
  have get: "hm_get (block_store (n_dag peer)) = hm_get (block_store (n_dag nd))"
    and here: "n_ledger peer = n_ledger nd" "n_target peer = n_target nd" using step by (simp_all add: in_step_def)
  have times: "parent_times (n_dag peer) b = parent_times (n_dag nd) b"
    using get by (simp add: parent_times_def stored_block_def)
  have valid: "block_valid ?E (n_dag peer) b"
    using b(1) block_sound_get [OF get, of env b] times by (simp add: block_valid_def)
  have sized: "dag_size peer + 1 < 2 ^ 32"
    using size store_length [OF node_inv_dag [OF inv(1)]] store_length [OF node_inv_dag [OF inv(2)]] get
    by (simp add: dag_size_def)
  obtain peer1 peer' where v: "validate ?E b (Some source) peer = (Inr (), peer')"
    "settle ?E ?h peer1 = (Inr (), peer')" "n_dag peer1 = dag_insert (n_dag peer) ?h b"
    "dag_inv (n_dag peer1)" "n_ledger peer1 = n_ledger nd1" "n_target peer1 = n_target peer"
    "n_guard peer' = n_guard peer" "n_orphans peer' = n_orphans peer"
    using accept_settles [of ?E "n_ledger nd1" g peer b "Some source"] rel led win inv(2) valid
      b(2,3) here get ap alone drift sized
    by (simp only: elsewhere_sels elsewhere_inv) metis
  have same1: "same_blocks (n_dag nd1) (n_dag peer1)"
    using in_step_blocks [OF step inv] unfolding se(3) v(3) by (auto simp: same_blocks_def)
  have "dag_inv (n_dag nd1)"
    using node_inv_dag [OF inv'] settle_frame(1) [OF se(1)] by simp
  from settle_in_step [OF this v(4) same1 win v(5) _ se(1) v(2)] v(6) se(2) here(2)
  have "n_ledger peer' = n_ledger nd' \<and> n_target peer' = n_target nd'" by simp
  moreover have "hm_get (block_store (n_dag peer')) = hm_get (block_store (n_dag nd'))"
    using settle_frame(1) [OF se(1)] settle_frame(1) [OF v(2)] same1 by (simp add: same_blocks_def)
  ultimately have "in_step nd' peer'" by (simp add: in_step_def)
  moreover have "dag_inv (n_dag peer')" using v(4) settle_frame(1) [OF v(2)] by simp
  ultimately show thesis by (intro that [OF v(1) _ v(7,8)])
qed

lemma gossip_in_step:
  fixes nd nd' peer :: "'p node"
  assumes rel: "reliable env" "reliable (elsewhere env f w c)"
    and led: "\<And>l. ser_ledger (bin env) l \<noteq> None" and win: "0 < window_size (difficulty_mgr env)"
    and inv: "node_inv env g nd" "node_inv env g peer" and step: "in_step nd peer"
    and pool: "mempool_signed (dili env) (sha3 env) pool"
    and call: "mining_tick env g me nd pool = ((r, nd'), pool')" and changed: "n_history nd' \<noteq> n_history nd"
    and inj: "inj_on (sha3 env) (block_preimage ` set (n_history nd'))"
    and size: "dag_size nd + 1 < 2 ^ 32"
    and alone: "\<And>h. waiting_on (n_orphans peer) h = None"
    and clock: "\<And>tip. hm_get (block_store (n_dag nd)) (mining_tip g (n_dag nd)) = Some tip \<Longrightarrow>
      timestamp (header tip) \<le> wall_clock env (n_reads nd)"
    and drift: "wall_clock env (n_reads nd) \<le> saturating_add (w (n_reads peer)) MAX_FUTURE_DRIFT_SECS"
  shows "\<exists>b payload peer'. n_history nd' = n_history nd @ [b] \<and> ser_block (bin env) b = Some payload \<and>
    n_outbox nd' = n_outbox nd @ [PublishBlock payload] \<and>
    (length payload \<le> MAX_GOSSIP_MESSAGE_BYTES \<longrightarrow>
       handle_p2p_events (elsewhere env f w c) gh net
         (Gossip_Message source \<lparr>gm_topic = GOSSIP_TOPIC, gm_data = payload\<rparr>) peer = (Inr (), peer') \<and>
       in_step nd' peer' \<and> n_guard peer' = n_guard peer)"
proof -
  let ?E = "elsewhere env f w c"
  obtain b payload nd1 where b: "block_valid env (n_dag nd) b" "difficulty_target (header b) = n_target nd"
    "hm_get (block_store (n_dag nd)) (calculate_hash (sha3 env) b) = None"
    and time: "timestamp (header b) = wall_clock env (n_reads nd)" and ser: "ser_block (bin env) b = Some payload"
    and out: "n_outbox nd' = n_outbox nd @ [PublishBlock payload]"
    and ap: "apply_block (sha3 env) (n_ledger nd) b = (Inr (), n_ledger nd1)"
    and se: "settle env (calculate_hash (sha3 env) b) nd1 = (r, nd')" "n_target nd1 = n_target nd"
      "n_dag nd1 = dag_insert (n_dag nd) (calculate_hash (sha3 env) b) b" and inv': "node_inv env g nd'"
    and hist: "n_history nd' = n_history nd @ [b]"
    by (rule tick_mined [OF rel(1) inv(1) pool call changed inj size clock]) blast
  obtain peer' where v: "validate ?E b (Some source) peer = (Inr (), peer')"
    "in_step nd' peer'" "n_guard peer' = n_guard peer"
    by (rule block_taken [OF rel(2) led win inv step size b ap se inv' alone, of source]) (use time drift in simp_all)
  have "de_block (bin env) payload = Some b"
    using rel(1) ser unfolding reliable_def block_codec_ok_def by (metis option.inject)
  then have "handle_p2p_events ?E gh net
      (Gossip_Message source \<lparr>gm_topic = GOSSIP_TOPIC, gm_data = payload\<rparr>) peer = (Inr (), peer')"
    if "length payload \<le> MAX_GOSSIP_MESSAGE_BYTES"
    using that v(1) by (simp add: handle_p2p_events_def handle_gossip_block_def)
  with v hist ser out show ?thesis by blast
qed

end
