(* ===== verification/Node_Sync.thy ===== *)
theory Node_Sync
  imports Node_Gossip
begin

text \<open>
  Catching up: a node in step with an earlier state of a miner receives, in one sync response,
  what the miner has mined since, and is in step with it.
\<close>

section \<open>A miner's ticks\<close>

definition tick_with ::
  "('pk, 'sg) environment \<Rightarrow> bytes32 \<Rightarrow> address \<Rightarrow> 'p node \<Rightarrow> mempool \<Rightarrow> 'p node"
where
  "tick_with env g me nd pool = snd (fst (mining_tick env g me nd pool))"

abbreviation ticks ::
  "('pk, 'sg) environment \<Rightarrow> bytes32 \<Rightarrow> address \<Rightarrow> 'p node \<Rightarrow> mempool list \<Rightarrow> 'p node"
where
  "ticks env g me \<equiv> foldl (tick_with env g me)"

lemma tick_history:
  "\<exists>bs. n_history (tick_with env g me nd pool) = n_history nd @ bs \<and> length bs \<le> 1"
proof -
  obtain r nd' pool' where call: "mining_tick env g me nd pool = ((r, nd'), pool')" by (metis prod.collapse)
  then show ?thesis
  proof (cases rule: mining_step)
    case idle
    then show ?thesis using call by (intro exI [of _ "[]"]) (simp add: tick_with_def same_store_def)
  next
    case (mined nd1 nd2 txs b n)
    then show ?thesis using mined_history(1) [OF mined(10)] call
      by (intro exI [of _ "[b]"]) (simp add: tick_with_def same_store_def)
  qed
qed

lemma ticks_history: "\<exists>bs. n_history (ticks env g me nd pools) = n_history nd @ bs \<and> length bs \<le> length pools"
proof (induction pools rule: rev_induct)
  case (snoc pool pools)
  then obtain bs where bs: "n_history (ticks env g me nd pools) = n_history nd @ bs" "length bs \<le> length pools"
    by blast
  obtain cs where "n_history (ticks env g me nd (pools @ [pool])) = n_history (ticks env g me nd pools) @ cs"
    "length cs \<le> 1" using tick_history [of env g me "ticks env g me nd pools" pool] by auto
  with bs show ?case by (intro exI [of _ "bs @ cs"]) simp
qed simp

section \<open>The follower\<close>

lemma sync_blocks_snoc:
  "sync_blocks env p bs nd = (Inr (), nd1) \<Longrightarrow> validate env b (Some p) nd1 = (Inr (), nd2) \<Longrightarrow>
     sync_blocks env p (bs @ [b]) nd = (Inr (), nd2)"
  by (induction bs arbitrary: nd) (auto split: prod.splits sum.splits)

lemma in_step_size:
  "in_step nd peer \<Longrightarrow> node_inv env g nd \<Longrightarrow> dag_inv (n_dag peer) \<Longrightarrow> dag_size peer = dag_size nd"
  using store_length [of "n_dag peer"] store_length [OF node_inv_dag, of env g nd]
  by (simp add: dag_size_def in_step_def)

definition up_to_date :: "('pk, 'sg) environment \<Rightarrow> 'p node \<Rightarrow> bool" where
  "up_to_date env nd \<longleftrightarrow> (\<forall>b \<in> set (n_history nd). timestamp (header b) \<le> wall_clock env (n_reads nd))"

lemma history_is_store: "node_inv env g nd \<Longrightarrow> n_history nd = map snd (block_store (n_dag nd))"
  unfolding node_inv_def by blast

lemma stored_in_history:
  assumes "node_inv env g nd" and "hm_get (block_store (n_dag nd)) h = Some b"
  shows "b \<in> set (n_history nd)"
  using imageI [OF hm_get_mem [OF assms(2)], of snd] by (simp add: history_is_store [OF assms(1)])

lemma follower_keeps_up:
  fixes nd peer :: "'p node"
  assumes rel: "reliable env" "reliable (elsewhere env f w c)"
    and led: "\<And>l. ser_ledger (bin env) l \<noteq> None" and win: "0 < window_size (difficulty_mgr env)"
    and inv: "node_inv env g nd" and old: "guarded (node_sound (elsewhere env f w c) g) peer"
    and step: "in_step nd peer" and clock: "up_to_date env nd" "mono (wall_clock env)"
    and alone: "\<And>h. waiting_on (n_orphans peer) h = None"
    and peer_inv: "node_inv env g peer"
  shows "list_all (mempool_signed (dili env) (sha3 env)) pools \<Longrightarrow>
    n_history (ticks env g me nd pools) = n_history nd @ bs \<Longrightarrow> length bs = length pools \<Longrightarrow>
    inj_on (sha3 env) (block_preimage ` set (n_history (ticks env g me nd pools))) \<Longrightarrow>
    dag_size nd + length pools < 2 ^ 32 \<Longrightarrow>
    \<forall>b \<in> set bs. \<forall>k. timestamp (header b) \<le> saturating_add (w k) MAX_FUTURE_DRIFT_SECS \<Longrightarrow>
    \<exists>peer'. sync_blocks (elsewhere env f w c) source bs peer = (Inr (), peer') \<and>
      in_step (ticks env g me nd pools) peer' \<and> n_guard peer' = n_guard peer \<and> n_orphans peer' = n_orphans peer \<and>
      node_inv env g (ticks env g me nd pools) \<and> node_inv env g peer' \<and>
      guarded (node_sound (elsewhere env f w c) g) peer' \<and>
      dag_size (ticks env g me nd pools) = dag_size nd + length pools \<and> up_to_date env (ticks env g me nd pools)"
proof (induction pools arbitrary: bs rule: rev_induct)
  case Nil
  then show ?case using step inv old peer_inv clock by simp
next
  case (snoc pool pools)
  let ?E = "elsewhere env f w c"
  define nd1 where "nd1 = ticks env g me nd pools"
  define nd2 where "nd2 = tick_with env g me nd1 pool"
  have last: "ticks env g me nd (pools @ [pool]) = nd2" by (simp add: nd2_def nd1_def)
  obtain bs1 where bs1: "n_history nd1 = n_history nd @ bs1" "length bs1 \<le> length pools"
    using ticks_history [of env g me nd pools] by (auto simp: nd1_def)
  obtain cs where cs: "n_history nd2 = n_history nd1 @ cs" "length cs \<le> 1"
    using tick_history [of env g me nd1 pool] by (auto simp: nd2_def)
  have split: "bs = bs1 @ cs" using snoc.prems(2) [unfolded last] bs1(1) cs(1) by simp
  then have len: "length bs1 = length pools" "length cs = 1" using snoc.prems(3) bs1(2) cs(2) by auto
  have sub: "set (n_history nd1) \<subseteq> set (n_history nd2)" using cs(1) by simp
  have inj1: "inj_on (sha3 env) (block_preimage ` set (n_history nd1))"
    by (rule inj_on_subset [OF snoc.prems(4) [unfolded last] image_mono [OF sub]])
  obtain peer1 where p1: "sync_blocks ?E source bs1 peer = (Inr (), peer1)" "in_step nd1 peer1"
    "n_guard peer1 = n_guard peer" "n_orphans peer1 = n_orphans peer" "node_inv env g nd1"
    "node_inv env g peer1" "guarded (node_sound ?E g) peer1" "dag_size nd1 = dag_size nd + length pools"
    "up_to_date env nd1"
    using snoc.IH [of bs1] snoc.prems(1,5,6) bs1(1) len(1) inj1 split by (auto simp: nd1_def)
  obtain r pool' where call: "mining_tick env g me nd1 pool = ((r, nd2), pool')"
    by (metis nd2_def prod.collapse tick_with_def)
  have changed: "n_history nd2 \<noteq> n_history nd1" using cs len(2) by auto
  have size: "dag_size nd1 + 1 < 2 ^ 32" using p1(8) snoc.prems(5) by simp
  have signed: "mempool_signed (dili env) (sha3 env) pool" using snoc.prems(1) by simp
  have tip: "timestamp (header tb) \<le> wall_clock env (n_reads nd1)"
    if "hm_get (block_store (n_dag nd1)) (mining_tip g (n_dag nd1)) = Some tb" for tb
    using p1(9) stored_in_history [OF p1(5) that] by (simp add: up_to_date_def)
  obtain b payload n1 where b: "block_valid env (n_dag nd1) b" "difficulty_target (header b) = n_target nd1"
    "timestamp (header b) = wall_clock env (n_reads nd1)"
    "hm_get (block_store (n_dag nd1)) (calculate_hash (sha3 env) b) = None"
    and ap: "apply_block (sha3 env) (n_ledger nd1) b = (Inr (), n_ledger n1)"
    and se: "settle env (calculate_hash (sha3 env) b) n1 = (r, nd2)" "n_target n1 = n_target nd1"
      "n_dag n1 = dag_insert (n_dag nd1) (calculate_hash (sha3 env) b) b" and inv2: "node_inv env g nd2"
    and hist: "n_history nd2 = n_history nd1 @ [b]" and reads: "n_reads nd2 = Suc (n_reads nd1)"
    and grown: "dag_size nd2 = dag_size nd1 + 1"
    by (rule tick_mined [OF rel(1) p1(5) signed call changed snoc.prems(4) [unfolded last] size tip]) blast
  have bs: "bs = bs1 @ [b]" using split cs(1) hist by simp
  have waits: "waiting_on (n_orphans peer1) (calculate_hash (sha3 env) b) = None" using alone p1(4) by simp
  have drift: "timestamp (header b) \<le> saturating_add (w (n_reads peer1)) MAX_FUTURE_DRIFT_SECS"
    using snoc.prems(6) bs by simp
  obtain peer2 where p2: "validate ?E b (Some source) peer1 = (Inr (), peer2)" "in_step nd2 peer2"
    "n_guard peer2 = n_guard peer1" "n_orphans peer2 = n_orphans peer1" "dag_inv (n_dag peer2)"
    by (rule block_taken [OF rel(2) led win p1(5,6,2) size b(1,2,4) ap se inv2 waits drift])
  have guard2: "guarded (node_sound ?E g) peer2" by (rule sound_chain.validate_guarded [OF p2(1) p1(7)])
  have "dag_size peer2 < 2 ^ 32" using in_step_size [OF p2(2) inv2 p2(5)] grown size by simp
  then have peer2: "node_inv env g peer2"
    using guard2 rel(2) by (simp add: guarded_def node_sound_def)
  have times: "up_to_date env nd2" unfolding up_to_date_def
  proof
    fix x assume "x \<in> set (n_history nd2)"
    then have "timestamp (header x) \<le> wall_clock env (n_reads nd1)"
      using p1(9) b(3) by (auto simp: hist up_to_date_def)
    also have "\<dots> \<le> wall_clock env (n_reads nd2)" by (rule monoD [OF clock(2)]) (simp add: reads)
    finally show "timestamp (header x) \<le> wall_clock env (n_reads nd2)" .
  qed
  have "sync_blocks ?E source bs peer = (Inr (), peer2)"
    unfolding bs by (rule sync_blocks_snoc [OF p1(1) p2(1)])
  moreover have "dag_size nd2 = dag_size nd + length (pools @ [pool])" using grown p1(8) by simp
  ultimately show ?case unfolding last
    using p2 p1(3,4) inv2 peer2 guard2 times by auto
qed

section \<open>One answer\<close>

lemma foldl_max: "(m :: u64) \<le> foldl max m hs \<and> (\<forall>h \<in> set hs. h \<le> foldl max m hs)"
proof (induction hs arbitrary: m)
  case (Cons x hs)
  then have "max m x \<le> foldl max (max m x) hs" by blast
  then show ?case using Cons [of "max m x"] by auto
qed simp

lemma highest_ge: "b \<in> set bs \<Longrightarrow> block_height b \<le> highest bs"
  using foldl_max by (cases bs) (auto simp: highest_def)

lemma in_step_history:
  assumes "in_step nd peer" and "node_inv env g nd" and "node_inv env g peer"
  shows "set (n_history nd) \<subseteq> set (n_history peer)"
proof
  fix b assume "b \<in> set (n_history nd)"
  then obtain h where "(h, b) \<in> set (block_store (n_dag nd))" using assms(2) by (auto simp: history_is_store)
  with dag_inv_simps(7) [OF node_inv_dag [OF assms(2)]]
  have "hm_get (block_store (n_dag nd)) h = Some b" by (rule hm_mem_get)
  then show "b \<in> set (n_history peer)"
    using stored_in_history [OF assms(3), of h b] assms(1) by (simp add: in_step_def)
qed

text \<open>The answer to a node in step with an earlier state is what came since, if that is higher.\<close>

lemma answer_is_news:
  assumes "in_step nd peer" and "node_inv env g nd" and "node_inv env g peer"
    and "\<forall>b \<in> set bs. highest (n_history peer) < block_height b" and "length bs \<le> 500"
  shows "build_sync_response
      \<lparr>rq_network_id = i, rq_genesis_hash = gh, rq_since_height = highest (n_history peer)\<rparr> gh
      (n_history nd @ bs) i = Blocks bs"
proof -
  have "\<not> highest (n_history peer) < block_height b" if "b \<in> set (n_history nd)" for b
    using highest_ge [of b "n_history peer"] in_step_history [OF assms(1-3)] that by (auto simp: not_less)
  then have "filter (\<lambda>b. highest (n_history peer) < block_height b) (n_history nd @ bs) = bs"
    using assms(4) by (simp add: filter_empty_conv)
  then show ?thesis using assms(5) by (simp add: build_sync_response_def MAX_SYNC_BLOCKS_def)
qed

text \<open>Blocks beside the known ones are not answered at all.\<close>

lemma side_blocks_not_answered:
  assumes "\<forall>b \<in> set history. block_height b \<le> rq_since_height request"
  shows "build_sync_response request gh history net \<in> {GenesisMismatch, Blocks []}"
  using assms by (auto simp: build_sync_response_def filter_empty_conv not_less)

end
