(* ===== verification/Gossip_Example.thy ===== *)
theory Gossip_Example
  imports Node_Sync Progress_Example
begin

text \<open>A second machine whose clock is twenty seconds behind, on which the example node runs too.\<close>

definition slow_env :: "(u8 list, u8 list) environment" where
  "slow_env = elsewhere ex_env (\<lambda>n. False) (\<lambda>n. 1699999980) (\<lambda>n. 5)"

lemma slow_env_reliable: "reliable slow_env"
  using ex_env_reliable by (simp add: slow_env_def reliable_def)

text \<open>A start does not read the clocks.\<close>

lemma fresh_elsewhere: "start_fresh (elsewhere env (sled_fault env) w c) = start_fresh env"
  unfolding start_fresh_def [abs_def] elsewhere_sels ..

lemma resume_elsewhere: "resume_ledger (elsewhere env (sled_fault env) w c) = resume_ledger env"
  unfolding resume_ledger_def [abs_def] elsewhere_sels ..

lemma resumed_elsewhere: "start_resumed (elsewhere env (sled_fault env) w c) = start_resumed env"
  unfolding start_resumed_def [abs_def] elsewhere_sels resume_elsewhere ..

lemma start_elsewhere: "start_node (elsewhere env (sled_fault env) w c) i st = start_node env i st"
  unfolding start_node_def elsewhere_sels fresh_elsewhere resumed_elsewhere ..

lemma ex_node_run_slow:
  "node_run slow_env ex_codec None DEVNET_NETWORK_ID (fill 3) mining None [] ex_node mempool_new"
proof (rule node_run.start)
  show "start_node slow_env DEVNET_NETWORK_ID storage_empty = Inr ex_node"
    unfolding slow_env_def start_elsewhere [of ex_env, unfolded ex_env_sels] by (rule ex_node_start)
qed (simp add: storage_empty_def)

lemma ex_two_blocks_inj:
  assumes "extends_tip (fill 0) 0 b"
  shows "inj_on height_digest (block_preimage ` set [ex_genesis, b])"
proof -
  have "calculate_hash height_digest b = fill 1" using extends_height_digest [OF assms] by simp
  moreover have "calculate_hash height_digest ex_genesis = fill 0" by (simp add: height_digest_block)
  ultimately show ?thesis by (auto simp: inj_on_def calculate_hash_def)
qed

lemma ex_payload_size:
  assumes "ser_block plain_bincode b = Some payload" and "transactions b = []" and "block_parents b = [x]"
  shows "length payload \<le> MAX_GOSSIP_MESSAGE_BYTES"
  using assms
  by (auto simp: plain_bincode_def enc_block_def enc_header_def enc_pair_def enc_list_def block_fields_def
      header_fields_def MAX_GOSSIP_MESSAGE_BYTES_def)

lemma ex_tick_time:
  assumes "mining_tick ex_env (fill 0) (fill 3) ex_node mempool_new = ((Inr (), nd), mempool_new)"
    and "n_history nd = [ex_genesis, b]"
  shows "timestamp (header b) = 1700000000"
  using assms(1)
proof (cases rule: mining_step)
  case idle
  then show ?thesis using assms(2) by (simp add: same_store_def ex_node_shape)
next
  case (mined nd1 nd2 txs b' n)
  have "n_history nd1 = [ex_genesis]" using mined(1) by (simp add: same_store_def ex_node_shape)
  then have "b = b'" using mined_history(1) [OF mined(10)] assms(2) by simp
  then show ?thesis using mined(7) by simp
qed

end
