(* ===== verification/Sha3.thy ===== *)
theory Sha3
  imports Bytes32
begin

text \<open>
  SHA3-256 as FIPS 202 defines it.  The crate that computes it is third-party, so every
  definition of the development takes the digest as an argument; this theory gives the argument
  a concrete value, the standard's function, on which the published test vectors of the
  repository are evaluated.

  A lane is its list of 64 bits, least significant first; the state is five planes of five
  lanes.  The collection \<open>sha3_eval\<close> holds the equations that compute a digest by rewriting.
\<close>

named_theorems sha3_eval \<open>equations that evaluate SHA3-256 on literal bytes\<close>

type_synonym lane = "bool list"

datatype plane = Plane lane lane lane lane lane

datatype keccak = Keccak plane plane plane plane plane

section \<open>Operations on lanes\<close>

fun xor_lane :: "lane \<Rightarrow> lane \<Rightarrow> lane" where
  "xor_lane (False # xs) (y # ys) = y # xor_lane xs ys"
| "xor_lane (True # xs) (True # ys) = False # xor_lane xs ys"
| "xor_lane (True # xs) (False # ys) = True # xor_lane xs ys"
| "xor_lane _ _ = []"

text \<open>Bitwise \<open>a XOR (NOT b AND c)\<close>.\<close>

fun chi_lane :: "lane \<Rightarrow> lane \<Rightarrow> lane \<Rightarrow> lane" where
  "chi_lane (a # as) (True # bs) (c # cs) = a # chi_lane as bs cs"
| "chi_lane (a # as) (False # bs) (False # cs) = a # chi_lane as bs cs"
| "chi_lane (True # as) (False # bs) (True # cs) = False # chi_lane as bs cs"
| "chi_lane (False # as) (False # bs) (True # cs) = True # chi_lane as bs cs"
| "chi_lane _ _ _ = []"

text \<open>Rotation towards the most significant bit.\<close>

definition rot :: "nat \<Rightarrow> lane \<Rightarrow> lane" where
  "rot n xs = drop (64 - n) xs @ take (64 - n) xs"

lemma xor_lane_map2: "xor_lane xs ys = map2 (\<noteq>) xs ys"
  by (induction xs ys rule: xor_lane.induct) auto

lemma length_xor_lane [simp]: "length (xor_lane xs ys) = min (length xs) (length ys)"
  by (simp add: xor_lane_map2)

lemma length_chi_lane [simp]:
  "length (chi_lane as bs cs) = min (length as) (min (length bs) (length cs))"
  by (induction as bs cs rule: chi_lane.induct) auto

lemma length_rot [simp]: "length (rot n xs) = length xs"
  by (simp add: rot_def)

section \<open>The permutation\<close>

fun xor_plane :: "plane \<Rightarrow> plane \<Rightarrow> plane" where
  "xor_plane (Plane a b c d e) (Plane a' b' c' d' e') =
     Plane (xor_lane a a') (xor_lane b b') (xor_lane c c') (xor_lane d d') (xor_lane e e')"

fun theta_effect :: "plane \<Rightarrow> plane" where
  "theta_effect (Plane c0 c1 c2 c3 c4) =
     Plane (xor_lane c4 (rot 1 c1)) (xor_lane c0 (rot 1 c2)) (xor_lane c1 (rot 1 c3))
       (xor_lane c2 (rot 1 c4)) (xor_lane c3 (rot 1 c0))"

fun xor_all :: "plane \<Rightarrow> keccak \<Rightarrow> keccak" where
  "xor_all d (Keccak p0 p1 p2 p3 p4) =
     Keccak (xor_plane p0 d) (xor_plane p1 d) (xor_plane p2 d) (xor_plane p3 d) (xor_plane p4 d)"

fun column_parity :: "keccak \<Rightarrow> plane" where
  "column_parity (Keccak p0 p1 p2 p3 p4) =
     xor_plane p0 (xor_plane p1 (xor_plane p2 (xor_plane p3 p4)))"

definition theta :: "keccak \<Rightarrow> keccak" where
  "theta s = xor_all (theta_effect (column_parity s)) s"

fun rho_pi :: "keccak \<Rightarrow> keccak" where
  "rho_pi (Keccak (Plane a00 a10 a20 a30 a40) (Plane a01 a11 a21 a31 a41)
      (Plane a02 a12 a22 a32 a42) (Plane a03 a13 a23 a33 a43) (Plane a04 a14 a24 a34 a44)) =
    Keccak
      (Plane a00 (rot 44 a11) (rot 43 a22) (rot 21 a33) (rot 14 a44))
      (Plane (rot 28 a30) (rot 20 a41) (rot 3 a02) (rot 45 a13) (rot 61 a24))
      (Plane (rot 1 a10) (rot 6 a21) (rot 25 a32) (rot 8 a43) (rot 18 a04))
      (Plane (rot 27 a40) (rot 36 a01) (rot 10 a12) (rot 15 a23) (rot 56 a34))
      (Plane (rot 62 a20) (rot 55 a31) (rot 39 a42) (rot 41 a03) (rot 2 a14))"

fun chi_plane :: "plane \<Rightarrow> plane" where
  "chi_plane (Plane a b c d e) =
     Plane (chi_lane a b c) (chi_lane b c d) (chi_lane c d e) (chi_lane d e a) (chi_lane e a b)"

fun chi :: "keccak \<Rightarrow> keccak" where
  "chi (Keccak p0 p1 p2 p3 p4) =
     Keccak (chi_plane p0) (chi_plane p1) (chi_plane p2) (chi_plane p3) (chi_plane p4)"

fun iota :: "lane \<Rightarrow> keccak \<Rightarrow> keccak" where
  "iota rc (Keccak (Plane a b c d e) p1 p2 p3 p4) =
     Keccak (Plane (xor_lane a rc) b c d e) p1 p2 p3 p4"

definition keccak_round :: "lane \<Rightarrow> keccak \<Rightarrow> keccak" where
  "keccak_round rc s = iota rc (chi (rho_pi (theta s)))"

definition lane_of :: "u64 \<Rightarrow> lane" where
  "lane_of w = map (bit w) [0..<64]"

definition round_constants :: "lane list" where
  "round_constants = map lane_of
     [0x1, 0x8082, 0x800000000000808a, 0x8000000080008000, 0x808b, 0x80000001,
      0x8000000080008081, 0x8000000000008009, 0x8a, 0x88, 0x80008009, 0x8000000a,
      0x8000808b, 0x800000000000008b, 0x8000000000008089, 0x8000000000008003,
      0x8000000000008002, 0x8000000000000080, 0x800a, 0x800000008000000a,
      0x8000000080008081, 0x8000000000008080, 0x80000001, 0x8000000080008008]"

definition keccak_f :: "keccak \<Rightarrow> keccak" where
  "keccak_f s = fold keccak_round round_constants s"

section \<open>The sponge\<close>

definition byte_bits :: "u8 \<Rightarrow> bool list" where
  "byte_bits b = map (bit b) [0..<8]"

definition byte_of_bits :: "bool list \<Rightarrow> u8" where
  "byte_of_bits bs = horner_sum of_bool 2 bs"

text \<open>The padding: the domain bits and the final bit, at a rate of 136 bytes.\<close>

definition sha3_padding :: "nat \<Rightarrow> u8 list" where
  "sha3_padding n =
     (let gap = 136 - n mod 136
      in if gap = 1 then [0x86] else 0x06 # replicate (gap - 2) 0 @ [0x80])"

fun byte_lanes :: "u8 list \<Rightarrow> lane list" where
  "byte_lanes (a # b # c # d # e # f # g # h # bs) =
     (byte_bits a @ byte_bits b @ byte_bits c @ byte_bits d @ byte_bits e @ byte_bits f @
      byte_bits g @ byte_bits h) # byte_lanes bs"
| "byte_lanes _ = []"

definition zero_lane :: lane where
  "zero_lane = replicate 64 False"

text \<open>A block of 17 lanes, as the state that is added to the sponge.\<close>

fun rate_blocks :: "lane list \<Rightarrow> keccak list" where
  "rate_blocks (l0 # l1 # l2 # l3 # l4 # l5 # l6 # l7 # l8 # l9 # l10 # l11 # l12 # l13 # l14 #
      l15 # l16 # ls) =
     Keccak (Plane l0 l1 l2 l3 l4) (Plane l5 l6 l7 l8 l9) (Plane l10 l11 l12 l13 l14)
       (Plane l15 l16 zero_lane zero_lane zero_lane)
       (Plane zero_lane zero_lane zero_lane zero_lane zero_lane) # rate_blocks ls"
| "rate_blocks _ = []"

fun xor_state :: "keccak \<Rightarrow> keccak \<Rightarrow> keccak" where
  "xor_state (Keccak p0 p1 p2 p3 p4) (Keccak q0 q1 q2 q3 q4) =
     Keccak (xor_plane p0 q0) (xor_plane p1 q1) (xor_plane p2 q2) (xor_plane p3 q3)
       (xor_plane p4 q4)"

definition absorb :: "keccak \<Rightarrow> keccak \<Rightarrow> keccak" where
  "absorb blk s = keccak_f (xor_state s blk)"

definition zero_keccak :: keccak where
  "zero_keccak =
     (let p = Plane zero_lane zero_lane zero_lane zero_lane zero_lane in Keccak p p p p p)"

fun squeeze :: "keccak \<Rightarrow> bool list" where
  "squeeze (Keccak (Plane a b c d e) p1 p2 p3 p4) = a @ b @ c @ d"

definition sha3_bits :: "u8 list \<Rightarrow> bool list" where
  "sha3_bits m =
     squeeze (fold absorb (rate_blocks (byte_lanes (m @ sha3_padding (length m)))) zero_keccak)"

fun bytes_of_bits :: "nat \<Rightarrow> bool list \<Rightarrow> u8 list" where
  "bytes_of_bits 0 bs = []"
| "bytes_of_bits (Suc n) bs = byte_of_bits (take 8 bs) # bytes_of_bits n (drop 8 bs)"

definition sha3_256 :: "u8 list \<Rightarrow> bytes32" where
  "sha3_256 m = Bytes32 (bytes_of_bits 32 (sha3_bits m))"

section \<open>Evaluation\<close>

lemma byte_of_byte_bits [simp]: "byte_of_bits (byte_bits b) = b"
  by (rule bit_word_eqI)
    (auto simp: byte_of_bits_def byte_bits_def bit_horner_sum_bit_word_iff)

lemma length_byte_bits [simp]: "length (byte_bits b) = 8"
  by (simp add: byte_bits_def)

lemma bytes_of_bits_concat:
  "bytes_of_bits (length bs) (concat (map byte_bits bs)) = bs"
  by (induction bs) simp_all

text \<open>A digest is known once its 256 output bits are.\<close>

lemma sha3_256_eqI:
  assumes "sha3_bits m = concat (map byte_bits bs)" and "length bs = 32"
  shows "sha3_256 m = Bytes32 bs"
  using bytes_of_bits_concat [of bs] assms by (simp add: sha3_256_def)

text \<open>
  The rotations of the two linear steps as cuts at a successor term, so that \<open>take\<close> and
  \<open>drop\<close> run along the lane without arithmetic.
\<close>

lemma rot_cuts:
  "rot 1 xs = drop 63 xs @ take 63 xs"
  "rot 2 xs = drop 62 xs @ take 62 xs"
  "rot 3 xs = drop 61 xs @ take 61 xs"
  "rot 6 xs = drop 58 xs @ take 58 xs"
  "rot 8 xs = drop 56 xs @ take 56 xs"
  "rot 10 xs = drop 54 xs @ take 54 xs"
  "rot 14 xs = drop 50 xs @ take 50 xs"
  "rot 15 xs = drop 49 xs @ take 49 xs"
  "rot 18 xs = drop 46 xs @ take 46 xs"
  "rot 20 xs = drop 44 xs @ take 44 xs"
  "rot 21 xs = drop 43 xs @ take 43 xs"
  "rot 25 xs = drop 39 xs @ take 39 xs"
  "rot 27 xs = drop 37 xs @ take 37 xs"
  "rot 28 xs = drop 36 xs @ take 36 xs"
  "rot 36 xs = drop 28 xs @ take 28 xs"
  "rot 39 xs = drop 25 xs @ take 25 xs"
  "rot 41 xs = drop 23 xs @ take 23 xs"
  "rot 43 xs = drop 21 xs @ take 21 xs"
  "rot 44 xs = drop 20 xs @ take 20 xs"
  "rot 45 xs = drop 19 xs @ take 19 xs"
  "rot 55 xs = drop 9 xs @ take 9 xs"
  "rot 56 xs = drop 8 xs @ take 8 xs"
  "rot 61 xs = drop 3 xs @ take 3 xs"
  "rot 62 xs = drop 2 xs @ take 2 xs"
  by (simp_all add: rot_def)

lemmas successors = numeral_eq_Suc pred_numeral_simps BitM.simps

lemmas rho_pi_eval [sha3_eval] = rho_pi.simps [unfolded rot_cuts, unfolded successors]
lemmas theta_effect_eval [sha3_eval] =
  theta_effect.simps [unfolded rot_cuts, unfolded successors]

lemma byte_bits_eval:
  "byte_bits w = [bit w 0, bit w 1, bit w 2, bit w 3, bit w 4, bit w 5, bit w 6, bit w 7]"
  by (simp add: byte_bits_def upt_conv_Cons numeral_eq_Suc)

lemma lane_of_bits:
  "lane_of w =
     [bit w 0, bit w 1, bit w 2, bit w 3, bit w 4, bit w 5, bit w 6, bit w 7, bit w 8, bit w
      9, bit w 10, bit w 11, bit w 12, bit w 13, bit w 14, bit w 15, bit w 16, bit w 17, bit w
      18, bit w 19, bit w 20, bit w 21, bit w 22, bit w 23, bit w 24, bit w 25, bit w 26, bit
      w 27, bit w 28, bit w 29, bit w 30, bit w 31, bit w 32, bit w 33, bit w 34, bit w 35,
      bit w 36, bit w 37, bit w 38, bit w 39, bit w 40, bit w 41, bit w 42, bit w 43, bit w
      44, bit w 45, bit w 46, bit w 47, bit w 48, bit w 49, bit w 50, bit w 51, bit w 52, bit
      w 53, bit w 54, bit w 55, bit w 56, bit w 57, bit w 58, bit w 59, bit w 60, bit w 61,
      bit w 62, bit w 63]"
  by (simp add: lane_of_def upt_conv_Cons numeral_eq_Suc)

lemmas round_constants_eval [sha3_eval] =
  round_constants_def [unfolded lane_of_bits, simplified]

lemmas lane_eval [sha3_eval] = xor_lane.simps chi_lane.simps xor_plane.simps xor_all.simps
  column_parity.simps theta_def chi_plane.simps chi.simps iota.simps keccak_round_def
  keccak_f_def absorb_def squeeze.simps xor_state.simps

lemmas list_eval [sha3_eval] = append.simps take_Suc_Cons take_0 drop_Suc_Cons drop_0

lemma fold_round_eval [sha3_eval]:
  "fold keccak_round [] s = s"
  "fold keccak_round (rc # rcs) s = fold keccak_round rcs (keccak_round rc s)"
  "fold absorb [] s = s"
  "fold absorb (blk # blks) s = fold absorb blks (absorb blk s)"
  by simp_all

lemmas zero_keccak_eval [sha3_eval] = zero_keccak_def [unfolded Let_def]

lemmas zero_lane_eval [sha3_eval] =
  zero_lane_def [unfolded successors replicate_Suc replicate_0]

text \<open>
  A message is brought to literal lanes with the simplifier's arithmetic and \<open>message_eval\<close>;
  then \<open>sha3_eval\<close> alone runs the permutation.
\<close>

lemma replicate_eval: "replicate (numeral k) x = x # replicate (pred_numeral k) x"
  by (simp add: numeral_eq_Suc)

lemma le_bytes_eval:
  "le_bytes 8 w = [ucast w, ucast (drop_bit 8 w), ucast (drop_bit 16 w), ucast (drop_bit 24 w),
     ucast (drop_bit 32 w), ucast (drop_bit 40 w), ucast (drop_bit 48 w), ucast (drop_bit 56 w)]"
  by (simp add: le_bytes_def upt_conv_Cons numeral_eq_Suc)

lemmas message_eval = sha3_bits_def sha3_padding_def byte_bits_eval replicate_eval le_bytes_eval
  drop_bit_eq_div

end
