(* ===== verification/Test_Vectors.thy ===== *)
theory Test_Vectors
  imports Sha3 Daa
begin

text \<open>
  The consensus test vectors of \<^verbatim>\<open>vdag-consensus/src/test_vectors.rs\<close>, whose expected values were
  computed outside the code base.  A test is a truth value over the digest; it holds when every
  assertion of the Rust test does.  With FIPS 202's SHA3-256 as the digest all of them hold of the
  model, which ties the byte layout of blocks and transactions, the Merkle tree, the emission
  schedule, the fee split and the difficulty adjustment to values the model had no part in.
\<close>

section \<open>Genesis and block hashes\<close>

definition DEVNET_GENESIS_HASH :: bytes32 where
  "DEVNET_GENESIS_HASH = Bytes32
     [0xfd, 0xd0, 0x30, 0xa7, 0xbf, 0x0b, 0x77, 0x05, 0x7e, 0x45, 0x88,
      0x7d, 0xc2, 0xda, 0xfa, 0x78, 0x34, 0x6e, 0x25, 0x72, 0xab, 0x98,
      0x8f, 0x81, 0x89, 0x3e, 0x05, 0x14, 0x77, 0x0a, 0x0e, 0x1a]"

definition TESTNET_GENESIS_HASH :: bytes32 where
  "TESTNET_GENESIS_HASH = Bytes32
     [0x9f, 0x37, 0x7a, 0x2a, 0x69, 0xfb, 0x5c, 0xc7, 0x53, 0xb6, 0x77,
      0x8c, 0xbe, 0xad, 0x63, 0xe7, 0x47, 0xe5, 0xca, 0xda, 0xd8, 0x38,
      0xa1, 0x92, 0x69, 0xa9, 0xc3, 0x81, 0x20, 0xce, 0x8b, 0xe0]"

definition MAINNET_GENESIS_HASH :: bytes32 where
  "MAINNET_GENESIS_HASH = Bytes32
     [0x37, 0x5f, 0x80, 0xc9, 0xc9, 0x72, 0x34, 0x19, 0x30, 0x9a, 0x3d,
      0x16, 0x52, 0x51, 0x18, 0x7d, 0xf1, 0xb8, 0xb6, 0xae, 0x01, 0xf0,
      0x40, 0x56, 0xd3, 0x35, 0xae, 0x5f, 0x9f, 0xec, 0xca, 0x4b]"

definition vector_genesis_hashes_per_network :: "digest \<Rightarrow> bool" where
  "vector_genesis_hashes_per_network sha \<longleftrightarrow>
     fixed_genesis_hash_for_network sha DEVNET_NETWORK_ID = DEVNET_GENESIS_HASH \<and>
     fixed_genesis_hash_for_network sha TESTNET_NETWORK_ID = TESTNET_GENESIS_HASH \<and>
     fixed_genesis_hash_for_network sha MAINNET_NETWORK_ID = MAINNET_GENESIS_HASH"

definition SAMPLE_TX_MERKLE_ROOT :: bytes32 where
  "SAMPLE_TX_MERKLE_ROOT = fill 0xab"

definition SAMPLE_DIFFICULTY_TARGET :: bytes32 where
  "SAMPLE_DIFFICULTY_TARGET = Bytes32
     [0x00, 0x00, 0x0f, 0xff, 0xff, 0xff, 0xff, 0xff, 0xff, 0xff, 0xff,
      0xff, 0xff, 0xff, 0xff, 0xff, 0xff, 0xff, 0xff, 0xff, 0xff, 0xff,
      0xff, 0xff, 0xff, 0xff, 0xff, 0xff, 0xff, 0xff, 0xff, 0xff]"

definition SAMPLE_MINER_ADDR :: address where
  "SAMPLE_MINER_ADDR = fill 0x11"

definition SAMPLE_BLOCK1_HASH :: bytes32 where
  "SAMPLE_BLOCK1_HASH = Bytes32
     [0xc2, 0xeb, 0xec, 0xbc, 0xb3, 0xff, 0x14, 0x88, 0x62, 0x3a, 0xb4,
      0x19, 0x2f, 0xec, 0x2f, 0x65, 0xc0, 0x17, 0x70, 0xa8, 0xc2, 0xfe,
      0x44, 0x6f, 0x89, 0x2d, 0x9d, 0x96, 0xe4, 0x65, 0x11, 0xd1]"

definition vector_block :: velo_block where
  "vector_block =
     \<lparr>header =
        \<lparr>timestamp = 1757000000, parents = [DEVNET_GENESIS_HASH],
         tx_merkle_root = SAMPLE_TX_MERKLE_ROOT, nonce = 424242, height = 1,
         difficulty_target = SAMPLE_DIFFICULTY_TARGET\<rparr>,
      transactions = [],
      coinbase_miner_address = SAMPLE_MINER_ADDR, coinbase_miner_output = 0,
      coinbase_dev_address = DEV_TREASURY_ADDRESS, coinbase_dev_output = 0\<rparr>"

definition vector_non_genesis_block_hash :: "digest \<Rightarrow> bool" where
  "vector_non_genesis_block_hash sha \<longleftrightarrow> calculate_hash sha vector_block = SAMPLE_BLOCK1_HASH"

section \<open>Transactions\<close>

definition TX1_ID :: bytes32 where
  "TX1_ID = Bytes32
     [0xef, 0x8e, 0x19, 0x94, 0x91, 0xe2, 0xa0, 0xb4, 0x58, 0x1b, 0xa2,
      0x51, 0x16, 0xba, 0x1f, 0xed, 0x85, 0x6e, 0x40, 0xfe, 0xde, 0x56,
      0xc0, 0x80, 0xb6, 0xf4, 0x10, 0x08, 0x50, 0xa4, 0xc4, 0x58]"

definition TX2_ID :: bytes32 where
  "TX2_ID = Bytes32
     [0x7f, 0x28, 0xc4, 0xf3, 0xa7, 0x58, 0x03, 0x4c, 0x4e, 0x10, 0x9d,
      0x2e, 0x77, 0xa5, 0xc1, 0xeb, 0x3f, 0xb0, 0xf3, 0xdd, 0xf9, 0x24,
      0x4e, 0x0c, 0x14, 0xfa, 0x1a, 0x28, 0x96, 0xdc, 0x72, 0x6b]"

definition MERKLE_ROOT_2TX :: bytes32 where
  "MERKLE_ROOT_2TX = Bytes32
     [0x10, 0xe1, 0xe7, 0x90, 0xc3, 0x27, 0x94, 0x3a, 0x8a, 0xad, 0x40,
      0xf5, 0x47, 0xf5, 0x52, 0x5f, 0x86, 0x8d, 0xdd, 0x4e, 0x40, 0x2d,
      0xc2, 0x59, 0xa5, 0xf3, 0x00, 0x00, 0x4a, 0xa1, 0x81, 0x84]"

definition vector_tx1 :: transaction where
  "vector_tx1 = \<lparr>sender = fill 1, recipient = fill 2, amount = 5000, tx_nonce = 0,
     public_key = [], signature = []\<rparr>"

definition vector_tx2 :: transaction where
  "vector_tx2 = \<lparr>sender = fill 3, recipient = fill 4, amount = 7500, tx_nonce = 0,
     public_key = [], signature = []\<rparr>"

definition vector_transaction_id_and_merkle_root :: "digest \<Rightarrow> bool" where
  "vector_transaction_id_and_merkle_root sha \<longleftrightarrow>
     transaction_id sha vector_tx1 = TX1_ID \<and>
     transaction_id sha vector_tx2 = TX2_ID \<and>
     transaction_merkle_root sha [vector_tx1, vector_tx2] = MERKLE_ROOT_2TX"

section \<open>Schedules\<close>

definition vector_subsidy_split_across_era_boundary :: bool where
  "vector_subsidy_split_across_era_boundary \<longleftrightarrow>
     calculate_subsidy_split 1 = (79077, 4161) \<and>
     calculate_subsidy_split (BLOCKS_PER_ERA - 1) = (79077, 4161) \<and>
     calculate_subsidy_split BLOCKS_PER_ERA = (39539, 2080) \<and>
     calculate_subsidy_split (BLOCKS_PER_ERA * 2) = (19769, 1040)"

definition vector_fee_distribution :: bool where
  "vector_fee_distribution \<longleftrightarrow> fee_distribution = (48, 2, 50)"

definition DAA_BASE_TARGET :: bytes32 where
  "DAA_BASE_TARGET = fill 0x0f"

definition DAA_NEXT_TARGET_EXPECTED :: bytes32 where
  "DAA_NEXT_TARGET_EXPECTED = Bytes32
     [0x3c, 0x3c, 0x3c, 0x3c, 0x3c, 0x3c, 0x3c, 0x3c, 0x3c, 0x3c, 0x3c,
      0x3c, 0x3c, 0x3c, 0x3c, 0x3c, 0xff, 0xff, 0xff, 0xff, 0xff, 0xff,
      0xff, 0xff, 0xff, 0xff, 0xff, 0xff, 0xff, 0xff, 0xff, 0xff]"

definition mock_block_with_time :: "u64 \<Rightarrow> velo_block" where
  "mock_block_with_time t =
     \<lparr>header =
        \<lparr>timestamp = t, parents = [], tx_merkle_root = fill 0, nonce = 0, height = 0,
         difficulty_target = fill 0x0f\<rparr>,
      transactions = [], coinbase_miner_address = fill 0, coinbase_miner_output = 0,
      coinbase_dev_address = DEV_TREASURY_ADDRESS, coinbase_dev_output = 0\<rparr>"

definition vector_difficulty_adjustment_extreme_gap :: bool where
  "vector_difficulty_adjustment_extreme_gap \<longleftrightarrow>
     calculate_next_target (difficulty_new 1 4)
       [mock_block_with_time 1700000000, mock_block_with_time 1757000000,
        mock_block_with_time 1757000001, mock_block_with_time 1757000002] DAA_BASE_TARGET =
     Some DAA_NEXT_TARGET_EXPECTED"

section \<open>The vectors hold\<close>

lemmas block_eval = calculate_hash_def block_preimage_def fixed_genesis_hash_for_network_def
  fixed_genesis_block_for_network_def genesis_timestamp_for_network_def network_consts
  DEV_TREASURY_ADDRESS_def

lemma bytes_of_Bytes32: "length bs = 32 \<Longrightarrow> bytes_of (Bytes32 bs) = bs"
  by (simp add: Bytes32_inverse)

lemma devnet_genesis_vector:
  "fixed_genesis_hash_for_network sha3_256 DEVNET_NETWORK_ID = DEVNET_GENESIS_HASH"
  unfolding DEVNET_GENESIS_HASH_def block_eval
  by (rule sha3_256_eqI) (simp add: message_eval, simp only: sha3_eval, simp)

lemma testnet_genesis_vector:
  "fixed_genesis_hash_for_network sha3_256 TESTNET_NETWORK_ID = TESTNET_GENESIS_HASH"
  unfolding TESTNET_GENESIS_HASH_def block_eval
  by (rule sha3_256_eqI) (simp add: message_eval, simp only: sha3_eval, simp)

lemma mainnet_genesis_vector:
  "fixed_genesis_hash_for_network sha3_256 MAINNET_NETWORK_ID = MAINNET_GENESIS_HASH"
  unfolding MAINNET_GENESIS_HASH_def block_eval
  by (rule sha3_256_eqI) (simp add: message_eval, simp only: sha3_eval, simp)

lemma block_hash_vector: "calculate_hash sha3_256 vector_block = SAMPLE_BLOCK1_HASH"
  unfolding SAMPLE_BLOCK1_HASH_def block_eval
  by (rule sha3_256_eqI)
    (simp add: vector_block_def DEVNET_GENESIS_HASH_def SAMPLE_TX_MERKLE_ROOT_def
      SAMPLE_DIFFICULTY_TARGET_def SAMPLE_MINER_ADDR_def DEV_TREASURY_ADDRESS_def
      bytes_of_Bytes32 message_eval,
     simp only: sha3_eval, simp)

lemmas tx_eval = transaction_id_def tx_preimage_def transaction_payload_def

lemma tx1_vector: "transaction_id sha3_256 vector_tx1 = TX1_ID"
  unfolding TX1_ID_def tx_eval
  by (rule sha3_256_eqI) (simp add: vector_tx1_def message_eval, simp only: sha3_eval, simp)

lemma tx2_vector: "transaction_id sha3_256 vector_tx2 = TX2_ID"
  unfolding TX2_ID_def tx_eval
  by (rule sha3_256_eqI) (simp add: vector_tx2_def message_eval, simp only: sha3_eval, simp)

lemma merkle_pair:
  "transaction_merkle_root sha [t, t'] =
     sha (bytes_of (transaction_id sha t) @ bytes_of (transaction_id sha t'))"
  by (simp add: transaction_merkle_root_def merkle_reduce.simps)

lemma merkle_vector:
  "transaction_merkle_root sha3_256 [vector_tx1, vector_tx2] = MERKLE_ROOT_2TX"
  unfolding MERKLE_ROOT_2TX_def merkle_pair tx1_vector tx2_vector
  by (rule sha3_256_eqI)
    (simp add: TX1_ID_def TX2_ID_def bytes_of_Bytes32 message_eval, simp only: sha3_eval, simp)

lemma subsidy_vectors: "vector_subsidy_split_across_era_boundary"
  by (simp add: vector_subsidy_split_across_era_boundary_def calculate_subsidy_split_def
      apply_dev_tax_split_def Let_def emission_consts drop_bit_eq_div word_le_nat_alt)

lemma fee_vector: "vector_fee_distribution"
  by (simp add: vector_fee_distribution_def fee_distribution_eq)

lemma daa_vector: "vector_difficulty_adjustment_extreme_gap"
proof -
  let ?dm = "difficulty_new 1 4" and ?w = "[mock_block_with_time 1700000000,
     mock_block_with_time 1757000000, mock_block_with_time 1757000001,
     mock_block_with_time 1757000002]"
  have e: "expected_time_safe ?dm = 3"
    by (simp add: expected_time_safe_def difficulty_new_def max_def word_le_nat_alt)
  have "elapsed_time ?w = 57000002"
    by (simp add: elapsed_time_def mock_block_with_time_def word_less_nat_alt)
  with e have c: "clamped_elapsed ?dm ?w = 12"
    by (simp add: clamped_elapsed_def clamp_def saturating_mul_def word_less_nat_alt)
  have h: "high16 (fill 0x0f) = 0x0f0f0f0f0f0f0f0f0f0f0f0f0f0f0f0f"
    by (simp add: high16_def from_be_bytes_def be_nat_def replicate_eval)
  have "scale_target (high16 (fill 0x0f)) 12 3 = 0x3c3c3c3c3c3c3c3c3c3c3c3c3c3c3c3c"
    by (simp add: h scale_target_def checked_mul_def checked_div_def)
  with e c have "calculate_next_target ?dm ?w (fill 0x0f) =
      Some (with_high16 0x3c3c3c3c3c3c3c3c3c3c3c3c3c3c3c3c)"
    by (simp add: calculate_next_target_def Let_def bytes32_le_fill_max leD difficulty_new_def)
  moreover have "with_high16 0x3c3c3c3c3c3c3c3c3c3c3c3c3c3c3c3c = DAA_NEXT_TARGET_EXPECTED"
    by (subst bytes_of_eq_iff [symmetric])
      (simp add: DAA_NEXT_TARGET_EXPECTED_def be_bytes_def le_bytes_def upt_conv_Cons
        replicate_eval bytes_of_Bytes32)
  ultimately show ?thesis
    by (simp add: vector_difficulty_adjustment_extreme_gap_def DAA_BASE_TARGET_def)
qed

lemmas vector_facts = devnet_genesis_vector testnet_genesis_vector mainnet_genesis_vector
  block_hash_vector tx1_vector tx2_vector merkle_vector

text \<open>The vectors of the repository, computed outside of it, are what the definitions compute with
  SHA3-256 as the digest: the three genesis hashes, a block hash, two transaction identities and
  their Merkle root, the subsidies at the borders of eras, the split of the fee, and the target
  after an extreme gap.  These are all six tests of the file.\<close>

lemma published_vectors_hold:
  "vector_genesis_hashes_per_network sha3_256 \<and>
   vector_non_genesis_block_hash sha3_256 \<and>
   vector_transaction_id_and_merkle_root sha3_256 \<and>
   vector_subsidy_split_across_era_boundary \<and> vector_fee_distribution \<and>
   vector_difficulty_adjustment_extreme_gap"
  by (simp add: vector_genesis_hashes_per_network_def vector_non_genesis_block_hash_def
      vector_transaction_id_and_merkle_root_def vector_facts subsidy_vectors fee_vector daa_vector)

end
