(* ===== verification/Consensus_Tests.thy ===== *)
theory Consensus_Tests
  imports Test_Vectors Ledger_Properties Replay Pow
begin

text \<open>
  The unit tests of \<^verbatim>\<open>vdag-consensus\<close> (\<^verbatim>\<open>lib.rs\<close>, \<^verbatim>\<open>ghostdag.rs\<close>, \<^verbatim>\<open>pow.rs\<close>, \<^verbatim>\<open>daa.rs\<close>) and its
  property-based tests (\<^verbatim>\<open>adversarial_tests.rs\<close>), as truth values over the definitions: a test is
  true when no assertion of the Rust test fails and no \<^verbatim>\<open>unwrap\<close> panics.  With SHA3-256 as the
  digest every one of them holds; the property-based ones hold for every input.
\<close>

section \<open>Emission\<close>

definition test_subsidy_values_and_halving :: bool where
  "test_subsidy_values_and_halving \<longleftrightarrow>
     (let (miner_0, dev_0) = calculate_subsidy_split 0;
          (miner_era1, dev_era1) = calculate_subsidy_split (BLOCKS_PER_ERA + 1)
      in miner_0 + dev_0 = INITIAL_BLOCK_REWARD \<and>
         dev_0 = INITIAL_BLOCK_REWARD * DEV_TAX_PERCENTAGE div 100 \<and>
         miner_era1 + dev_era1 = drop_bit 1 INITIAL_BLOCK_REWARD)"

lemmas split_eval = calculate_subsidy_split_def apply_dev_tax_split_def Let_def emission_consts
  drop_bit_eq_div word_le_nat_alt

lemma subsidy_test: test_subsidy_values_and_halving
  by (simp add: test_subsidy_values_and_halving_def split_eval)

lemma early_subsidy: "calculate_subsidy_split 1 = (79077, 4161)"
  "calculate_subsidy_split 2 = (79077, 4161)"
  by (simp_all add: split_eval)

section \<open>The Merkle root\<close>

definition test_transfer :: "u8 \<Rightarrow> u8 \<Rightarrow> u64 \<Rightarrow> u8 list \<Rightarrow> u8 list \<Rightarrow> transaction" where
  "test_transfer from to amt pk sg =
     \<lparr>sender = fill from, recipient = fill to, amount = amt, tx_nonce = 0,
      public_key = pk, signature = sg\<rparr>"

definition transaction_merkle_root_commits_to_transaction_contents :: "digest \<Rightarrow> bool" where
  "transaction_merkle_root_commits_to_transaction_contents sha \<longleftrightarrow>
     (let first = test_transfer 1 2 10 (replicate 4 3) (replicate 4 4);
          second = test_transfer 5 6 20 (replicate 4 7) (replicate 4 8);
          root = transaction_merkle_root sha [first, second]
      in root \<noteq> fill 0 \<and>
         root \<noteq> transaction_merkle_root sha [first, second\<lparr>amount := 21\<rparr>] \<and>
         transaction_merkle_root sha [] = fill 0)"

section \<open>The ledger\<close>

text \<open>The block without transactions that pays its reward to an address.\<close>

definition funding_block :: "address \<Rightarrow> velo_block" where
  "funding_block miner =
     (case calculate_subsidy_split 1 of (miner_reward, dev_reward) \<Rightarrow>
       \<lparr>header =
          \<lparr>timestamp = 1, parents = [fill 0], tx_merkle_root = fill 0, nonce = 0, height = 1,
           difficulty_target = fill 255\<rparr>,
        transactions = [],
        coinbase_miner_address = miner, coinbase_miner_output = miner_reward,
        coinbase_dev_address = DEV_TREASURY_ADDRESS, coinbase_dev_output = dev_reward\<rparr>)"

definition spend_block :: "digest \<Rightarrow> velo_block \<Rightarrow> transaction \<Rightarrow> address \<Rightarrow> velo_block" where
  "spend_block sha parent tx miner =
     (case calculate_subsidy_split 2 of (next_miner_reward, next_dev_reward) \<Rightarrow>
       \<lparr>header =
          \<lparr>timestamp = 2, parents = [calculate_hash sha parent],
           tx_merkle_root = transaction_merkle_root sha [tx], nonce = 0, height = 2,
           difficulty_target = fill 255\<rparr>,
        transactions = [tx],
        coinbase_miner_address = miner, coinbase_miner_output = next_miner_reward,
        coinbase_dev_address = DEV_TREASURY_ADDRESS, coinbase_dev_output = next_dev_reward\<rparr>)"

fun is_invalid_nonce :: "ledger_error \<Rightarrow> bool" where
  "is_invalid_nonce (InvalidNonce expected given) = True"
| "is_invalid_nonce e = False"

definition ledger_state_tracks_rewards_and_rejects_invalid_spends :: "digest \<Rightarrow> bool" where
  "ledger_state_tracks_rewards_and_rejects_invalid_spends sha \<longleftrightarrow>
     (let miner = fill 1;
          (miner_reward, dev_reward) = calculate_subsidy_split 1;
          reward_block = funding_block miner;
          (fee_miner_share, fee_dev_share, fee_burned_share) = fee_distribution;
          send_amount = miner_reward - TRANSACTION_FEE;
          tx = test_transfer 1 2 send_amount [] [];
          (next_miner_reward, next_dev_reward) = calculate_subsidy_split 2;
          spend = spend_block sha reward_block tx miner;
          redirected = [tx\<lparr>recipient := fill 3\<rparr>];
          wrong_nonce_block = spend\<lparr>transactions := redirected,
            header := (header spend)\<lparr>tx_merkle_root := transaction_merkle_root sha redirected\<rparr>\<rparr>
      in case apply_block sha ledger_default reward_block of
           (Inl _, _) \<Rightarrow> False
         | (Inr _, state) \<Rightarrow>
             ledger_balance state miner = miner_reward \<and>
             fee_miner_share + fee_dev_share + fee_burned_share = TRANSACTION_FEE \<and>
             (case apply_block sha state spend of
                (Inl _, _) \<Rightarrow> False
              | (Inr _, state) \<Rightarrow>
                  ledger_balance state miner = next_miner_reward + fee_miner_share \<and>
                  ledger_balance state (fill 2) = send_amount \<and>
                  (case apply_block sha state spend of
                     (Inr _, _) \<Rightarrow> False
                   | (Inl _, state) \<Rightarrow>
                       (case apply_block sha state wrong_nonce_block of
                          (Inr _, _) \<Rightarrow> False
                        | (Inl e, _) \<Rightarrow> is_invalid_nonce e))))"

definition select_affordable_keeps_good_transactions_and_rejects_bad_ones_independently ::
  "digest \<Rightarrow> bool"
where
  "select_affordable_keeps_good_transactions_and_rejects_bad_ones_independently sha \<longleftrightarrow>
     (case apply_block sha ledger_default (funding_block (fill 41)) of
        (Inl _, _) \<Rightarrow> False
      | (Inr _, state) \<Rightarrow>
          (let good_tx = test_transfer 41 42 1000 [] [];
               bad_tx = good_tx\<lparr>tx_nonce := 5\<rparr>;
               (accepted, rejected) =
                 select_affordable sha state [good_tx, bad_tx] (fill 43) DEV_TREASURY_ADDRESS
           in length accepted = 1 \<and> tx_nonce (accepted ! 0) = 0 \<and>
              length rejected = 1 \<and> is_invalid_nonce (snd (rejected ! 0)) \<and>
              ledger_balance state (fill 42) = 0))"

definition transaction_fee_is_charged_split_and_partially_burned :: "digest \<Rightarrow> bool" where
  "transaction_fee_is_charged_split_and_partially_burned sha \<longleftrightarrow>
     (let miner = fill 22;
          (miner_reward, dev_reward) = calculate_subsidy_split 1;
          (next_miner_reward, next_dev_reward) = calculate_subsidy_split 2;
          (fee_miner_share, fee_dev_share, fee_burned_share) = fee_distribution;
          fund_block = funding_block (fill 11);
          send_amount = 1000;
          spend = spend_block sha fund_block (test_transfer 11 33 send_amount [] []) miner
      in case apply_block sha ledger_default fund_block of
           (Inl _, _) \<Rightarrow> False
         | (Inr _, state) \<Rightarrow>
             (let starting_balance = ledger_balance state (fill 11)
              in case apply_block sha state spend of
                   (Inl _, _) \<Rightarrow> False
                 | (Inr _, state) \<Rightarrow>
                     ledger_balance state (fill 11) =
                       starting_balance - send_amount - TRANSACTION_FEE \<and>
                     ledger_balance state (fill 33) = send_amount \<and>
                     ledger_balance state miner = next_miner_reward + fee_miner_share \<and>
                     ledger_balance state DEV_TREASURY_ADDRESS =
                       dev_reward + next_dev_reward + fee_dev_share \<and>
                     fee_miner_share + fee_dev_share + fee_burned_share = TRANSACTION_FEE \<and>
                     0 < fee_burned_share))"

section \<open>Genesis\<close>

definition fixed_genesis_and_network_identity_are_stable :: "digest \<Rightarrow> bool" where
  "fixed_genesis_and_network_identity_are_stable sha \<longleftrightarrow>
     DEVNET_NETWORK_ID = 1 \<and> TESTNET_NETWORK_ID = 2 \<and> MAINNET_NETWORK_ID = 3 \<and>
     (let genesis = fixed_genesis_block
      in height (header genesis) = 0 \<and> parents (header genesis) = [] \<and>
         fixed_genesis_hash sha = calculate_hash sha genesis \<and> fixed_genesis_hash sha \<noteq> fill 0)"

definition genesis_hash_differs_per_network :: "digest \<Rightarrow> bool" where
  "genesis_hash_differs_per_network sha \<longleftrightarrow>
     (let devnet = fixed_genesis_hash_for_network sha DEVNET_NETWORK_ID;
          testnet = fixed_genesis_hash_for_network sha TESTNET_NETWORK_ID;
          mainnet = fixed_genesis_hash_for_network sha MAINNET_NETWORK_ID
      in devnet \<noteq> testnet \<and> devnet \<noteq> mainnet \<and> testnet \<noteq> mainnet \<and>
         fixed_genesis_hash_for_network sha 9999 = devnet)"

section \<open>GHOSTDAG\<close>

definition create_mock_block :: "block_hash list \<Rightarrow> velo_block" where
  "create_mock_block ps =
     \<lparr>header =
        \<lparr>timestamp = 100, parents = ps, tx_merkle_root = fill 0, nonce = 0, height = 0,
         difficulty_target = fill 0x0f\<rparr>,
      transactions = [], coinbase_miner_address = fill 0, coinbase_miner_output = 0,
      coinbase_dev_address = fill 0, coinbase_dev_output = 0\<rparr>"

text \<open>Every test begins with a manager that holds a root under the hash of zeros.\<close>

definition rooted :: ghostdag_manager where
  "rooted = dag_insert (ghostdag_new 3) (fill 0) (create_mock_block [])"

definition test_genesis_ghostdag_calculation :: bool where
  "test_genesis_ghostdag_calculation \<longleftrightarrow>
     (let result = calculate_ghostdag_data (ghostdag_new 3) (create_mock_block [])
      in blue_score result = 0 \<and> selected_parent result = None)"

definition fork_choice_selects_the_heavier_branch :: bool where
  "fork_choice_selects_the_heavier_branch \<longleftrightarrow>
     (let genesis_hash = fill 0; a1_hash = fill 1; b1_hash = fill 2; b2_hash = fill 3;
          manager = dag_insert rooted a1_hash (create_mock_block [genesis_hash]);
          manager = dag_insert manager b1_hash (create_mock_block [genesis_hash]);
          manager = dag_insert manager b2_hash (create_mock_block [b1_hash])
      in sort (compute_tips manager) = sort [a1_hash, b2_hash] \<and>
         select_best_tip manager [a1_hash, b2_hash] = Some b2_hash \<and>
         select_best_tip manager [b2_hash, a1_hash] = Some b2_hash \<and>
         select_canonical_tip manager = Some b2_hash)"

definition fork_choice_tie_break_is_deterministic :: bool where
  "fork_choice_tie_break_is_deterministic \<longleftrightarrow>
     (let genesis_hash = fill 0; a1_hash = fill 5; b1_hash = fill 9;
          manager = dag_insert rooted a1_hash (create_mock_block [genesis_hash]);
          manager = dag_insert manager b1_hash (create_mock_block [genesis_hash])
      in select_best_tip manager [a1_hash, b1_hash] = Some a1_hash \<and>
         select_best_tip manager [b1_hash, a1_hash] = Some a1_hash)"

text \<open>A mock block at a height, with the coinbase of that height.\<close>

definition rewarded_block :: "block_hash list \<Rightarrow> u64 \<Rightarrow> address \<Rightarrow> velo_block" where
  "rewarded_block ps h miner =
     (let b = create_mock_block ps;
          (miner_reward, dev_reward) = calculate_subsidy_split h
      in b\<lparr>header := (header b)\<lparr>height := h\<rparr>,
           coinbase_miner_address := miner, coinbase_miner_output := miner_reward,
           coinbase_dev_address := DEV_TREASURY_ADDRESS, coinbase_dev_output := dev_reward\<rparr>)"

definition recompute_ledger_matches_canonical_replay :: "digest \<Rightarrow> bool" where
  "recompute_ledger_matches_canonical_replay sha \<longleftrightarrow>
     (let genesis_hash = fill 0; b1_hash = fill 1; b2_hash = fill 2; miner = fill 7;
          (miner_reward_1, dev_reward_1) = calculate_subsidy_split 1;
          (miner_reward_2, dev_reward_2) = calculate_subsidy_split 2;
          manager = dag_insert rooted b1_hash (rewarded_block [genesis_hash] 1 miner);
          manager = dag_insert manager b2_hash (rewarded_block [b1_hash] 2 miner)
      in case recompute_ledger sha manager b2_hash of
           Some (Inr ledger) \<Rightarrow>
             ledger_balance ledger miner = miner_reward_1 + miner_reward_2 \<and>
             ledger_balance ledger DEV_TREASURY_ADDRESS = dev_reward_1 + dev_reward_2
         | _ \<Rightarrow> False)"

section \<open>Proof of work\<close>

definition easy_target :: bytes32 where
  "easy_target = Bytes32 (0x0f # replicate 31 0xff)"

definition easy_block :: "u64 \<Rightarrow> velo_block" where
  "easy_block n =
     \<lparr>header =
        \<lparr>timestamp = 1626000000, parents = [fill 0], tx_merkle_root = fill 0, nonce = n,
         height = 1, difficulty_target = easy_target\<rparr>,
      transactions = [], coinbase_miner_address = fill 0, coinbase_miner_output = 83238,
      coinbase_dev_address = fill 0, coinbase_dev_output = 0\<rparr>"

definition test_mine_and_verify_block :: "digest \<Rightarrow> bool" where
  "test_mine_and_verify_block sha \<longleftrightarrow>
     (let pow_manager = pow_new easy_target
      in case mine_block sha pow_manager (easy_block 0) of
           None \<Rightarrow> False
         | Some (computed_hash, block) \<Rightarrow>
             0 < nonce (header block) \<and> computed_hash \<le> easy_target \<and>
             verify_pow sha pow_manager block)"

section \<open>Difficulty\<close>

definition create_mock_block_with_time :: "u64 \<Rightarrow> velo_block" where
  "create_mock_block_with_time t =
     \<lparr>header =
        \<lparr>timestamp = t, parents = [], tx_merkle_root = fill 0, nonce = 0, height = 0,
         difficulty_target = fill 0x0f\<rparr>,
      transactions = [], coinbase_miner_address = fill 0, coinbase_miner_output = 0,
      coinbase_dev_address = fill 0, coinbase_dev_output = 0\<rparr>"

definition test_difficulty_shrinks_when_mining_too_fast :: bool where
  "test_difficulty_shrinks_when_mining_too_fast \<longleftrightarrow>
     (let base_target = fill 0x7f
      in case calculate_next_target (difficulty_new 1 4)
             [create_mock_block_with_time 1000, create_mock_block_with_time 1000,
              create_mock_block_with_time 1000, create_mock_block_with_time 1001] base_target of
           None \<Rightarrow> False
         | Some next_target \<Rightarrow> next_target < base_target)"

definition test_extreme_timestamp_gap_does_not_overflow :: bool where
  "test_extreme_timestamp_gap_does_not_overflow \<longleftrightarrow>
     (case calculate_next_target (difficulty_new 1 4)
          [create_mock_block_with_time 1700000000, create_mock_block_with_time 1757000000,
           create_mock_block_with_time 1757000001, create_mock_block_with_time 1757000002]
          (fill 0x0f) of
        None \<Rightarrow> False
      | Some next_target \<Rightarrow> next_target \<le> fill 0xff)"

section \<open>Properties over random inputs\<close>

definition subsidy_split_never_panics_across_full_height_range :: "u64 \<Rightarrow> bool" where
  "subsidy_split_never_panics_across_full_height_range h =
     (case calculate_subsidy_split h of (miner, dev) \<Rightarrow> checked_add miner dev \<noteq> None)"

definition subsidy_split_is_zero_once_era_exceeds_bit_width :: "u64 \<Rightarrow> bool" where
  "subsidy_split_is_zero_once_era_exceeds_bit_width era_offset =
     (let era = 64 + era_offset; h = era * BLOCKS_PER_ERA in calculate_subsidy_split h = (0, 0))"

text \<open>\<^verbatim>\<open>mock_block_with_timestamp\<close> is \<^verbatim>\<open>mock_block_with_time\<close> of the vectors.\<close>

definition difficulty_adjustment_never_panics :: "u64 list \<Rightarrow> bytes32 \<Rightarrow> bool" where
  "difficulty_adjustment_never_panics timestamps target_bytes \<longleftrightarrow>
     calculate_next_target (difficulty_new 1 4) (map mock_block_with_time timestamps) target_bytes
       \<noteq> None"

section \<open>The digests the tests compute\<close>

lemma id_first:
  "transaction_id sha3_256 (test_transfer 1 2 10 (replicate 4 3) (replicate 4 4)) = Bytes32
     [0x26, 0x6a, 0x94, 0x14, 0xa0, 0xca, 0x94, 0x1f, 0xb8, 0x1d, 0x7c,
      0x50, 0x3e, 0x64, 0x1a, 0x28, 0x40, 0x18, 0x32, 0x51, 0x88, 0x0c,
      0xf1, 0xc4, 0x7e, 0xbf, 0x3b, 0x34, 0x85, 0x1c, 0x07, 0x31]"
  unfolding tx_eval
  by (rule sha3_256_eqI) (simp add: test_transfer_def message_eval, simp only: sha3_eval, simp)

lemma id_second:
  "transaction_id sha3_256 (test_transfer 5 6 20 (replicate 4 7) (replicate 4 8)) = Bytes32
     [0x6f, 0xdb, 0x62, 0x7a, 0xb1, 0x43, 0x8a, 0x20, 0x61, 0xd3, 0x31,
      0xd2, 0x29, 0xbe, 0x3f, 0x3f, 0xe7, 0x97, 0xc5, 0xec, 0x65, 0xbd,
      0x7d, 0x16, 0x6b, 0x1d, 0x15, 0xb7, 0xa2, 0xe8, 0xbd, 0xb6]"
  unfolding tx_eval
  by (rule sha3_256_eqI) (simp add: test_transfer_def message_eval, simp only: sha3_eval, simp)

lemma id_changed:
  "transaction_id sha3_256
     (test_transfer 5 6 21 (replicate 4 7) (replicate 4 8)) = Bytes32
     [0x27, 0x91, 0x0a, 0x47, 0xb6, 0x4e, 0x57, 0xd5, 0x89, 0xe0, 0x7c,
      0x98, 0xd8, 0x18, 0x1a, 0xd2, 0x7a, 0x4c, 0x15, 0x00, 0x5a, 0x48,
      0xee, 0xe6, 0x62, 0xe6, 0xf3, 0x99, 0x76, 0x80, 0x28, 0x87]"
  unfolding tx_eval
  by (rule sha3_256_eqI) (simp add: test_transfer_def message_eval, simp only: sha3_eval, simp)

lemma root_pair:
  "transaction_merkle_root sha3_256 [test_transfer 1 2 10 (replicate 4 3) (replicate 4 4),
     test_transfer 5 6 20 (replicate 4 7) (replicate 4 8)] = Bytes32
     [0xa1, 0x22, 0xb1, 0xe9, 0x94, 0x29, 0xbe, 0x42, 0x36, 0xd9, 0x89,
      0x4e, 0x17, 0x60, 0xed, 0x5a, 0xe7, 0x8e, 0xab, 0x26, 0x2b, 0x6a,
      0x5d, 0xc2, 0xc6, 0x11, 0x61, 0xfc, 0xfc, 0x2f, 0xdb, 0x62]"
  unfolding merkle_pair id_first id_second
  by (rule sha3_256_eqI) (simp add: bytes_of_Bytes32 message_eval, simp only: sha3_eval, simp)

lemma root_changed:
  "transaction_merkle_root sha3_256 [test_transfer 1 2 10 (replicate 4 3) (replicate 4 4),
     test_transfer 5 6 21 (replicate 4 7) (replicate 4 8)] = Bytes32
     [0xc1, 0x26, 0xbd, 0x3e, 0x09, 0xf8, 0x47, 0xfd, 0x1a, 0x46, 0x8b,
      0x48, 0x3c, 0x7f, 0x29, 0x5c, 0x5f, 0x46, 0x6d, 0xfa, 0xc3, 0xb4,
      0x94, 0x29, 0xd7, 0x15, 0x4d, 0x7d, 0x42, 0xd5, 0xc2, 0xf4]"
  unfolding merkle_pair id_first id_changed
  by (rule sha3_256_eqI) (simp add: bytes_of_Bytes32 message_eval, simp only: sha3_eval, simp)

text \<open>The two lists of that test differ in one amount: their roots differ, as the Merkle root promises.\<close>

theorem merkle_root_commits_witness:
  "transaction_merkle_root sha3_256 [test_transfer 1 2 10 (replicate 4 3) (replicate 4 4),
     test_transfer 5 6 20 (replicate 4 7) (replicate 4 8)] \<noteq>
   transaction_merkle_root sha3_256 [test_transfer 1 2 10 (replicate 4 3) (replicate 4 4),
     test_transfer 5 6 21 (replicate 4 7) (replicate 4 8)]"
proof -
  define a b c where "a = test_transfer 1 2 10 (replicate 4 3) (replicate 4 4)"
    and "b = test_transfer 5 6 20 (replicate 4 7) (replicate 4 8)"
    and "c = test_transfer 5 6 21 (replicate 4 7) (replicate 4 8)"
  note ids = id_first [folded a_def] id_second [folded b_def] id_changed [folded c_def]
  note roots = root_pair [folded a_def b_def] root_changed [folded a_def c_def]
  have inputs: "set (merkle_inputs sha3_256 (map (transaction_id sha3_256) [x, y])) =
      {bytes_of (transaction_id sha3_256 x) @ bytes_of (transaction_id sha3_256 y)}" for x y
    by (simp add: merkle_inputs.simps)
  have "transaction_merkle_root sha3_256 [a, b] \<noteq> transaction_merkle_root sha3_256 [a, c]"
  proof (rule merkle_root_commits [where n = 4])
    show "[a, b] \<noteq> [a, c]" by (simp add: b_def c_def test_transfer_def)
    show "\<forall>t \<in> set [a, b] \<union> set [a, c]. length (public_key t) = 4"
      by (simp add: a_def b_def c_def test_transfer_def)
    show "inj_on sha3_256 (set (merkle_inputs sha3_256 (map (transaction_id sha3_256) [a, b])) \<union>
        set (merkle_inputs sha3_256 (map (transaction_id sha3_256) [a, c])))"
      using roots unfolding inputs merkle_pair by (auto simp: inj_on_def Bytes32_inject)
    show "inj_on sha3_256 (tx_preimage ` (set [a, b] \<union> set [a, c]))"
      using ids unfolding transaction_id_def by (auto simp: inj_on_def Bytes32_inject)
  qed simp
  then show ?thesis unfolding a_def b_def c_def .
qed

lemma id_spend:
  "transaction_id sha3_256 (test_transfer 1 2 78977 [] []) = Bytes32
     [0x80, 0x06, 0x7e, 0xb1, 0x39, 0x53, 0x23, 0x34, 0x4e, 0x8c, 0x35,
      0x8e, 0x45, 0xba, 0x8e, 0xc1, 0xaa, 0xa3, 0xbb, 0x71, 0x0e, 0x81,
      0xa1, 0xa9, 0x0f, 0x40, 0x44, 0x2a, 0x33, 0x58, 0xd5, 0x31]"
  unfolding tx_eval
  by (rule sha3_256_eqI) (simp add: test_transfer_def message_eval, simp only: sha3_eval, simp)

lemma id_redirected:
  "transaction_id sha3_256 (test_transfer 1 3 78977 [] []) = Bytes32
     [0x90, 0xae, 0xf3, 0x15, 0xe8, 0x6b, 0xb6, 0x77, 0x0e, 0x25, 0xf2,
      0x75, 0xf6, 0xef, 0x05, 0x23, 0xa7, 0x81, 0xfc, 0xdf, 0x84, 0x79,
      0xb4, 0x8c, 0x5d, 0xda, 0x16, 0x41, 0x93, 0x58, 0xbb, 0x2d]"
  unfolding tx_eval
  by (rule sha3_256_eqI) (simp add: test_transfer_def message_eval, simp only: sha3_eval, simp)

lemma id_good:
  "transaction_id sha3_256 (test_transfer 41 42 1000 [] []) = Bytes32
     [0xbf, 0x3d, 0x44, 0x80, 0x9b, 0x92, 0xbb, 0x7b, 0x22, 0x77, 0xdf,
      0x3d, 0xa7, 0xed, 0x46, 0xa0, 0xdf, 0x4e, 0x03, 0x0d, 0xd8, 0xbd,
      0x08, 0xd9, 0x3e, 0xb2, 0x2b, 0x7b, 0x12, 0x58, 0x0b, 0xe0]"
  unfolding tx_eval
  by (rule sha3_256_eqI) (simp add: test_transfer_def message_eval, simp only: sha3_eval, simp)

lemma id_bad:
  "transaction_id sha3_256 ((test_transfer 41 42 1000 [] [])\<lparr>tx_nonce := 5\<rparr>) = Bytes32
     [0xd9, 0x4d, 0x74, 0xe4, 0x7f, 0xef, 0xe6, 0x2e, 0xa4, 0x49, 0x0e,
      0x19, 0x6a, 0x02, 0x32, 0xcf, 0x74, 0xb1, 0x25, 0xd6, 0xe2, 0x5e,
      0x84, 0x78, 0xaf, 0xc6, 0x62, 0xfb, 0x0c, 0x3e, 0x02, 0x96]"
  unfolding tx_eval
  by (rule sha3_256_eqI) (simp add: test_transfer_def message_eval, simp only: sha3_eval, simp)

lemma pow_hash_0:
  "calculate_hash sha3_256 (easy_block 0) = Bytes32
     [0x66, 0x7e, 0x36, 0xd0, 0xb0, 0x17, 0xaa, 0x06, 0x51, 0xe7, 0x03,
      0x94, 0x28, 0x59, 0xe3, 0xfc, 0xb6, 0xfc, 0xdc, 0x6c, 0x05, 0xef,
      0xcc, 0xfb, 0xa0, 0x8c, 0xb6, 0x72, 0x71, 0xd4, 0x9f, 0x9c]"
  unfolding block_eval
  by (rule sha3_256_eqI)
    (simp add: easy_block_def easy_target_def bytes_of_Bytes32 message_eval, simp only: sha3_eval,
     simp)

lemma pow_hash_1:
  "calculate_hash sha3_256 (easy_block 1) = Bytes32
     [0x71, 0x25, 0x55, 0x82, 0xeb, 0x42, 0xf2, 0xe5, 0xe6, 0x73, 0x86,
      0x1c, 0x67, 0x48, 0x33, 0xf3, 0x3e, 0x05, 0x32, 0x9d, 0xd9, 0xb8,
      0x37, 0x62, 0xdb, 0xe1, 0xef, 0x59, 0x8b, 0x75, 0x00, 0x00]"
  unfolding block_eval
  by (rule sha3_256_eqI)
    (simp add: easy_block_def easy_target_def bytes_of_Bytes32 message_eval, simp only: sha3_eval,
     simp)

lemma pow_hash_2:
  "calculate_hash sha3_256 (easy_block 2) = Bytes32
     [0x0b, 0xd0, 0x28, 0x6b, 0x73, 0x67, 0x18, 0x0b, 0x4a, 0x45, 0x6e,
      0xdf, 0x49, 0x5d, 0x5f, 0xfe, 0xc0, 0x1d, 0xc6, 0xa6, 0x51, 0x88,
      0xd2, 0x08, 0xf2, 0x82, 0xf3, 0x92, 0x6e, 0x29, 0x1d, 0xd4]"
  unfolding block_eval
  by (rule sha3_256_eqI)
    (simp add: easy_block_def easy_target_def bytes_of_Bytes32 message_eval, simp only: sha3_eval,
     simp)


section \<open>The tests hold\<close>

lemma merkle_test: "transaction_merkle_root_commits_to_transaction_contents sha3_256"
proof -
  have "(test_transfer 5 6 20 pk sg)\<lparr>amount := 21\<rparr> = test_transfer 5 6 21 pk sg" for pk sg
    by (simp add: test_transfer_def)
  moreover have "fill 0 = Bytes32 [0, 0, 0, 0, 0, 0, 0, 0, 0, 0, 0, 0, 0, 0, 0, 0,
      0, 0, 0, 0, 0, 0, 0, 0, 0, 0, 0, 0, 0, 0, 0, 0]"
    by (simp add: fill_def replicate_eval)
  ultimately show ?thesis
    by (simp add: transaction_merkle_root_commits_to_transaction_contents_def Let_def root_pair
        root_changed transaction_merkle_root_def [of _ "[]"] Bytes32_inject)
qed

lemma test_transfer_sels [simp]:
  "sender (test_transfer a b v pk sg) = fill a" "recipient (test_transfer a b v pk sg) = fill b"
  "amount (test_transfer a b v pk sg) = v" "tx_nonce (test_transfer a b v pk sg) = 0"
  by (simp_all add: test_transfer_def)

lemmas ledger_test_eval = early_subsidy fee_distribution_eq funding_block_def spend_block_def
  apply_block_def verify_coinbase_rewards_def ledger_default_def scratch_of_def credit_def
  checked_add_def checked_sub_def get_or_def ledger_balance_def commit_transaction_def
  try_apply_transaction_def select_affordable_def TRANSACTION_FEE_def DEV_TREASURY_ADDRESS_def
  word_le_nat_alt Let_def

lemma fee_test: "transaction_fee_is_charged_split_and_partially_burned sha"
  by (simp add: transaction_fee_is_charged_split_and_partially_burned_def ledger_test_eval)

lemma select_test:
  "select_affordable_keeps_good_transactions_and_rejects_bad_ones_independently sha3_256"
proof -
  have "transaction_id sha3_256 ((test_transfer 41 42 1000 [] [])\<lparr>tx_nonce := 5\<rparr>) \<noteq>
      transaction_id sha3_256 (test_transfer 41 42 1000 [] [])"
    by (simp add: id_good id_bad Bytes32_inject)
  then show ?thesis
    by (simp add: select_affordable_keeps_good_transactions_and_rejects_bad_ones_independently_def
        ledger_test_eval)
qed

lemma ledger_test: "ledger_state_tracks_rewards_and_rejects_invalid_spends sha3_256"
proof -
  have "(test_transfer 1 2 78977 [] [])\<lparr>recipient := fill 3\<rparr> = test_transfer 1 3 78977 [] []"
    by (simp add: test_transfer_def)
  moreover have "transaction_id sha3_256 (test_transfer 1 3 78977 [] []) \<noteq>
      transaction_id sha3_256 (test_transfer 1 2 78977 [] [])"
    by (simp add: id_spend id_redirected Bytes32_inject)
  ultimately show ?thesis
    by (simp add: ledger_state_tracks_rewards_and_rejects_invalid_spends_def ledger_test_eval)
qed

lemma identity_test: "fixed_genesis_and_network_identity_are_stable sha3_256"
proof -
  have "fixed_genesis_hash sha3_256 = DEVNET_GENESIS_HASH"
    using devnet_genesis_vector
    by (simp add: fixed_genesis_hash_def fixed_genesis_block_def ACTIVE_NETWORK_ID_def
        fixed_genesis_hash_for_network_def)
  moreover have "DEVNET_GENESIS_HASH \<noteq> fill 0"
    by (simp add: DEVNET_GENESIS_HASH_def fill_def Bytes32_inject replicate_eval)
  ultimately have "fixed_genesis_hash sha3_256 \<noteq> fill 0" by simp
  then show ?thesis
    by (simp add: fixed_genesis_and_network_identity_are_stable_def network_consts
        fixed_genesis_block_def fixed_genesis_block_for_network_def
        fixed_genesis_hash_def [symmetric])
      (simp add: fixed_genesis_hash_def fixed_genesis_block_def fixed_genesis_block_for_network_def)
qed

lemma genesis_test: "genesis_hash_differs_per_network sha3_256"
proof -
  have "fixed_genesis_hash_for_network sha3_256 9999 = DEVNET_GENESIS_HASH"
    using genesis_unknown_is_devnet [of 9999 sha3_256] devnet_genesis_vector
    by (simp add: genesis_timestamp_for_network_def network_consts)
  then show ?thesis
    by (simp add: genesis_hash_differs_per_network_def vector_facts DEVNET_GENESIS_HASH_def
        TESTNET_GENESIS_HASH_def MAINNET_GENESIS_HASH_def Bytes32_inject Let_def)
qed

lemma root_data:
  "block_parents b = [] \<Longrightarrow> calculate_ghostdag_data m b =
     \<lparr>blue_score = 0, selected_parent = None, blues = [], reds = []\<rparr>"
  by (simp add: calculate_ghostdag_data_def)

text \<open>On a chain the anticone is empty, and the blues are the parent and its blues.\<close>

lemma chain_data:
  assumes "block_parents b = [p]" and "ghostdag_cache m p = Some d"
  shows "calculate_ghostdag_data m b =
    \<lparr>blue_score = blue_score d + of_nat (length (foldl push_unique [p] (blues d))),
     selected_parent = Some p, blues = foldl push_unique [p] (blues d), reds = []\<rparr>"
  using assms
  by (simp add: calculate_ghostdag_data_def find_selected_parent_def cached_def
      List.map_filter_def find_anticone_def inherited_blues_def)

lemma mock_parents [simp]:
  "block_parents (create_mock_block ps) = ps" "block_parents (rewarded_block ps h miner) = ps"
  by (simp_all add: create_mock_block_def rewarded_block_def split_beta)

lemmas dag_query_eval = select_canonical_tip_def select_best_tip_def scored_def List.map_filter_def
  tip_le_def compute_tips_def referenced_as_parent_def

text \<open>The managers of the three tests that insert blocks only hold chains off the root.\<close>

definition chain_entry :: "u64 \<Rightarrow> bytes32 list \<Rightarrow> ghostdag_data" where
  "chain_entry s bs = \<lparr>blue_score = s, selected_parent = (case bs of [] \<Rightarrow> None | p # _ \<Rightarrow> Some p),
     blues = bs, reds = []\<rparr>"

lemma chain_entry_sels [simp]:
  "blue_score (chain_entry s bs) = s" "blues (chain_entry s bs) = bs" "reds (chain_entry s bs) = []"
  "selected_parent (chain_entry s bs) = (case bs of [] \<Rightarrow> None | p # _ \<Rightarrow> Some p)"
  by (simp_all add: chain_entry_def)

lemma rooted_eq:
  "rooted = \<lparr>gd_k = 3, block_store = [(fill 0, create_mock_block [])],
     ghostdag_cache = [fill 0 \<mapsto> chain_entry 0 []]\<rparr>"
  by (simp add: rooted_def dag_insert_def ghostdag_new_def root_data chain_entry_def)

lemma insert_on:
  assumes "block_parents b = [p]" and "ghostdag_cache m p = Some (chain_entry s bs)"
    and "hm_get (block_store m) h = None"
  shows "dag_insert m h b = m\<lparr>block_store := block_store m @ [(h, b)],
    ghostdag_cache := (ghostdag_cache m)(h \<mapsto> chain_entry
      (s + of_nat (length (foldl push_unique [p] bs))) (foldl push_unique [p] bs))\<rparr>"
proof -
  have "\<exists>r. foldl push_unique [p] bs = p # r" 
    by (induction bs rule: rev_induct) (auto simp: push_unique_def)
  then obtain r where "foldl push_unique [p] bs = p # r" by blast
  then show ?thesis
    using chain_data [OF assms(1,2)] by (simp add: dag_insert_def chain_entry_def hm_insert_fresh assms(3))
qed

lemma genesis_data_test: test_genesis_ghostdag_calculation
  by (simp add: test_genesis_ghostdag_calculation_def root_data)

lemma heavier_test: fork_choice_selects_the_heavier_branch
proof -
  have m: "dag_insert (dag_insert (dag_insert rooted (fill 1) (create_mock_block [fill 0]))
      (fill 2) (create_mock_block [fill 0])) (fill 3) (create_mock_block [fill 2]) =
    \<lparr>gd_k = 3,
     block_store = [(fill 0, create_mock_block []), (fill 1, create_mock_block [fill 0]),
       (fill 2, create_mock_block [fill 0]), (fill 3, create_mock_block [fill 2])],
     ghostdag_cache = [fill 0 \<mapsto> chain_entry 0 [], fill 1 \<mapsto> chain_entry 1 [fill 0],
       fill 2 \<mapsto> chain_entry 1 [fill 0], fill 3 \<mapsto> chain_entry 3 [fill 2, fill 0]]\<rparr>"
    by (simp add: rooted_eq insert_on [of _ "fill 0" _ 0 "[]"]
        insert_on [of _ "fill 2" _ 1 "[fill 0]"] push_unique_def)
  show ?thesis
    unfolding fork_choice_selects_the_heavier_branch_def Let_def m by (simp add: dag_query_eval)
qed

lemma tie_test: fork_choice_tie_break_is_deterministic
proof -
  have m: "dag_insert (dag_insert rooted (fill 5) (create_mock_block [fill 0]))
      (fill 9) (create_mock_block [fill 0]) =
    \<lparr>gd_k = 3,
     block_store = [(fill 0, create_mock_block []), (fill 5, create_mock_block [fill 0]),
       (fill 9, create_mock_block [fill 0])],
     ghostdag_cache = [fill 0 \<mapsto> chain_entry 0 [], fill 5 \<mapsto> chain_entry 1 [fill 0],
       fill 9 \<mapsto> chain_entry 1 [fill 0]]\<rparr>"
    by (simp add: rooted_eq insert_on [of _ "fill 0" _ 0 "[]"])
  show ?thesis
    unfolding fork_choice_tie_break_is_deterministic_def Let_def m by (simp add: dag_query_eval)
qed

lemma replay_test: "recompute_ledger_matches_canonical_replay sha"
proof -
  let ?b1 = "rewarded_block [fill 0] 1 (fill 7)" and ?b2 = "rewarded_block [fill 1] 2 (fill 7)"
  let ?m = "\<lparr>gd_k = 3, block_store = [(fill 0, create_mock_block []), (fill 1, ?b1), (fill 2, ?b2)],
     ghostdag_cache = [fill 0 \<mapsto> chain_entry 0 [], fill 1 \<mapsto> chain_entry 1 [fill 0],
       fill 2 \<mapsto> chain_entry 3 [fill 1, fill 0]]\<rparr>"
  have m: "dag_insert (dag_insert rooted (fill 1) ?b1) (fill 2) ?b2 = ?m"
    by (simp add: rooted_eq insert_on [of _ "fill 0" _ 0 "[]"]
        insert_on [of _ "fill 1" _ 1 "[fill 0]"] push_unique_def)
  have order: "get_linear_sort ?m (fill 2) = Some [fill 2, fill 1, fill 0]"
    by (simp add: get_linear_sort_def linear_loop.simps local_set_def push_unique_def)
  have "try_fold (replay_step sha ?m) ledger_default [fill 2, fill 1, fill 0] =
    Inr \<lparr>balances = [fill 7 \<mapsto> 158154, DEV_TREASURY_ADDRESS \<mapsto> 8322],
        next_nonces = Map.empty, confirmed_transactions = {}\<rparr>"
    by (simp add: replay_step_def ledger_step_def early_subsidy apply_block_def
        verify_coinbase_rewards_def ledger_default_def scratch_of_def credit_def checked_add_def
        get_or_def DEV_TREASURY_ADDRESS_def create_mock_block_def rewarded_block_def)
  then show ?thesis
    unfolding recompute_ledger_matches_canonical_replay_def Let_def m
    by (simp add: early_subsidy recompute_ledger_def order ledger_balance_def get_or_def
        DEV_TREASURY_ADDRESS_def)
qed

lemma pow_test: "test_mine_and_verify_block sha3_256"
proof -
  have less: "Bytes32 as \<le> Bytes32 bs \<longleftrightarrow> as \<le> bs" if "length as = 32" "length bs = 32" for as bs
    using that by (simp add: less_eq_bytes32_def bytes_of_Bytes32)
  have "\<not> calculate_hash sha3_256 (easy_block 0) \<le> easy_target"
    "\<not> calculate_hash sha3_256 (easy_block 1) \<le> easy_target"
    "calculate_hash sha3_256 (easy_block 2) \<le> easy_target"
    by (simp_all add: pow_hash_0 pow_hash_1 pow_hash_2 easy_target_def less)
  moreover have "next_nonce (easy_block 0) = easy_block 1" "next_nonce (easy_block 1) = easy_block 2"
    by (simp_all add: next_nonce_def easy_block_def)
  ultimately have "mine_block sha3_256 (pow_new easy_target) (easy_block 0) =
      Some (calculate_hash sha3_256 (easy_block 2), easy_block 2)"
    "calculate_hash sha3_256 (easy_block 2) \<le> easy_target"
    by (simp_all add: mine_block_step [of _ _ "easy_block 0"] mine_block_step [of _ _ "easy_block 1"]
        mine_block_step [of _ _ "easy_block 2"] verify_pow_def pow_new_def)
  moreover have "0 < nonce (header (easy_block 2))"
    by (simp add: easy_block_def word_less_nat_alt)
  ultimately show ?thesis
    by (simp add: test_mine_and_verify_block_def verify_pow_def pow_new_def)
qed

lemma shrink_test: test_difficulty_shrinks_when_mining_too_fast
proof -
  let ?dm = "difficulty_new 1 4" and ?w = "[create_mock_block_with_time 1000,
     create_mock_block_with_time 1000, create_mock_block_with_time 1000,
     create_mock_block_with_time 1001]"
  have e: "expected_time_safe ?dm = 3"
    by (simp add: expected_time_safe_def difficulty_new_def max_def word_le_nat_alt)
  have "elapsed_time ?w = 1"
    by (simp add: elapsed_time_def create_mock_block_with_time_def word_less_nat_alt)
  with e have c: "clamped_elapsed ?dm ?w = 1"
    by (simp add: clamped_elapsed_def clamp_def saturating_mul_def word_less_nat_alt)
  have "high16 (fill 0x7f) = 0x7f7f7f7f7f7f7f7f7f7f7f7f7f7f7f7f"
    by (simp add: high16_def from_be_bytes_def be_nat_def replicate_eval)
  then have "scale_target (high16 (fill 0x7f)) 1 3 = 0x2a7fd52a7fd52a7fd52a7fd52a7fd52a"
    by (simp add: scale_target_def checked_mul_def checked_div_def)
  with e c have "calculate_next_target ?dm ?w (fill 0x7f) = Some (with_high16 0x2a7fd52a7fd52a7fd52a7fd52a7fd52a)"
    by (simp add: calculate_next_target_def Let_def bytes32_le_fill_max leD difficulty_new_def)
  moreover have "with_high16 0x2a7fd52a7fd52a7fd52a7fd52a7fd52a < fill 0x7f"
    by (simp add: less_bytes32_def be_bytes_def le_bytes_def upt_conv_Cons replicate_eval
        word_less_nat_alt)
  ultimately show ?thesis
    by (simp add: test_difficulty_shrinks_when_mining_too_fast_def)
qed

lemma gap_test: test_extreme_timestamp_gap_does_not_overflow
  by (auto simp: test_extreme_timestamp_gap_does_not_overflow_def calculate_next_target_def
     difficulty_new_def bytes32_le_fill_max Let_def split: option.splits)

lemma subsidy_never_panics: "subsidy_split_never_panics_across_full_height_range h"
  using calculate_subsidy_split_parts [of h] emission_at_le [of "unat h"]
  by (simp add: subsidy_split_never_panics_across_full_height_range_def split_beta
     checked_add_None_iff not_le)

lemma adjustment_never_panics: "difficulty_adjustment_never_panics ts t"
  by (auto simp: difficulty_adjustment_never_panics_def calculate_next_target_def
     difficulty_new_def Let_def)

lemma late_eras_pay_nothing:
  assumes "k < 1000"
  shows "subsidy_split_is_zero_once_era_exceeds_bit_width k"
proof -
  have k: "unat k < 1000" using assms by (simp add: word_less_nat_alt)
  have "unat (64 + k) = 64 + unat k" using k by (simp add: unat_word_ariths)
  then have "unat ((64 + k) * BLOCKS_PER_ERA) = (64 + unat k) * 126144000"
    using k by (simp add: unat_word_ariths BLOCKS_PER_ERA_def)
  then have "unat ((64 + k) * BLOCKS_PER_ERA div BLOCKS_PER_ERA) = 64 + unat k"
    by (simp add: unat_era)
  then show ?thesis
    by (simp add: subsidy_split_is_zero_once_era_exceeds_bit_width_def calculate_subsidy_split_def
        word_le_nat_alt Let_def)
qed

section \<open>All tests of the crate\<close>

text \<open>All fourteen unit tests of the crate pass on the definitions, with SHA3-256 as the digest:
  subsidies, Merkle root, ledger and fees, selection, genesis, colouring, fork choice and its
  tie-break, replay, mining, and difficulty.\<close>

lemma consensus_unit_tests_hold:
  "test_subsidy_values_and_halving \<and>
   transaction_merkle_root_commits_to_transaction_contents sha3_256 \<and>
   ledger_state_tracks_rewards_and_rejects_invalid_spends sha3_256 \<and>
   select_affordable_keeps_good_transactions_and_rejects_bad_ones_independently sha3_256 \<and>
   transaction_fee_is_charged_split_and_partially_burned sha3_256 \<and>
   fixed_genesis_and_network_identity_are_stable sha3_256 \<and>
   genesis_hash_differs_per_network sha3_256 \<and>
   test_genesis_ghostdag_calculation \<and> fork_choice_selects_the_heavier_branch \<and>
   fork_choice_tie_break_is_deterministic \<and>
   recompute_ledger_matches_canonical_replay sha3_256 \<and>
   test_mine_and_verify_block sha3_256 \<and>
   test_difficulty_shrinks_when_mining_too_fast \<and> test_extreme_timestamp_gap_does_not_overflow"
  by (simp add: subsidy_test merkle_test ledger_test select_test fee_test identity_test
      genesis_test genesis_data_test heavier_test tie_test replay_test pow_test shrink_test gap_test)

text \<open>The property-based tests hold for every input, not only for the sampled ones.\<close>

lemma consensus_properties_hold:
  "(\<forall>h. subsidy_split_never_panics_across_full_height_range h) \<and>
   (\<forall>k<1000. subsidy_split_is_zero_once_era_exceeds_bit_width k) \<and>
   (\<forall>ts t. difficulty_adjustment_never_panics ts t)"
  by (simp add: subsidy_never_panics late_eras_pay_nothing adjustment_never_panics)

end
