(* ===== verification/Node_Tests.thy ===== *)
theory Node_Tests
  imports Consensus_Tests Key_Pair Peer_Guard Rpc Network_Config Hex_Text
begin

text \<open>
  The unit tests of \<^verbatim>\<open>vdag-crypto\<close> and of the node's \<^verbatim>\<open>peer_guard.rs\<close>, \<^verbatim>\<open>rpc.rs\<close> and
  \<^verbatim>\<open>network_config.rs\<close>.  What a test takes from outside is an argument: the third-party
  libraries, the random peer, and the clock, as the instants its successive readings return.
\<close>

definition ascii_bytes :: "string \<Rightarrow> u8 list" where
  "ascii_bytes = map of_char"

section \<open>Keys\<close>

definition test_quantum_crypto_flow :: "('pk, 'sk, 'sg) dilithium_keys \<Rightarrow> nat \<Rightarrow> bool" where
  "test_quantum_crypto_flow lib i =
     (let keys = generate lib i;
          tx_data = ascii_bytes ''transfer_100_vdag_to_recipient'';
          signature = sign_message lib tx_data (kp_secret keys)
      in verify_signature (verifier lib) tx_data signature (kp_public keys))"

lemma crypto_flow_test: "dilithium_ok lib \<Longrightarrow> test_quantum_crypto_flow lib i"
  by (simp add: test_quantum_crypto_flow_def Let_def generated_signs)

section \<open>The peer guard\<close>

text \<open>\<^verbatim>\<open>for _ in 0..n { guard.record_violation(peer); }\<close>, all at times of the clock from \<open>i\<close> on.\<close>

fun violate_times ::
  "(nat \<Rightarrow> nat) \<Rightarrow> nat \<Rightarrow> nat \<Rightarrow> 'p \<Rightarrow> ('p, 'i) peer_guard \<Rightarrow> bool list \<times> ('p, 'i) peer_guard"
where
  "violate_times clock i 0 peer g = ([], g)"
| "violate_times clock i (Suc n) peer g =
     (case record_violation (clock i) g peer of (b, g) \<Rightarrow>
        case violate_times clock (Suc i) n peer g of (bs, g) \<Rightarrow> (b # bs, g))"

definition allows_connections_up_to_the_per_peer_limit_then_rejects ::
  "(nat \<Rightarrow> nat) \<Rightarrow> 'p \<Rightarrow> bool"
where
  "allows_connections_up_to_the_per_peer_limit_then_rejects clock peer =
     (let guard = peer_guard_new :: ('p, unit) peer_guard;
          (d1, guard) = on_connection_established (clock 0) guard peer None;
          (d2, guard) = on_connection_established (clock 1) guard peer None;
          (d3, guard) = on_connection_established (clock 2) guard peer None
      in d1 = Allow \<and> d2 = Allow \<and> d3 = RejectOverPeerLimit)"

definition closing_a_connection_frees_up_room_for_a_new_one :: "(nat \<Rightarrow> nat) \<Rightarrow> 'p \<Rightarrow> bool" where
  "closing_a_connection_frees_up_room_for_a_new_one clock peer =
     (let guard = peer_guard_new :: ('p, unit) peer_guard;
          (_, guard) = on_connection_established (clock 0) guard peer None;
          (_, guard) = on_connection_established (clock 1) guard peer None;
          (d3, guard) = on_connection_established (clock 2) guard peer None;
          guard = on_connection_closed guard peer None;
          (d4, guard) = on_connection_established (clock 3) guard peer None
      in d3 = RejectOverPeerLimit \<and> d4 = Allow)"

definition banned_peer_is_rejected_even_under_the_connection_limit ::
  "(nat \<Rightarrow> nat) \<Rightarrow> 'p \<Rightarrow> bool"
where
  "banned_peer_is_rejected_even_under_the_connection_limit clock peer =
     (let guard = peer_guard_new :: ('p, unit) peer_guard;
          (_, guard) = violate_times clock 0 (unat MAX_VIOLATIONS_BEFORE_BAN) peer guard;
          (banned, guard) = is_banned (clock 5) guard peer;
          (d, guard) = on_connection_established (clock 6) guard peer None
      in banned \<and> d = RejectAlreadyBanned)"

definition violations_below_threshold_do_not_ban :: "(nat \<Rightarrow> nat) \<Rightarrow> 'p \<Rightarrow> bool" where
  "violations_below_threshold_do_not_ban clock peer =
     (let guard = peer_guard_new :: ('p, unit) peer_guard;
          (reported, guard) = violate_times clock 0 (unat MAX_VIOLATIONS_BEFORE_BAN - 1) peer guard;
          (banned, guard) = is_banned (clock 4) guard peer
      in list_all Not reported \<and> \<not> banned)"

definition the_violation_that_crosses_the_threshold_reports_true ::
  "(nat \<Rightarrow> nat) \<Rightarrow> 'p \<Rightarrow> bool"
where
  "the_violation_that_crosses_the_threshold_reports_true clock peer =
     (let guard = peer_guard_new :: ('p, unit) peer_guard;
          (_, guard) = violate_times clock 0 (unat MAX_VIOLATIONS_BEFORE_BAN - 1) peer guard
      in fst (record_violation (clock 4) guard peer))"

definition unban_clears_both_the_ban_and_the_violation_count :: "(nat \<Rightarrow> nat) \<Rightarrow> 'p \<Rightarrow> bool" where
  "unban_clears_both_the_ban_and_the_violation_count clock peer =
     (let guard = peer_guard_new :: ('p, unit) peer_guard;
          (_, guard) = violate_times clock 0 (unat MAX_VIOLATIONS_BEFORE_BAN) peer guard;
          (banned, guard) = is_banned (clock 5) guard peer;
          guard = unban guard peer;
          (still, guard) = is_banned (clock 6) guard peer
      in banned \<and> \<not> still \<and> \<not> fst (record_violation (clock 7) guard peer))"

definition currently_banned_reports_active_bans :: "(nat \<Rightarrow> nat) \<Rightarrow> 'p \<Rightarrow> bool" where
  "currently_banned_reports_active_bans clock peer =
     (let guard = peer_guard_new :: ('p, unit) peer_guard;
          before = currently_banned (clock 0) guard;
          (_, guard) = violate_times clock 1 (unat MAX_VIOLATIONS_BEFORE_BAN) peer guard
      in before = {} \<and> peer \<in> currently_banned (clock 6) guard)"

text \<open>The tests about bans assume what a test run gives them: less than an hour passes.\<close>

definition within_the_hour :: "(nat \<Rightarrow> nat) \<Rightarrow> bool" where
  "within_the_hour clock \<longleftrightarrow> (\<forall>i j. clock j < clock i + BAN_DURATION)"

lemma violate_times_numeral:
  "violate_times clock i (numeral k) peer g =
     (case record_violation (clock i) g peer of (b, g) \<Rightarrow>
        case violate_times clock (Suc i) (pred_numeral k) peer g of (bs, g) \<Rightarrow> (b # bs, g))"
  by (simp add: numeral_eq_Suc)

lemmas guard_test_eval = peer_guard_new_def on_connection_established_def is_banned_def
  on_connection_closed_def release_def record_violation_def unban_def currently_banned_def
  saturating_sub_def get_or_def MAX_CONNECTIONS_PER_PEER_def MAX_TOTAL_CONNECTIONS_def
  MAX_VIOLATIONS_BEFORE_BAN_def violate_times_numeral word_le_nat_alt Let_def

lemma connection_tests:
  "allows_connections_up_to_the_per_peer_limit_then_rejects clock peer"
  "closing_a_connection_frees_up_room_for_a_new_one clock peer"
  by (simp_all add: allows_connections_up_to_the_per_peer_limit_then_rejects_def
      closing_a_connection_frees_up_room_for_a_new_one_def guard_test_eval)

lemma threshold_tests:
  "violations_below_threshold_do_not_ban clock peer"
  "the_violation_that_crosses_the_threshold_reports_true clock peer"
  by (simp_all add: violations_below_threshold_do_not_ban_def
      the_violation_that_crosses_the_threshold_reports_true_def guard_test_eval)

lemma ban_tests:
  assumes "within_the_hour clock"
  shows "banned_peer_is_rejected_even_under_the_connection_limit clock peer"
    and "unban_clears_both_the_ban_and_the_violation_count clock peer"
    and "currently_banned_reports_active_bans clock peer"
  using assms unfolding within_the_hour_def
  by (simp_all add: banned_peer_is_rejected_even_under_the_connection_limit_def
      unban_clears_both_the_ban_and_the_violation_count_def
      currently_banned_reports_active_bans_def guard_test_eval)

section \<open>The RPC server\<close>

text \<open>
  The tests build their requests with \<^verbatim>\<open>hex::encode\<close> and \<^verbatim>\<open>json!\<close>: the hexadecimal form of bytes,
  a number, and an object with a single member.
\<close>

record 'j request_builder =
  rb_hex :: "u8 list \<Rightarrow> string"
  json_number :: "nat \<Rightarrow> 'j"
  json_address :: "string \<Rightarrow> 'j"
  json_tx_id :: "string \<Rightarrow> 'j"

definition builds_requests_of :: "'j rpc_codec \<Rightarrow> 'j request_builder \<Rightarrow> bool" where
  "builds_requests_of codec json \<longleftrightarrow>
     (\<forall>bytes. unhex codec (rb_hex json bytes) = Some bytes) \<and>
     (\<forall>text. address_param codec (json_address json text) = Some text) \<and>
     (\<forall>text. tx_id_param codec (json_tx_id json text) = Some text)"

definition accepts_a_valid_signed_transaction ::
  "('pk, 'sk, 'sg) dilithium_keys \<Rightarrow> digest \<Rightarrow> 'j rpc_codec \<Rightarrow> 'j request_builder \<Rightarrow> nat \<Rightarrow> bool"
where
  "accepts_a_valid_signed_transaction lib sha codec json i =
     (let keys = generate lib i;
          from = derive_address (verifier lib) sha (kp_public keys);
          to = fill 9;
          tx = \<lparr>sender = from, recipient = to, amount = 1, tx_nonce = 0,
                public_key = public_key_bytes lib keys, signature = []\<rparr>;
          sg = sign_message lib (transaction_payload tx) (kp_secret keys);
          params = \<lparr>sp_sender = rb_hex json (bytes_of from),
            sp_recipient = rb_hex json (bytes_of to), sp_amount = 1, sp_nonce = 0,
            sp_public_key = rb_hex json (public_key tx), sp_signature = rb_hex json sg\<rparr>
      in case build_transaction (verifier lib) sha codec params of Inl _ \<Rightarrow> False | Inr _ \<Rightarrow> True)"

definition rejects_a_signature_from_the_wrong_address ::
  "('pk, 'sk, 'sg) dilithium_keys \<Rightarrow> digest \<Rightarrow> 'j rpc_codec \<Rightarrow> 'j request_builder \<Rightarrow> nat \<Rightarrow> bool"
where
  "rejects_a_signature_from_the_wrong_address lib sha codec json i =
     (let keys = generate lib i;
          params = \<lparr>sp_sender = rb_hex json (bytes_of (fill 1)),
            sp_recipient = rb_hex json (bytes_of (fill 2)), sp_amount = 1, sp_nonce = 0,
            sp_public_key = rb_hex json (public_key_bytes lib keys),
            sp_signature = rb_hex json
              (sign_message lib (ascii_bytes ''wrong payload'') (kp_secret keys))\<rparr>
      in case build_transaction (verifier lib) sha codec params of Inl _ \<Rightarrow> True | Inr _ \<Rightarrow> False)"

text \<open>A request on the empty mempool and ledger, and the response it gets.\<close>

definition ask ::
  "('pk, 'sg) dilithium \<Rightarrow> digest \<Rightarrow> 'j rpc_codec \<Rightarrow> string option \<Rightarrow> 'j \<Rightarrow> string \<Rightarrow> 'j option \<Rightarrow>
     string option \<Rightarrow> rpc_response"
where
  "ask lib sha codec configured ident name params given =
     snd (fst (dispatch lib sha codec configured ledger_default
       \<lparr>rq_id = Some ident, rq_method = name, rq_params = params, rq_token = given\<rparr> mempool_new))"

definition get_balance_reflects_ledger_state ::
  "('pk, 'sg) dilithium \<Rightarrow> digest \<Rightarrow> 'j rpc_codec \<Rightarrow> 'j request_builder \<Rightarrow> bool"
where
  "get_balance_reflects_ledger_state lib sha codec json \<longleftrightarrow>
     ask lib sha codec None (json_number json 1) ''get_balance''
       (Some (json_address json (rb_hex json (bytes_of (fill 7))))) None = Balance 0"

definition transaction_status_distinguishes_pending_confirmed_and_unknown ::
  "('pk, 'sg) dilithium \<Rightarrow> digest \<Rightarrow> 'j rpc_codec \<Rightarrow> 'j request_builder \<Rightarrow> bool"
where
  "transaction_status_distinguishes_pending_confirmed_and_unknown lib sha codec json \<longleftrightarrow>
     ask lib sha codec None (json_number json 1) ''transaction_status''
       (Some (json_tx_id json (rb_hex json (bytes_of (fill 1))))) None = Status Unknown"

definition version_reports_the_rpc_api_version ::
  "('pk, 'sg) dilithium \<Rightarrow> digest \<Rightarrow> 'j rpc_codec \<Rightarrow> 'j request_builder \<Rightarrow> bool"
where
  "version_reports_the_rpc_api_version lib sha codec json \<longleftrightarrow>
     ask lib sha codec None (json_number json 1) ''version'' None None = RpcVersion"

fun is_error :: "rpc_response \<Rightarrow> bool" where
  "is_error (RpcError e) = True"
| "is_error r = False"

definition auth_token_gates_every_method_except_version ::
  "('pk, 'sg) dilithium \<Rightarrow> digest \<Rightarrow> 'j rpc_codec \<Rightarrow> 'j request_builder \<Rightarrow> bool"
where
  "auth_token_gates_every_method_except_version lib sha codec json \<longleftrightarrow>
     (let configured = Some ''s3cret'';
          number = json_number json;
          response = ask lib sha codec configured (number 1) ''mempool_size'' None None;
          wrong = ask lib sha codec configured (number 2) ''mempool_size'' None (Some ''wrong'');
          right = ask lib sha codec configured (number 3) ''mempool_size'' None (Some ''s3cret'');
          version = ask lib sha codec configured (number 4) ''version'' None None
      in is_error response \<and> is_error wrong \<and> right = MempoolSize 0 \<and> version = RpcVersion)"

definition rate_limiter_allows_up_to_the_limit_then_rejects_within_the_same_window ::
  "(nat \<Rightarrow> nat) \<Rightarrow> bool"
where
  "rate_limiter_allows_up_to_the_limit_then_rejects_within_the_same_window clock =
     (let limiter = rate_limiter_new (clock 0) 3;
          (b1, limiter) = rate_check (clock 1) limiter;
          (b2, limiter) = rate_check (clock 2) limiter;
          (b3, limiter) = rate_check (clock 3) limiter;
          (b4, limiter) = rate_check (clock 4) limiter
      in b1 \<and> b2 \<and> b3 \<and> \<not> b4)"

lemma parse_encoded:
  "builds_requests_of codec json \<Longrightarrow>
     parse_fixed_bytes codec (rb_hex json (bytes_of a)) field = Inr a"
  by (simp add: builds_requests_of_def parse_fixed_bytes_def bytes_of_inverse)

lemma parse_encoded_fill:
  "builds_requests_of codec json \<Longrightarrow>
     parse_fixed_bytes codec (rb_hex json (replicate 32 b)) field = Inr (fill b)"
  using parse_encoded [of codec json "fill b"] by simp

lemma signed_request_test:
  assumes lib: "dilithium_ok lib" and json: "builds_requests_of codec json"
  shows "accepts_a_valid_signed_transaction lib sha codec json i"
proof -
  let ?tx = "signed_transfer lib sha (generate lib i) (fill 9) 1 0"
  have "verify_transaction_signature (verifier lib) sha (sender ?tx) (fill 9) 1 0 (public_key ?tx)
      (signature ?tx)"
    using signed_transfer_signed [OF lib, of sha i "fill 9" 1 0] by (simp add: tx_signed_def)
  then show ?thesis
    using json
    by (simp add: accepts_a_valid_signed_transaction_def build_transaction_def
        parse_encoded [OF json] parse_encoded_fill [OF json] builds_requests_of_def signed_transfer_def Let_def)
qed

lemma wrong_address_test:
  assumes lib: "dilithium_ok lib" and json: "builds_requests_of codec json"
    and sender: "derive_address (verifier lib) sha (kp_public (generate lib i)) \<noteq> fill 1"
  shows "rejects_a_signature_from_the_wrong_address lib sha codec json i"
proof -
  have "pk_from_bytes (verifier lib) (public_key_bytes lib (generate lib i)) =
      Some (kp_public (generate lib i))"
    using lib by (simp add: dilithium_ok_def public_key_bytes_def)
  then show ?thesis
    using json sender
    by (simp add: rejects_a_signature_from_the_wrong_address_def build_transaction_def
        parse_encoded_fill [OF json] builds_requests_of_def verify_transaction_signature_def Let_def)
qed

lemma query_tests:
  assumes "builds_requests_of codec json"
  shows "get_balance_reflects_ledger_state lib sha codec json"
    and "transaction_status_distinguishes_pending_confirmed_and_unknown lib sha codec json"
    and "version_reports_the_rpc_api_version lib sha codec json"
    and "auth_token_gates_every_method_except_version lib sha codec json"
  using assms parse_encoded_fill [OF assms]
  by (simp_all add: get_balance_reflects_ledger_state_def
      transaction_status_distinguishes_pending_confirmed_and_unknown_def
      version_reports_the_rpc_api_version_def auth_token_gates_every_method_except_version_def
      ask_def dispatch_def builds_requests_of_def ledger_balance_def ledger_default_def
      has_confirmed_def mempool_new_def get_or_def Let_def)

text \<open>The five readings of the clock fall into one second.\<close>

lemma limiter_test:
  assumes "\<And>i j. clock j < clock i + 1000000000"
  shows "rate_limiter_allows_up_to_the_limit_then_rejects_within_the_same_window clock"
proof -
  have "\<not> 1000000000 \<le> clock j - clock i" for i j using assms [of j i] by linarith
  then show ?thesis
    by (simp add: rate_limiter_allows_up_to_the_limit_then_rejects_within_the_same_window_def
        rate_limiter_new_def rate_check_def word_le_nat_alt Let_def)
qed

section \<open>The network configuration\<close>

definition test_config :: bootstrap_config where
  "test_config =
     \<lparr>bc_network = ''testnet'', bc_network_id = 2,
      bc_genesis_hash = concat (replicate 8 ''deadbeef''),
      bc_seeds = [''/ip4/127.0.0.1/tcp/4001''], bc_signing_key = [], bc_signature = []\<rparr>"

text \<open>\<open>key\<close> is \<^verbatim>\<open>SigningKey::from_bytes\<close>.\<close>

definition bootstrap_signature_round_trips ::
  "('vk, 'es, 'ek) config_library \<Rightarrow> (u8 list \<Rightarrow> 'ek) \<Rightarrow> bool"
where
  "bootstrap_signature_round_trips lib key \<longleftrightarrow>
     (let secret = key (replicate 32 7); cfg = with_signature lib test_config secret
      in config_verifies lib cfg)"

text \<open>
  The text written to the file is \<^verbatim>\<open>serde_json::to_string_pretty\<close>'s.  The directory that the test
  makes and removes is not modelled, a path is a name.
\<close>

definition bootstrap_config_loads_from_explicit_path ::
  "('vk, 'es, 'ek) config_library \<Rightarrow> (u8 list \<Rightarrow> 'ek) \<Rightarrow> (bootstrap_config \<Rightarrow> u8 list) \<Rightarrow> digest \<Rightarrow>
     surroundings \<Rightarrow> string \<Rightarrow> 'o world \<Rightarrow> bool"
where
  "bootstrap_config_loads_from_explicit_path lib key pretty sha env dir w =
     (let path = dir @ ''/bootstrap.testnet.json'';
          secret = key (replicate 32 9);
          cfg = with_signature lib test_config secret
      in case write_file env path (pretty cfg) w of
           (Inl _, _) \<Rightarrow> False
         | (Inr _, w) \<Rightarrow>
             (case load_bootstrap_config_from_path lib sha env path ''testnet'' w of
                (Inl _, _) \<Rightarrow> False
              | (Inr loaded, _) \<Rightarrow>
                  bc_network loaded = ''testnet'' \<and> length (bc_seeds loaded) = 1 \<and>
                  config_verifies lib loaded))"

definition genesis_hash_for_network_actually_depends_on_the_network :: "digest \<Rightarrow> bool" where
  "genesis_hash_for_network_actually_depends_on_the_network sha \<longleftrightarrow>
     (let devnet = genesis_hash_of_network sha ''devnet'';
          testnet = genesis_hash_of_network sha ''testnet'';
          mainnet = genesis_hash_of_network sha ''mainnet''
      in devnet \<noteq> testnet \<and> devnet \<noteq> mainnet \<and> testnet \<noteq> mainnet)"

lemma signature_test: "config_library_ok lib \<Longrightarrow> bootstrap_signature_round_trips lib key"
  by (simp add: bootstrap_signature_round_trips_def Let_def with_signature_verifies)

text \<open>The pretty printer is read back like the compact one, and no file operation fails.\<close>

lemma explicit_path_test:
  assumes lib: "config_library_ok lib"
    and pretty: "\<And>c. config_of_json lib (map (\<lambda>b. char_of (unat b)) (pretty c)) = Some c"
      "\<And>c. valid_utf8 (map unat (pretty c))"
    and io: "\<And>n. io_fault env n = None"
  shows "bootstrap_config_loads_from_explicit_path lib key pretty sha env dir w"
proof -
  let ?cfg = "with_signature lib test_config (key (replicate 32 9))"
    and ?path = "dir @ ''/bootstrap.testnet.json''"
  let ?w = "step_io (put_file ?path (pretty ?cfg) (mode_of w ?path) w)"
  have "write_file env ?path (pretty ?cfg) w = (Inr (), ?w)"
    using io by (simp add: write_file_Inr_iff)
  moreover have "read_text env ?path ?w = (Inr (map (\<lambda>b. char_of (unat b)) (pretty ?cfg)), step_io ?w)"
    using io pretty(2) by (simp add: read_text_def and_then_def read_file_def returns_def)
  ultimately show ?thesis
    using with_signature_verifies [OF lib]
    by (simp add: bootstrap_config_loads_from_explicit_path_def load_bootstrap_config_from_path_def
        pretty(1) test_config_def Let_def)
qed

lemma network_genesis_test: "genesis_hash_for_network_actually_depends_on_the_network sha3_256"
  using genesis_test
  by (simp add: genesis_hash_for_network_actually_depends_on_the_network_def
      genesis_hash_differs_per_network_def genesis_hash_of_network_def resolve_network_id_def
      Let_def)

end
