(* ===== verification/Swarm_Setup.thy ===== *)
theory Swarm_Setup
  imports Boot_Facts Complex_Main
begin

text \<open>
  The swarm of the node (\<^verbatim>\<open>behaviour.rs\<close> and the builder of \<^verbatim>\<open>main.rs\<close>): the gossip configuration,
  the peer scores, the three behaviours and the subscription, with every step that may fail.  The
  steps themselves are libp2p's: what they accept is what the fields of \<open>swarm_crates\<close> say.  Scores
  are the decimal numbers of the source.
\<close>

section \<open>Configuration\<close>

record gossip_config =
  heartbeat_interval :: nat
  max_transmit_size :: nat
  mesh_n_low :: nat
  mesh_n :: nat
  mesh_n_high :: nat
  mesh_outbound_min :: nat
  strict_validation :: bool

record score_params =
  topic_score_cap :: rat
  app_specific_weight :: rat
  ip_colocation_factor_weight :: rat
  ip_colocation_factor_threshold :: rat
  behaviour_penalty_weight :: rat
  behaviour_penalty_threshold :: rat
  behaviour_penalty_decay :: rat
  decay_interval :: nat
  decay_to_zero :: rat
  retain_score :: nat

record score_thresholds =
  gossip_threshold :: rat
  publish_threshold :: rat
  graylist_threshold :: rat
  accept_px_threshold :: rat
  opportunistic_graft_threshold :: rat

text \<open>The builder starts from the library's defaults.\<close>

definition node_gossip_config :: "gossip_config \<Rightarrow> gossip_config" where
  "node_gossip_config defaults = defaults
     \<lparr>max_transmit_size := 2 * 1024 * 1024, mesh_n_low := 1, mesh_n := 4, mesh_n_high := 8,
      mesh_outbound_min := 1, strict_validation := True\<rparr>"

definition node_score_params :: "score_params \<Rightarrow> score_params" where
  "node_score_params defaults = defaults
     \<lparr>topic_score_cap := 2048, app_specific_weight := 10,
      ip_colocation_factor_weight := -20, ip_colocation_factor_threshold := 2,
      behaviour_penalty_weight := -20, behaviour_penalty_threshold := 2,
      behaviour_penalty_decay := 2 / 10, decay_interval := 10, decay_to_zero := 1 / 10,
      retain_score := 1800\<rparr>"

definition node_score_thresholds :: score_thresholds where
  "node_score_thresholds =
     \<lparr>gossip_threshold = -10, publish_threshold = -30, graylist_threshold = -60,
      accept_px_threshold = 15, opportunistic_graft_threshold = 25\<rparr>"

section \<open>Building the swarm\<close>

record 'k swarm_crates =
  gossip_defaults :: gossip_config
  score_defaults :: score_params
  tcp_sets_up :: "'k \<Rightarrow> bool"
  config_builds :: "gossip_config \<Rightarrow> bool"
  gossip_starts :: "'k \<Rightarrow> gossip_config \<Rightarrow> bool"
  scores_accepted :: "score_params \<Rightarrow> score_thresholds \<Rightarrow> bool"
  mdns_starts :: "'k \<Rightarrow> bool"
  subscribes :: "string \<Rightarrow> bool"

datatype set_up_error =
    TcpFailed | ConfigRejected | GossipFailed | ScoresRejected | MdnsFailed | SubscribeFailed
  | AddressRejected | ListenFailed

text \<open>
  The swarm with its composed behaviour: gossip with its scores, discovery, the synchronisation
  protocol and the subscribed topics.
\<close>

record 'k swarm =
  sw_identity :: 'k
  sw_gossip :: gossip_config
  sw_scores :: "(score_params \<times> score_thresholds) option"
  sw_sync_protocol :: "string option"
  sw_idle_timeout :: nat
  sw_topics :: "string list"

definition build_behaviour ::
  "'k swarm_crates \<Rightarrow> 'k \<Rightarrow> (set_up_error, gossip_config \<times> score_params \<times> string) result"
where
  "build_behaviour sc key =
     (let config = node_gossip_config (gossip_defaults sc);
          scores = node_score_params (score_defaults sc)
      in if \<not> config_builds sc config then Inl ConfigRejected
         else if \<not> gossip_starts sc key config then Inl GossipFailed
         else if \<not> scores_accepted sc scores node_score_thresholds then Inl ScoresRejected
         else if \<not> mdns_starts sc key then Inl MdnsFailed
         else Inr (config, scores, ''/velodag/sync/1''))"

definition build_swarm :: "'k swarm_crates \<Rightarrow> 'k \<Rightarrow> (set_up_error, 'k swarm) result" where
  "build_swarm sc local_key =
     (if \<not> tcp_sets_up sc local_key then Inl TcpFailed else
      case build_behaviour sc local_key of
        Inl e \<Rightarrow> Inl e
      | Inr (config, scores, sync) \<Rightarrow>
          if \<not> subscribes sc GOSSIP_TOPIC then Inl SubscribeFailed
          else Inr \<lparr>sw_identity = local_key, sw_gossip = config,
                 sw_scores = Some (scores, node_score_thresholds), sw_sync_protocol = Some sync,
                 sw_idle_timeout = 60, sw_topics = [GOSSIP_TOPIC]\<rparr>)"

text \<open>The field of the boot model that stands for these steps.\<close>

definition with_set_up :: "'k swarm_crates \<Rightarrow> ('k, 'm) swarm_library \<Rightarrow> ('k, 'm) swarm_library" where
  "with_set_up sc net = net\<lparr>swarm_set_up := (\<lambda>key. case build_swarm sc key of Inl _ \<Rightarrow> False | Inr _ \<Rightarrow> True)\<rparr>"

section \<open>What libp2p documents\<close>

text \<open>
  The mesh parameters are ordered, the outbound minimum is at most half the mesh, and a message
  can hold at least 100 bytes; score weights that penalise are not positive, decays lie strictly
  between zero and one, and thresholds are ordered by severity.
\<close>

definition mesh_valid :: "gossip_config \<Rightarrow> bool" where
  "mesh_valid c \<longleftrightarrow>
     mesh_outbound_min c \<le> mesh_n_low c \<and> mesh_n_low c \<le> mesh_n c \<and> mesh_n c \<le> mesh_n_high c \<and>
     2 * mesh_outbound_min c \<le> mesh_n c \<and> 100 \<le> max_transmit_size c"

definition scores_valid :: "score_params \<Rightarrow> score_thresholds \<Rightarrow> bool" where
  "scores_valid p t \<longleftrightarrow>
     0 \<le> topic_score_cap p \<and> ip_colocation_factor_weight p \<le> 0 \<and>
     1 \<le> ip_colocation_factor_threshold p \<and> behaviour_penalty_weight p \<le> 0 \<and>
     0 < behaviour_penalty_decay p \<and> behaviour_penalty_decay p < 1 \<and> 1 \<le> decay_interval p \<and>
     0 < decay_to_zero p \<and> decay_to_zero p < 1 \<and>
     gossip_threshold t \<le> 0 \<and> publish_threshold t \<le> gossip_threshold t \<and>
     graylist_threshold t \<le> publish_threshold t \<and> 0 \<le> accept_px_threshold t \<and>
     0 \<le> opportunistic_graft_threshold t"

definition accepts_valid :: "'k swarm_crates \<Rightarrow> bool" where
  "accepts_valid sc \<longleftrightarrow>
     (\<forall>c. mesh_valid c \<longrightarrow> config_builds sc c) \<and>
     (\<forall>p t. scores_valid p t \<longrightarrow> scores_accepted sc p t)"

lemma node_mesh_valid: "mesh_valid (node_gossip_config d)"
  by (simp add: mesh_valid_def node_gossip_config_def)

text \<open>
  The override of the outbound minimum is needed: with the library's minimum of two the lowered
  mesh would be refused.
\<close>

lemma outbound_override_needed:
  "mesh_outbound_min d = 2 \<Longrightarrow>
     \<not> mesh_valid ((node_gossip_config d)\<lparr>mesh_outbound_min := mesh_outbound_min d\<rparr>)"
  by (simp add: mesh_valid_def node_gossip_config_def)

lemma node_scores_valid: "scores_valid (node_score_params d) node_score_thresholds"
  by (simp add: scores_valid_def node_score_params_def node_score_thresholds_def)

section \<open>The swarm of a running node\<close>

lemma build_swarm_ok:
  assumes "accepts_valid sc" and "tcp_sets_up sc key" and "\<And>c. gossip_starts sc key c"
    and "mdns_starts sc key" and "subscribes sc GOSSIP_TOPIC"
  shows "\<exists>sw. build_swarm sc key = Inr sw"
  using assms node_mesh_valid node_scores_valid
  by (simp add: build_swarm_def build_behaviour_def accepts_valid_def Let_def)

lemma build_swarm_parts:
  assumes "build_swarm sc key = Inr sw"
  shows "sw_identity sw = key" and "max_transmit_size (sw_gossip sw) = MAX_GOSSIP_MESSAGE_BYTES"
    and "strict_validation (sw_gossip sw)" and "sw_topics sw = [GOSSIP_TOPIC]"
  using assms
  by (auto simp: build_swarm_def build_behaviour_def node_gossip_config_def Let_def
      MAX_GOSSIP_MESSAGE_BYTES_def split: if_splits sum.splits)

text \<open>
  What the swarm lets through is never too large for the handler: the transport limit and the
  handler's limit are the same number.
\<close>

lemma transported_message_fits:
  "build_swarm sc key = Inr sw \<Longrightarrow> length (gm_data message) \<le> max_transmit_size (sw_gossip sw) \<Longrightarrow>
     \<not> length (gm_data message) > MAX_GOSSIP_MESSAGE_BYTES"
  by (simp add: build_swarm_parts(2))

lemma joined_with_swarm:
  assumes "cr_swarm cr = with_set_up sc net"
    and "join_network cr sha sur cli name w = (Inr (key, dials), w')"
  shows "\<exists>sw. build_swarm sc key = Inr sw"
  using assms
  by (auto simp: join_network_def with_set_up_def or_swarm_fails_def io_ok
      split: if_splits sum.splits)

lemma running_swarm:
  assumes "cr_swarm cr = with_set_up sc net"
    and "main_program cr env sur args w st = (Running r, w')"
  obtains sw where "build_swarm sc (la_identity r) = Inr sw" "sw_identity sw = la_identity r"
    "sw_topics sw = [GOSSIP_TOPIC]"
proof -
  from assms(2) obtain cli w1 where
    "join_network cr (sha3 env) sur cli (resolve_network_environment sur) w =
       (Inr (la_identity r, la_dials r), w1)"
    by (rule main_Running) blast
  from joined_with_swarm [OF assms(1) this] obtain sw where "build_swarm sc (la_identity r) = Inr sw"
    by blast
  with build_swarm_parts [OF this] that show thesis by blast
qed

end
