(* ===== verification/P2p_Engine.thy ===== *)
theory P2p_Engine
  imports Swarm_Setup Node_Events
begin

text \<open>
  The earlier network engine of the repository, \<^verbatim>\<open>vdag-network/src/lib.rs\<close>: a swarm of its own with
  a fresh identity, discovery and gossip, and an event loop that reports what it sees.  The node
  does not use it.  The loop is a function of one event, folded over the events of the swarm.
\<close>

section \<open>Starting\<close>

datatype ('p, 'm, 'i) engine_line =
    Node_Id 'p
  | Listening_On_4001
  | Found_Peer 'p 'm
  | Lost_Peer 'p
  | Received_Data 'i 'p

definition engine_gossip_config :: "gossip_config \<Rightarrow> gossip_config" where
  "engine_gossip_config defaults = defaults\<lparr>heartbeat_interval := 1, strict_validation := True\<rparr>"

definition build_engine :: "'k swarm_crates \<Rightarrow> 'k \<Rightarrow> (set_up_error, 'k swarm) result" where
  "build_engine sc local_key =
     (let config = engine_gossip_config (gossip_defaults sc)
      in if \<not> tcp_sets_up sc local_key then Inl TcpFailed
         else if \<not> config_builds sc config then Inl ConfigRejected
         else if \<not> gossip_starts sc local_key config then Inl GossipFailed
         else if \<not> mdns_starts sc local_key then Inl MdnsFailed
         else if \<not> subscribes sc ''vdag-blocks'' then Inl SubscribeFailed
         else Inr \<lparr>sw_identity = local_key, sw_gossip = config, sw_scores = None,
                sw_sync_protocol = None, sw_idle_timeout = 60, sw_topics = [''vdag-blocks'']\<rparr>)"

text \<open>The result, and what was printed; the loop is spawned when the result is a swarm.\<close>

definition start_p2p_engine ::
  "'k swarm_crates \<Rightarrow> ('k \<Rightarrow> 'p) \<Rightarrow> (string \<Rightarrow> 'm option) \<Rightarrow> ('m \<Rightarrow> bool) \<Rightarrow> 'k \<Rightarrow>
     (set_up_error, 'k swarm) result \<times> ('p, 'm, 'i) engine_line list"
where
  "start_p2p_engine sc peer_id parse listen local_key =
     (let out = [Node_Id (peer_id local_key)] in
      case build_engine sc local_key of
        Inl e \<Rightarrow> (Inl e, out)
      | Inr sw \<Rightarrow>
          (case parse ''/ip4/0.0.0.0/tcp/4001'' of
             None \<Rightarrow> (Inl AddressRejected, out)
           | Some addr \<Rightarrow>
               if \<not> listen addr then (Inl ListenFailed, out)
               else (Inr sw, out @ [Listening_On_4001])))"

section \<open>The event loop\<close>

datatype ('p, 'm, 'i) engine_event =
    Discovered "('p \<times> 'm) list"
  | Expired "('p \<times> 'm) list"
  | Message 'p 'i
  | Ignored

record ('p, 'm, 'i) engine =
  en_lines :: "('p, 'm, 'i) engine_line list"
  en_dialled :: "'m list"

definition engine_step ::
  "('p, 'm, 'i) engine \<Rightarrow> ('p, 'm, 'i) engine_event \<Rightarrow> ('p, 'm, 'i) engine"
where
  "engine_step en event =
     (case event of
        Discovered found \<Rightarrow>
          foldl (\<lambda>en (peer, addr).
            en\<lparr>en_lines := en_lines en @ [Found_Peer peer addr],
               en_dialled := en_dialled en @ [addr]\<rparr>) en found
      | Expired lost \<Rightarrow>
          foldl (\<lambda>en (peer, addr). en\<lparr>en_lines := en_lines en @ [Lost_Peer peer]\<rparr>) en lost
      | Message source ident \<Rightarrow> en\<lparr>en_lines := en_lines en @ [Received_Data ident source]\<rparr>
      | Ignored \<Rightarrow> en)"

definition engine_run ::
  "('p, 'm, 'i) engine_event list \<Rightarrow> ('p, 'm, 'i) engine \<Rightarrow> ('p, 'm, 'i) engine"
where
  "engine_run events en = foldl engine_step en events"

section \<open>What it does\<close>

text \<open>The history of the swarm determines what was dialled and printed.\<close>

fun event_dials :: "('p, 'm, 'i) engine_event \<Rightarrow> 'm list" where
  "event_dials (Discovered found) = map snd found"
| "event_dials e = []"

fun event_lines :: "('p, 'm, 'i) engine_event \<Rightarrow> ('p, 'm, 'i) engine_line list" where
  "event_lines (Discovered found) = map (\<lambda>(p, m). Found_Peer p m) found"
| "event_lines (Expired lost) = map (\<lambda>(p, m). Lost_Peer p) lost"
| "event_lines (Message p i) = [Received_Data i p]"
| "event_lines Ignored = []"

lemma discovered_fold:
  "foldl (\<lambda>en (peer, addr).
      en\<lparr>en_lines := en_lines en @ [Found_Peer peer addr], en_dialled := en_dialled en @ [addr]\<rparr>) en found =
   en\<lparr>en_lines := en_lines en @ map (\<lambda>(p, m). Found_Peer p m) found,
      en_dialled := en_dialled en @ map snd found\<rparr>"
  by (induction found arbitrary: en) auto

lemma expired_fold:
  "foldl (\<lambda>en (peer, addr). en\<lparr>en_lines := en_lines en @ [Lost_Peer peer]\<rparr>) en lost =
   en\<lparr>en_lines := en_lines en @ map (\<lambda>(p, m). Lost_Peer p) lost\<rparr>"
  by (induction lost arbitrary: en) auto

lemma engine_step_eq:
  "engine_step en e =
     en\<lparr>en_lines := en_lines en @ event_lines e, en_dialled := en_dialled en @ event_dials e\<rparr>"
  by (cases e) (simp_all add: engine_step_def discovered_fold expired_fold)

lemma engine_run_eq:
  "engine_run es en =
     en\<lparr>en_lines := en_lines en @ concat (map event_lines es),
        en_dialled := en_dialled en @ concat (map event_dials es)\<rparr>"
  by (induction es arbitrary: en) (simp_all add: engine_run_def engine_step_eq)

text \<open>It starts exactly when its swarm can be built and port 4001 can be listened on.\<close>

lemma engine_starts_iff:
  "(\<exists>sw. fst (start_p2p_engine sc peer_id parse listen key) = Inr sw) \<longleftrightarrow>
     (\<exists>sw. build_engine sc key = Inr sw) \<and>
     (\<exists>addr. parse ''/ip4/0.0.0.0/tcp/4001'' = Some addr \<and> listen addr)"
  by (auto simp: start_p2p_engine_def Let_def split: sum.split option.split)

section \<open>Beside the node\<close>

text \<open>The node's view of the events the engine matches; a message identifier is computed by the
  library.\<close>

fun engine_view :: "(gossip_message \<Rightarrow> 'i) \<Rightarrow> 'p swarm_event \<Rightarrow> ('p, multiaddr, 'i) engine_event" where
  "engine_view ident (Gossip_Message source message) = Message source (ident message)"
| "engine_view ident (Mdns_Discovered found) = Discovered found"
| "engine_view ident (Mdns_Expired lost) = Expired lost"
| "engine_view ident e = Ignored"

fun dials_of :: "'p action list \<Rightarrow> multiaddr list" where
  "dials_of [] = []"
| "dials_of (DialAddress m # acts) = m # dials_of acts"
| "dials_of (_ # acts) = dials_of acts"

lemma dials_of_append [simp]: "dials_of (as @ bs) = dials_of as @ dials_of bs"
  by (induction as rule: dials_of.induct) simp_all

fun discovery :: "'p swarm_event \<Rightarrow> bool" where
  "discovery (Mdns_Discovered found) = True"
| "discovery (Mdns_Expired lost) = True"
| "discovery e = False"

lemma emit_outbox [simp]: "n_outbox (emit a nd) = n_outbox nd @ [a]"
  by (simp add: emit_def)

lemma node_discovery_dials:
  "dials_of (n_outbox (foldl (\<lambda>nd (peer, addr). emit (DialAddress addr) (emit (AddExplicitPeer peer) nd)) nd ps)) =
     dials_of (n_outbox nd) @ map snd ps"
  "dials_of (n_outbox (foldl (\<lambda>nd (peer, addr). emit (RemoveExplicitPeer peer) nd) nd ps)) =
     dials_of (n_outbox nd)"
  by (induction ps arbitrary: nd) auto

text \<open>On discovery events the node dials what the engine dials.\<close>

lemma node_dials_like_engine:
  assumes "discovery e" and "handle_p2p_events env gh net e nd = (r, nd')"
  shows "r = Inr () \<and>
    dials_of (n_outbox nd') = dials_of (n_outbox nd) @ event_dials (engine_view ident e)"
  using assms by (cases e) (auto simp: handle_p2p_events_def node_discovery_dials)

end
