(* ===== verification/Spec2Isabelle.thy ===== *)
theory Spec2Isabelle
  imports Ledger_Properties Dag_Properties Consensus_Properties Node_Properties Service_Properties
    Progress_Example Boot_Example Gossip_Example Node_Tests P2p_Engine
begin

text \<open>
  A verification development of the node of a proof-of-work block DAG in Rust: the consensus
  library \<^verbatim>\<open>vdag-consensus\<close>, the signatures of \<^verbatim>\<open>vdag-crypto\<close> and the node \<^verbatim>\<open>vdag-node\<close> that runs
  them behind a libp2p swarm and a JSON-RPC server.
\<close>

section \<open>The program\<close>

text \<open>
  A block (\<^verbatim>\<open>vdag-consensus/src/lib.rs\<close>) names one or more parents, carries transactions, a
  timestamp, a target and a nonce, and pays a coinbase.  Blocks form a DAG.  GHOSTDAG
  (\<^verbatim>\<open>ghostdag.rs\<close>) picks for every block a selected parent and colours the rest of its past blue
  or red; the number of blues below a block is its score, the tip with the highest score is the
  canonical one, and a walk down its selected parents gives the order in which the ledger is
  replayed.  \<^verbatim>\<open>pow.rs\<close> mines and checks work, \<^verbatim>\<open>daa.rs\<close> derives the next target from the last
  window of blocks.

  The node (\<^verbatim>\<open>vdag-node/src/main.rs\<close>) opens its database, rebuilds the DAG and the ledger from it
  or mines its genesis block, and then serves three sources of events in one loop: the swarm
  (\<^verbatim>\<open>network.rs\<close>, \<^verbatim>\<open>sync.rs\<close>, \<^verbatim>\<open>peer_guard.rs\<close>), the RPC server (\<^verbatim>\<open>rpc.rs\<close>), which adds transactions to
  the mempool, and the mining timer.  An earlier network engine (\<^verbatim>\<open>vdag-network\<close>) is not used by it.  Every received block goes through
  \<^verbatim>\<open>validate_and_ingest\<close>; a block that precedes its parent waits in the orphan pool; a block that
  gets in updates the DAG, the disk, the ledger and the target, and releases its orphans.
\<close>

section \<open>The library\<close>

text \<open>
  Ground.  \<open>Prelude\<close> has the machine words and the checked and saturating arithmetic of the Rust
  library, little-endian bytes, the fallible fold of a loop with \<^verbatim>\<open>?\<close>, and lemmas on sorting.
  \<open>Bytes32\<close> is \<^verbatim>\<open>[u8; 32]\<close> with its order, \<open>Hash_Map\<close> a hash map that is iterated,
  \<open>Graph_Search\<close> the work-list search that the two searches of \<^verbatim>\<open>ghostdag.rs\<close> share, as a locale.

  Consensus library.
  \<^item> \<open>Emission\<close>: subsidy, treasury share and fee split (\<^verbatim>\<open>calculate_subsidy_split\<close>, \<^verbatim>\<open>fee_distribution\<close>).
  \<^item> \<open>Block\<close>: the records, the hashed bytes, identities, Merkle root and genesis blocks.
  \<^item> \<open>Ledger\<close>: \<^verbatim>\<open>apply_block\<close>, \<^verbatim>\<open>try_apply_transaction\<close>, \<^verbatim>\<open>select_affordable\<close>, with overflow and every
    rejection as an error value; \<open>Ledger_Effects\<close> states what an accepted block does over the
    integers: balances, nonces, confirmed transactions, supply.
  \<^item> \<open>Mempool\<close>: insertion and draining.
  \<^item> \<open>Storage\<close>, \<open>Codec\<close>: the sled trees with arbitrary faults and an arbitrary encoding; a concrete
    encoding with its decoder, an instance of the locale \<open>prefix_codec\<close>.
  \<^item> \<open>Ghostdag\<close>: the manager, \<^verbatim>\<open>calculate_ghostdag_data\<close> and its searches; \<open>Dag_Facts\<close>, \<open>Dag_Invariant\<close>
    and \<open>Dag_Colouring\<close> prove what they compute on every manager the node can build.
  \<^item> \<open>Linear_Order\<close>, \<open>Replay\<close>: \<^verbatim>\<open>get_linear_sort\<close>, \<^verbatim>\<open>select_canonical_tip\<close>, \<^verbatim>\<open>recompute_ledger\<close>,
    \<^verbatim>\<open>canonical_block_order\<close>, and that they depend on the set of blocks only.
  \<^item> \<open>Pow\<close>, \<open>Daa\<close>: the mining loop and the difficulty adjustment on 64 and 128 bit words.

  Node.
  \<^item> \<open>Crypto\<close>, \<open>Key_Pair\<close>: addresses, key pairs, signing and verification over an abstract Dilithium.
  \<^item> \<open>Orphan_Pool\<close>, \<open>Peer_Guard\<close>, \<open>Difficulty_Log\<close>: the small stateful parts of the node.
  \<^item> \<open>Node_State\<close>: the state of the event loop, its environment, and the checks of a block;
    \<open>Node_Ingest\<close>: \<^verbatim>\<open>validate_and_ingest\<close> with the recursion over orphans; \<open>Node_Events\<close>: the handlers
    around it; \<open>Node_Startup\<close>: sections 3 and 4 of \<^verbatim>\<open>main\<close>; \<open>Node_Mining\<close>: the timer branch of its loop.
  \<^item> \<open>Rpc\<close>: rate limiter, dispatcher and construction of submitted transactions; \<open>Rpc_Server\<close>: the
    loop over the lines of a connection, and the accept loop interleaved with the ends of connections.
  \<^item> \<open>Node_Invariants\<close>: the locale \<open>state_invariant\<close>, a promise about the stored chain, the ledgers, the
    target and the clock readings made so far that every event keeps, and, as an instance of it, \<open>chain_invariant\<close>, a promise about blocks
    alone, interpreted with all checks but the order of timestamps (blocks the node
    mines itself skip that one) and with all of them.
  \<^item> \<open>Node_Restart\<close>: the round trip through the disk.  \<open>Node_Runs\<close>: the step relation of a whole node,
    with starts, events, requests, mining ticks and restarts in any order, and what holds in
    every state of every run.  A tick is two steps, the booking of the block and the end of its
    search; between them the state names the block being mined, RPC requests are served from the
    ledger that is booked already, and the process may be stopped, so that the block is lost.
    \<open>Node_Supply\<close>: ledger and snapshot hold no more than the stored blocks issue, the block being
    mined and the lost ones.  \<open>Node_Entry\<close>: the abstract chain (DAG, ledger, target), the effect of an
    accepted block on it, and the refinement: an event is a list of blocks that pass every check,
    each against the chain before it, and every stored block can be traced to the step that let it
    in.  \<open>Node_Books\<close>: ledger, snapshot and canonical order, what a restart makes of them, and what a
    node stopped while mining starts with.  \<open>Node_Acceptance\<close>: which blocks get in.  \<open>Node_Gossip\<close> and
    \<open>Node_Sync\<close>: two nodes, one of which mines what the other receives, block by block or at once.  \<open>Node_Liveness\<close>: a tick that
    nothing holds back mines a block.

  Around the node.
  \<^item> \<open>Hex_Text\<close>, \<open>Text_Lines\<close>: integers, slices, hexadecimal, trimming, lines and UTF-8 as the standard
    library and the two helpers of \<^verbatim>\<open>main.rs\<close> have them, panics included.
  \<^item> \<open>World\<close>: files, environment variables and a TCP peer with arbitrary faults, and the sequencing of
    actions on them; \<open>Wallet\<close> (\<^verbatim>\<open>wallet.rs\<close>) with \<open>Wallet_Facts\<close>, \<open>Network_Config\<close> (\<^verbatim>\<open>network_config.rs\<close>)
    and \<open>Command_Line\<close> (arguments, explorer, identity file and peer list of \<^verbatim>\<open>main.rs\<close>) are built on
    it.
  \<^item> \<open>Boot\<close>: the main function, from the arguments to the state its event loop starts with, over the
    files and the database; \<open>Boot_Facts\<close>: what a start leaves behind and the next start finds.
  \<^item> \<open>Swarm_Setup\<close>: the composed behaviour (\<^verbatim>\<open>behaviour.rs\<close>), its settings and the fallible steps of the
    builder in \<^verbatim>\<open>main.rs\<close>, with the ranges libp2p documents for the settings, and the bound on messages
    that the transport and the handler share; \<open>P2p_Engine\<close>: the engine of \<^verbatim>\<open>vdag-network\<close>, whose event
    loop is a fold over events, and where the node agrees with it.

  Tests.
  \<^item> \<open>Sha3\<close>: SHA3-256 (FIPS 202), evaluated by rewriting, as a concrete digest.
  \<^item> \<open>Test_Vectors\<close> (\<^verbatim>\<open>test_vectors.rs\<close>), \<open>Consensus_Tests\<close> (the unit and property-based tests of
    \<^verbatim>\<open>vdag-consensus\<close>) and \<open>Node_Tests\<close> (those of \<^verbatim>\<open>vdag-crypto\<close>, \<^verbatim>\<open>peer_guard.rs\<close>, \<^verbatim>\<open>rpc.rs\<close> and
    \<^verbatim>\<open>network_config.rs\<close>): each test is a truth value over the definitions, and a lemma says that
    it holds: evidence that the model computes what the program computes, not properties.

  The properties are in \<open>Ledger_Properties\<close>, \<open>Dag_Properties\<close>, \<open>Consensus_Properties\<close>,
  \<open>Node_Properties\<close>, \<open>Service_Properties\<close> and, where they join several parts of the program, below;
  the witness for the Merkle root runs on SHA3-256 and is in \<open>Consensus_Tests\<close>;
  \<open>Examples\<close>, \<open>Node_Examples\<close>, \<open>Service_Examples\<close>, \<open>Progress_Example\<close>,
  \<open>Boot_Example\<close> and \<open>Gossip_Example\<close> hold what their witnesses run on.
\<close>

section \<open>Conventions\<close>

text \<open>
  Integers keep their width: \<^verbatim>\<open>u64\<close> is \<^typ>\<open>64 word\<close>, with overflow as the checked, saturating or wrapping
  operation the source names.  Heap sizes and counters of type \<^verbatim>\<open>usize\<close> are natural numbers.  An
  error is the left side of a sum, a panic one of its values.  A hash map that is only looked up is
  a partial map; one that is iterated is the insertion-ordered list of \<open>Hash_Map\<close>, and the theorems
  on fork choice show that the order does not matter.

  Third-party code is an argument: the digest (\<open>Sha3\<close> has it in full, for the tests), Dilithium, Ed25519, Argon2, the cipher, bincode, JSON
  and hexadecimal crates, and the random generator.  What a theorem needs of them is a hypothesis
  with a name (\<open>block_codec_ok\<close>, \<open>ledger_codec_ok\<close>, \<open>ledger_codec_faithful\<close>, \<open>dilithium_ok\<close>,
  \<open>wallet_library_ok\<close>, \<open>config_library_ok\<close>), and each has an instance in the example theories.
  Database and file operations fail wherever an argument says so; \<open>reliable\<close> says nowhere,
  \<open>ledgers_saved\<close> that saving a ledger does not fail either.  Clocks and random draws are functions of the number of reads.

  Two bounds occur.  The recursion of \<^verbatim>\<open>validate_and_ingest\<close> over released orphans gets one more step of
  fuel than the orphan pool has room for, and \<open>validate_enough_fuel\<close> proves that any more gives the
  same result.  Theorems about stored blocks assume fewer than \<open>2 ^ 32\<close> of them, below which the
  arithmetic on blue scores and windows does not wrap.  Loops without a bound in the source, the
  mining loop and the walk along selected parents, are partial functions; that they end is proved
  (\<open>mining_finds_first_nonce\<close>, \<open>linear_order_complete\<close>).
\<close>

section \<open>Not modelled\<close>

text \<open>
  libp2p itself: which settings its builders accept, whether the swarm can be built, listens and dials
  are arguments, and what a handler asks of it is its outbox.  The two tests that deserialisation
  never panics, since they are about bincode alone.  Sockets and splitting a stream into
  lines are left out, log lines and the rendering of messages and responses too.  Only the main loop changes the ledger, and it
  serves one event at a time, holding the lock of the ledger during the handler of a network event.
  RPC tasks run beside it.  A run is a sequence of handlers, requests and halves of ticks, in which
  requests also come, and the process may also be stopped, while a block is mined.  Taken as one
  step are: the first half of a tick, from draining the mempool to saving the ledger, and the
  second, from inserting the block to the next target, where a request would see the ledger
  before or after; the two looks of \<^verbatim>\<open>transaction_status\<close> at ledger and mempool; and a stop does not come inside a
  handler or one of the halves.  The steps of the accept loop and of ending connections interleave freely.
\<close>

section \<open>Heights\<close>

text \<open>What \<open>merged_branches_overpay\<close> assumes of heights holds in every state of every run.\<close>

lemma node_heights_follow:
  assumes "node_run env codec token i miner mining job lost nd pool" and "reliable env"
    and "dag_size nd < 2 ^ 32"
  shows "heights_follow (n_dag nd)"
proof -
  let ?g = "fixed_genesis_hash_for_network (sha3 env) i"
  have "node_inv env ?g nd"
    using node_run_inv [OF assms(1,2)] assms(2,3) by (simp add: guarded_def node_sound_def)
  then have "\<exists>gb. hm_get (block_store (n_dag nd)) ?g = Some gb \<and> block_height gb = 0 \<and> block_parents gb = []"
    and "\<And>h b. hm_get (block_store (n_dag nd)) h = Some b \<Longrightarrow> h \<noteq> ?g \<Longrightarrow> block_sound env (n_dag nd) b"
    unfolding node_inv_def by blast+
  then show ?thesis
    unfolding heights_follow_def block_sound_def parent_heights_def by (metis option.inject)
qed

section \<open>Progress\<close>

text \<open>C11: A miner makes progress: in every run, a tick that no synchronisation holds back ends and
  stores a new block on the canonical tip for the miner's address, with the affordable ones among
  ten transactions of the mempool, provided the database works, the supply leaves room for a
  subsidy, the height and the number of blocks do not overflow, and, of the one block that this tick
  builds, some nonce meets the target and none that does gives the hash of a stored block.\<close>

theorem mining_progress:
  assumes "node_run env codec token i me True None lost nd pool" and "reliable env"
    and "\<And>l. ser_ledger (bin env) l \<noteq> None" and "0 < window_size (difficulty_mgr env)"
    and "g = fixed_genesis_hash_for_network (sha3 env) i"
    and "\<not> n_sync_pending nd" and "dag_size nd + 1 < 2 ^ 32"
    and "ledger_supply (n_ledger nd) + 83238 < 2 ^ 64"
    and "hm_get (block_store (n_dag nd)) (mining_tip g (n_dag nd)) = Some tb" and "block_height tb + 1 \<noteq> 0"
    and "T = block_template env g me (wall_clock env (n_reads nd)) (fst (drain_to_batch pool 10)) nd"
    and "\<exists>n. calculate_hash (sha3 env) (with_nonce T n) \<le> n_target nd"
    and "\<And>n. calculate_hash (sha3 env) (with_nonce T n) \<le> n_target nd \<Longrightarrow>
      hm_get (block_store (n_dag nd)) (calculate_hash (sha3 env) (with_nonce T n)) = None"
  shows "\<exists>nd' pool' b txs. mining_tick env g me nd pool = ((Inr (), nd'), pool') \<and>
    drain_to_batch pool 10 = (txs, pool') \<and>
    transactions b = fst (select_affordable (sha3 env) (n_ledger nd) txs me DEV_TREASURY_ADDRESS) \<and>
    n_history nd' = n_history nd @ [b] \<and> (\<exists>n. b = with_nonce T n) \<and>
    hm_get (block_store (n_dag nd')) (calculate_hash (sha3 env) b) = Some b \<and>
    extends_tip (mining_tip g (n_dag nd)) (block_height tb) b \<and> coinbase_miner_address b = me"
proof -
  have "node_inv env g nd" "mempool_signed (dili env) (sha3 env) pool"
    using node_run_inv [OF assms(1,2)] assms(2,5,7) by (simp_all add: guarded_def node_sound_def)
  from tick_progress [OF this(1) assms(2-4,6,7) this(2) assms(8-13)] show ?thesis by blast
qed

theorem mining_progress_witness:
  "\<exists>nd' pool' b. mining_tick ex_env (fill 0) (fill 3) ex_node mempool_new = ((Inr (), nd'), pool') \<and>
     n_history nd' = [ex_genesis, b] \<and> block_parents b = [fill 0] \<and> coinbase_miner_address b = fill 3"
proof -
  have tip: "mining_tip (fill 0) (n_dag ex_node) = fill 0"
    using mining_tip_stored(1) [OF ex_node_inv] by (auto simp: ex_node_get split: if_splits)
  have gen: "block_height ex_genesis = 0" by simp
  have pos: "calculate_hash height_digest b = fill 1" if "extends_tip (fill 0) 0 b" for b
    using that by (simp add: height_digest_block extends_tip_def)
  have idle: "\<not> n_sync_pending ex_node" by (rule ex_node_idle)
  have supply0: "ledger_supply (n_ledger ex_node) + 83238 < 2 ^ 64"
    by (simp add: ex_node_shape ledger_supply_default)
  let ?T = "block_template ex_env (fill 0) (fill 3) (wall_clock ex_env (n_reads ex_node))
    (fst (drain_to_batch mempool_new 10)) ex_node"
  have one: "calculate_hash height_digest (with_nonce ?T n) = fill 1" for n
    by (rule pos) (simp add: extends_tip_def tip ex_node_get)
  have "\<exists>nd' pool' b txs. mining_tick ex_env (fill 0) (fill 3) ex_node mempool_new = ((Inr (), nd'), pool') \<and>
    drain_to_batch mempool_new 10 = (txs, pool') \<and>
    transactions b = fst (select_affordable (sha3 ex_env) (n_ledger ex_node) txs (fill 3) DEV_TREASURY_ADDRESS) \<and>
    n_history nd' = n_history ex_node @ [b] \<and> (\<exists>n. b = with_nonce ?T n) \<and>
    hm_get (block_store (n_dag nd')) (calculate_hash (sha3 ex_env) b) = Some b \<and>
    extends_tip (mining_tip (fill 0) (n_dag ex_node)) (block_height ex_genesis) b \<and>
    coinbase_miner_address b = fill 3"
  proof (rule mining_progress [OF ex_node_run ex_env_reliable _ ex_env_window _ idle _ supply0])
    show "hm_get (block_store (n_dag ex_node)) (calculate_hash (sha3 ex_env) (with_nonce ?T n)) = None" for n
      using one [of n] by (simp add: ex_node_get)
    have "calculate_hash (sha3 ex_env) (with_nonce ?T 0) \<le> n_target ex_node"
      using one [of 0] by (simp add: ex_node_shape)
    then show "\<exists>n. calculate_hash (sha3 ex_env) (with_nonce ?T n) \<le> n_target ex_node" by blast
  qed (simp_all add: plain_bincode_def ex_genesis_hash ex_node_size tip ex_node_get gen)
  then show ?thesis by (auto simp: ex_node_shape(2) tip extends_tip_def)
qed

text \<open>A node that mined a block of its own has coins, and no more than its blocks issue.\<close>

theorem coins_come_from_blocks_witness:
  "\<exists>nd :: nat node. node_run ex_env plain_rpc None DEVNET_NETWORK_ID (fill 3) True None [] nd mempool_new \<and>
     105 \<le> unat (ledger_balance (n_ledger nd) (fill 3)) \<and>
     ledger_supply (n_ledger nd) \<le>
       (\<Sum>h \<in> dom (hm_get (block_store (n_dag nd))). block_issue (stored_block (n_dag nd) h))"
proof -
  obtain nd :: "nat node" where nd:
    "node_run ex_env plain_rpc None DEVNET_NETWORK_ID (fill 3) True None [] nd mempool_new"
    "dag_size nd = 2" "105 \<le> unat (ledger_balance (n_ledger nd) (fill 3))"
    by (rule ex_mined_node) blast
  have size: "dag_size nd < 2 ^ 32" using nd(2) by simp
  from coins_come_from_blocks [OF nd(1) ex_env_reliable codec_ok_faithful [OF ex_ledger_codec] size] nd
  show ?thesis by auto
qed

section \<open>Two nodes\<close>

text \<open>C8: Nodes in step stay in step: when two nodes of one network hold the same blocks, ledger and
  target and one of them mines a block, it publishes it, and the other takes the message: it then
  holds the same blocks, ledger and target again, and its peer is not charged.  The two have their
  own databases and clocks; the miner's clock must not be behind its tip, nor more than half a
  minute ahead of the other's, and no orphan may be waiting.\<close>

theorem mined_block_keeps_nodes_in_step:
  fixes nd nd' peer :: "'p node"
  defines "g \<equiv> \<lambda>env i. fixed_genesis_hash_for_network (sha3 env) i"
  assumes "node_run env codec token i me mining job lost nd pool" and "reliable env"
    and "node_run (elsewhere env f w c) codec' token' i me' mining' job' lost' peer pool2" and "reliable (elsewhere env f w c)"
    and "\<And>l. ser_ledger (bin env) l \<noteq> None" and "0 < window_size (difficulty_mgr env)"
    and "in_step nd peer" and "dag_size nd + 1 < 2 ^ 32" and "dag_size peer < 2 ^ 32"
    and "mining_tick env (g env i) me nd pool = ((r, nd'), pool')" and "n_history nd' \<noteq> n_history nd"
    and "inj_on (sha3 env) (block_preimage ` set (n_history nd'))"
    and "\<And>h. waiting_on (n_orphans peer) h = None"
    and "\<And>tip. hm_get (block_store (n_dag nd)) (mining_tip (g env i) (n_dag nd)) = Some tip \<Longrightarrow>
      timestamp (header tip) \<le> wall_clock env (n_reads nd)"
    and "wall_clock env (n_reads nd) \<le> saturating_add (w (n_reads peer)) MAX_FUTURE_DRIFT_SECS"
  shows "\<exists>b payload peer'. n_history nd' = n_history nd @ [b] \<and> ser_block (bin env) b = Some payload \<and>
    n_outbox nd' = n_outbox nd @ [PublishBlock payload] \<and>
    (length payload \<le> MAX_GOSSIP_MESSAGE_BYTES \<longrightarrow>
       handle_p2p_events (elsewhere env f w c) (g env i) i
         (Gossip_Message source \<lparr>gm_topic = GOSSIP_TOPIC, gm_data = payload\<rparr>) peer = (Inr (), peer') \<and>
       in_step nd' peer' \<and> n_guard peer' = n_guard peer)"
proof -
  have inv: "node_inv env (g env i) nd" and pool: "mempool_signed (dili env) (sha3 env) pool"
    using node_run_inv [OF assms(2,3)] assms(3,9) by (simp_all add: guarded_def node_sound_def g_def)
  have inv2: "node_inv env (g env i) peer"
    using node_run_inv [OF assms(4,5)] assms(5,10) by (simp add: guarded_def node_sound_def g_def)
  show ?thesis
    by (rule gossip_in_step [OF assms(3,5,6,7) inv inv2 assms(8) pool assms(11,12,13,9,14,15,16)])
qed

text \<open>The other node's clock is twenty seconds behind.\<close>

theorem mined_block_keeps_nodes_in_step_witness:
  "\<exists>(nd :: nat node) payload peer.
     mining_tick ex_env (fill 0) (fill 3) ex_node mempool_new = ((Inr (), nd), mempool_new) \<and>
     PublishBlock payload \<in> set (n_outbox nd) \<and>
     handle_p2p_events slow_env (fill 0) DEVNET_NETWORK_ID
       (Gossip_Message 7 \<lparr>gm_topic = GOSSIP_TOPIC, gm_data = payload\<rparr>) ex_node = (Inr (), peer) \<and>
     in_step nd peer"
proof -
  obtain nd :: "nat node" and b where t:
    "mining_tick ex_env (fill 0) (fill 3) ex_node mempool_new = ((Inr (), nd), mempool_new)"
    "n_history nd = [ex_genesis, b]" "extends_tip (fill 0) 0 b" "transactions b = []"
    by (rule ex_first_tick) blast
  have tip: "mining_tip (fill 0) (n_dag ex_node) = fill 0"
    using mining_tip_stored(1) [OF ex_node_inv] by (auto simp: ex_node_get split: if_splits)
  have inj: "inj_on height_digest (block_preimage ` set (n_history nd))"
    unfolding t(2) by (rule ex_two_blocks_inj [OF t(3)])
  have "\<exists>b payload peer. n_history nd = n_history ex_node @ [b] \<and> ser_block (bin ex_env) b = Some payload \<and>
    n_outbox nd = n_outbox ex_node @ [PublishBlock payload] \<and>
    (length payload \<le> MAX_GOSSIP_MESSAGE_BYTES \<longrightarrow>
       handle_p2p_events slow_env (fixed_genesis_hash_for_network (sha3 ex_env) DEVNET_NETWORK_ID) DEVNET_NETWORK_ID
         (Gossip_Message 7 \<lparr>gm_topic = GOSSIP_TOPIC, gm_data = payload\<rparr>) ex_node = (Inr (), peer) \<and>
       in_step nd peer \<and> n_guard peer = n_guard ex_node)"
    unfolding slow_env_def
    by (rule mined_block_keeps_nodes_in_step [OF ex_node_run ex_env_reliable
        ex_node_run_slow [unfolded slow_env_def] slow_env_reliable [unfolded slow_env_def]
        _ ex_env_window, where pool' = mempool_new])
      (use t inj tip in \<open>simp_all add: plain_bincode_def in_step_def ex_node_size ex_genesis_hash ex_node_shape
        ex_node_get ex_genesis_time orphan_pool_new_def MAX_FUTURE_DRIFT_SECS_def saturating_add_def\<close>)
  then obtain payload peer where p: "ser_block (bin ex_env) b = Some payload"
    "n_outbox nd = n_outbox ex_node @ [PublishBlock payload]"
    "length payload \<le> MAX_GOSSIP_MESSAGE_BYTES \<longrightarrow> handle_p2p_events slow_env (fill 0) DEVNET_NETWORK_ID
       (Gossip_Message 7 \<lparr>gm_topic = GOSSIP_TOPIC, gm_data = payload\<rparr>) ex_node = (Inr (), peer) \<and> in_step nd peer"
    using t(2) by (auto simp: ex_node_shape ex_genesis_hash)
  have "length payload \<le> MAX_GOSSIP_MESSAGE_BYTES"
    using p(1) t(3,4) by (simp add: ex_payload_size extends_tip_def)
  with p t(1) show ?thesis by (metis in_set_conv_decomp)
qed

text \<open>C9: A node that fell behind catches up: a peer in step with an earlier state of a miner asks it, as
  it does on every new connection, for what is above its highest block; after as many as 500 ticks
  that all mined, the miner's answer brings the peer in step with the miner's present state, without
  charging it, and ends the synchronisation.  The conditions: the peer's database and codec are
  the miner's kind and work; every block the miner added is strictly higher than every block the
  peer holds, since the request asks by height and a lower block would not be sent; no orphan waits
  at the peer; no block of the miner's history is stamped after its present clock, and its clock
  does not run backwards; whenever the peer reads its clock, no new block is further ahead of it
  than the allowed drift; the digest has no collision among the miner's blocks; and there are
  fewer than 2^32 blocks.\<close>

theorem sync_catches_up:
  fixes nd peer :: "'p node"
  defines "g \<equiv> \<lambda>env i. fixed_genesis_hash_for_network (sha3 env) i"
  assumes "node_run env codec token i me mining job lost nd pool" and "reliable env"
    and "node_run (elsewhere env f w c) codec' token' i me' mining' job' lost' peer pool2" and "reliable (elsewhere env f w c)"
    and "\<And>l. ser_ledger (bin env) l \<noteq> None" and "0 < window_size (difficulty_mgr env)"
    and "in_step nd peer" and "dag_size nd + length pools < 2 ^ 32" and "dag_size peer < 2 ^ 32"
    and "list_all (mempool_signed (dili env) (sha3 env)) pools"
    and "n_history (ticks env (g env i) me nd pools) = n_history nd @ bs"
    and "length bs = length pools" and "length pools \<le> 500"
    and "inj_on (sha3 env) (block_preimage ` set (n_history nd @ bs))"
    and "\<forall>b \<in> set bs. highest (n_history peer) < block_height b"
    and "\<And>h. waiting_on (n_orphans peer) h = None"
    and "up_to_date env nd" and "mono (wall_clock env)"
    and "\<forall>b \<in> set bs. \<forall>k. timestamp (header b) \<le> saturating_add (w k) MAX_FUTURE_DRIFT_SECS"
  shows "\<exists>peer'. handle_p2p_events (elsewhere env f w c) (g env i) i
      (Sync_Response source (build_sync_response
         \<lparr>rq_network_id = i, rq_genesis_hash = g env i, rq_since_height = highest (n_history peer)\<rparr>
         (g env i) (n_history (ticks env (g env i) me nd pools)) i)) peer = (Inr (), peer') \<and>
    in_step (ticks env (g env i) me nd pools) peer' \<and> n_guard peer' = n_guard peer \<and> \<not> n_sync_pending peer'"
proof -
  have inv: "node_inv env (g env i) nd"
    using node_run_inv [OF assms(2,3)] assms(3,9) by (simp add: guarded_def node_sound_def g_def)
  have old: "guarded (node_sound (elsewhere env f w c) (g env i)) peer"
    using node_run_inv [OF assms(4,5)] by (simp add: g_def)
  then have inv2: "node_inv env (g env i) peer"
    using assms(5,10) by (simp add: guarded_def node_sound_def)
  obtain peer' where p: "sync_blocks (elsewhere env f w c) source bs peer = (Inr (), peer')"
    "in_step (ticks env (g env i) me nd pools) peer'" "n_guard peer' = n_guard peer"
    using follower_keeps_up [OF assms(3,5,6,7) inv old assms(8,18,19,17) inv2 assms(11,12,13) _ assms(9,20), of source]
      assms(12,15) by auto
  have "build_sync_response
      \<lparr>rq_network_id = i, rq_genesis_hash = g env i, rq_since_height = highest (n_history peer)\<rparr> (g env i)
      (n_history (ticks env (g env i) me nd pools)) i = Blocks bs"
    unfolding assms(12) by (rule answer_is_news [OF assms(8) inv inv2 assms(16)]) (use assms(13,14) in simp)
  then show ?thesis using p
    by (intro exI [of _ "peer'\<lparr>n_sync_pending := False\<rparr>"])
      (simp add: handle_p2p_events_def handle_sync_response_def in_step_def)
qed

theorem sync_catches_up_witness:
  "\<exists>peer'. handle_p2p_events slow_env (fill 0) DEVNET_NETWORK_ID
      (Sync_Response 7 (build_sync_response
         \<lparr>rq_network_id = DEVNET_NETWORK_ID, rq_genesis_hash = fill 0, rq_since_height = highest (n_history ex_node)\<rparr>
         (fill 0) (n_history (ticks ex_env (fill 0) (fill 3) ex_node [mempool_new])) DEVNET_NETWORK_ID)) ex_node
      = (Inr (), peer') \<and>
    in_step (ticks ex_env (fill 0) (fill 3) ex_node [mempool_new]) peer'"
proof -
  obtain nd :: "nat node" and b where t:
    "mining_tick ex_env (fill 0) (fill 3) ex_node mempool_new = ((Inr (), nd), mempool_new)"
    "n_history nd = [ex_genesis, b]" "extends_tip (fill 0) 0 b" "hm_get (block_store (n_dag nd)) (fill 1) = Some b"
    "node_inv ex_env (fill 0) nd"
    by (rule ex_first_tick) blast
  have inj: "inj_on height_digest (block_preimage ` set (n_history ex_node @ [b]))"
    using ex_two_blocks_inj [OF t(3)] by (simp add: ex_node_shape)
  have time: "timestamp (header b) = 1700000000"
    using ex_tick_time [OF t(1,2)] .
  have "\<exists>peer'. handle_p2p_events slow_env (fixed_genesis_hash_for_network (sha3 ex_env) DEVNET_NETWORK_ID) DEVNET_NETWORK_ID
      (Sync_Response 7 (build_sync_response
         \<lparr>rq_network_id = DEVNET_NETWORK_ID, rq_genesis_hash = fixed_genesis_hash_for_network (sha3 ex_env) DEVNET_NETWORK_ID,
          rq_since_height = highest (n_history ex_node)\<rparr>
         (fixed_genesis_hash_for_network (sha3 ex_env) DEVNET_NETWORK_ID)
         (n_history (ticks ex_env (fixed_genesis_hash_for_network (sha3 ex_env) DEVNET_NETWORK_ID) (fill 3) ex_node
            [mempool_new])) DEVNET_NETWORK_ID)) ex_node = (Inr (), peer') \<and>
    in_step (ticks ex_env (fixed_genesis_hash_for_network (sha3 ex_env) DEVNET_NETWORK_ID) (fill 3) ex_node
      [mempool_new]) peer' \<and> n_guard peer' = n_guard ex_node \<and> \<not> n_sync_pending peer'"
    unfolding slow_env_def
    by (rule sync_catches_up [OF ex_node_run ex_env_reliable
        ex_node_run_slow [unfolded slow_env_def] slow_env_reliable [unfolded slow_env_def]
        _ ex_env_window, where bs = "[b]"])
      (use t inj time in \<open>simp_all add: plain_bincode_def in_step_def ex_node_size ex_genesis_hash ex_node_shape
        ex_empty_pool tick_with_def ex_genesis_time orphan_pool_new_def MAX_FUTURE_DRIFT_SECS_def saturating_add_def
        up_to_date_def mono_def highest_def extends_tip_def\<close>)
  then show ?thesis by (auto simp: ex_genesis_hash)
qed

section \<open>From the wallet to the chain\<close>




section \<open>Starting again\<close>

text \<open>C13: The program started again on its own files and database, whatever the node did in between:
  it comes up with the same peer identity, the same miner key and reward address, the same RPC
  settings, the same blocks and colours and the same canonical tip; the ledger is the replay of
  the canonical order whenever that replay succeeds; and no file is changed.\<close>

theorem second_start_resumes:
  fixes nd :: "'p node" and r :: "('k, 'p, 'pk, 'sk, 'i) launched"
  assumes "wallet_library_ok (cr_wallet cr)" and "dilithium_ok (cr_keys cr)"
    and "\<And>key bytes. id_encode (identities (cr_swarm cr)) key = Some bytes \<Longrightarrow>
      id_decode (identities (cr_swarm cr)) bytes = Some key"
    and "main_program cr env sur args w st = (Running r, w1)"
    and "node_run env codec token (la_network r) miner mining job lost nd pool"
    and "reliable env" and "\<And>n. io_fault sur n = None" and "dag_size nd < 2 ^ 32"
    and "files v ''node_identity.key'' = files w1 ''node_identity.key''"
    and "files v ''miner_wallet.json'' = files w1 ''miner_wallet.json''"
  shows "\<exists>(r' :: ('k, 'p, 'pk, 'sk, 'i) launched) v'.
    main_program cr env sur args v (n_storage nd) = (Running r', v') \<and> files v' = files v \<and>
    la_identity r' = la_identity r \<and> la_keys r' = la_keys r \<and> la_miner r' = la_miner r \<and>
    la_serving r' = la_serving r \<and> la_mempool r' = mempool_new \<and>
    hm_get (block_store (n_dag (la_node r'))) = hm_get (block_store (n_dag nd)) \<and>
    ghostdag_cache (n_dag (la_node r')) = ghostdag_cache (n_dag nd) \<and>
    select_canonical_tip (n_dag (la_node r')) = select_canonical_tip (n_dag nd) \<and>
    (\<forall>t l. select_canonical_tip (n_dag nd) = Some t \<longrightarrow>
       recompute_ledger (sha3 env) (n_dag nd) t = Some (Inr l) \<longrightarrow> n_ledger (la_node r') = l)"
proof -
  have inv: "node_inv env (fixed_genesis_hash_for_network (sha3 env) (la_network r)) nd"
    using node_run_inv [OF assms(5,6)] assms(6,8) by (simp add: guarded_def node_sound_def)
  have "la_mempool r = mempool_new" using assms(4) by (rule main_Running)
  moreover obtain ds v' and nd' :: "'p node" where
    "main_program cr env sur args v (n_storage nd) = (Running (r\<lparr>la_dials := ds, la_node := nd'\<rparr>), v')"
    "files v' = files v" "hm_get (block_store (n_dag nd')) = hm_get (block_store (n_dag nd))"
    "ghostdag_cache (n_dag nd') = ghostdag_cache (n_dag nd)"
    "select_canonical_tip (n_dag nd') = select_canonical_tip (n_dag nd)"
    "\<forall>t l. select_canonical_tip (n_dag nd) = Some t \<longrightarrow>
       recompute_ledger (sha3 env) (n_dag nd) t = Some (Inr l) \<longrightarrow> n_ledger nd' = l"
    by (rule main_again [OF assms(1-4) inv assms(6,7,9,10)])
  ultimately show ?thesis
    by (intro exI [of _ "r\<lparr>la_dials := ds, la_node := nd'\<rparr>"] exI [of _ v']) simp
qed

theorem second_start_resumes_witness:
  "\<exists>(r :: (u8 list, nat, u8 list, u8 list, nat) launched) w1
      (r' :: (u8 list, nat, u8 list, u8 list, nat) launched) v'.
     main_program plain_crates ex_env calm [''velodag''] no_files storage_empty = (Running r, w1) \<and>
     main_program plain_crates ex_env calm [''velodag''] w1 (n_storage ex_next) = (Running r', v') \<and>
     la_identity r' = la_identity r \<and> la_keys r' = la_keys r \<and>
     hm_get (block_store (n_dag (la_node r'))) (fill 1) = Some block_one"
proof -
  obtain r :: "(u8 list, nat, u8 list, u8 list, nat) launched" and w1 where
    first: "main_program plain_crates ex_env calm [''velodag''] no_files storage_empty = (Running r, w1)"
    and net: "la_network r = DEVNET_NETWORK_ID" by (rule plain_first_start)
  have run: "node_run ex_env ex_codec None (la_network r) (fill 3) False None [] ex_next mempool_new"
    using ex_next_run by (simp add: net)
  have size: "dag_size ex_next < 2 ^ 32" using ex_next_size by simp
  from second_start_resumes [OF _ _ _ first run ex_env_reliable calm_sels(1) size refl refl]
  show ?thesis using first by (fastforce simp: plain_wallet_ok plain_keys_ok ex_next_get)
qed

end
